(* ===== verification/Iec_Prelude.thy ===== *)
theory Iec_Prelude
  imports Main "HOL-Library.Word"
begin

unbundle bit_operations_syntax

text \<open>
  Shared vocabulary of the development.

  \<^item> machine integers, \<open>Result\<close> with panics made explicit, and the error enum of
    \<^verbatim>\<open>crates/iec60870-proto/src/error.rs\<close>;
  \<^item> the operations of the external crate \<^verbatim>\<open>bytes\<close> (traits \<^verbatim>\<open>Buf\<close> and \<^verbatim>\<open>BufMut\<close>) that
    the sources call: they are a parameter of every codec (the record \<open>bytes_api\<close>), and the
    locale \<open>bytes_crate\<close> states the documented behaviour the codecs rely on.  The interpretation
    \<open>slice_api\<close> at the end (a growing \<^verbatim>\<open>Vec<u8>\<close> and a consumed \<^verbatim>\<open>&[u8]\<close>) shows the laws
    are satisfiable and lets closed examples be evaluated;
  \<^item> the locale \<open>codec\<close>: the contract every fixed-width wire element promises, with the
    combinators that build composite elements from atomic ones;
  \<^item> the bit-level lemmas and rule collections that carry the codec proofs.
\<close>

named_theorems flag_simps \<open>tests of one bit of an octet\<close>
named_theorems codec_defs \<open>definitions of the wire elements\<close>
named_theorems bytes_simps \<open>little-endian splitting and joining\<close>

section \<open>Machine integers and results\<close>

type_synonym u8 = "8 word"
type_synonym u16 = "16 word"
type_synonym u32 = "32 word"
type_synonym i16 = "16 word" \<comment> \<open>two's complement, read with \<open>sint\<close>\<close>
type_synonym i32 = "32 word" \<comment> \<open>two's complement, read with \<open>sint\<close>\<close>
type_synonym f32 = "32 word" \<comment> \<open>the IEEE 754 binary32 bit pattern\<close>
type_synonym octets = "u8 list"

text \<open>Instants and durations are counted in nanoseconds; \<^verbatim>\<open>saturating_duration_since\<close> is the
  truncating subtraction of \<open>nat\<close>.\<close>

type_synonym Instant = nat
type_synonym Duration = nat

definition saturating_duration_since :: "Instant \<Rightarrow> Instant \<Rightarrow> Duration" where
  "saturating_duration_since now earlier = now - earlier"

definition Duration_from_secs :: "nat \<Rightarrow> Duration" where
  "Duration_from_secs secs = secs * 1000000000"

text \<open>The error enum of the crate.  The field name of \<^verbatim>\<open>InvalidValue\<close> is a string.\<close>

datatype error =
    Incomplete nat nat \<comment> \<open>needed, have\<close>
  | InvalidStartByte u8 u8 \<comment> \<open>expected, got\<close>
  | InvalidEndByte u8 u8 \<comment> \<open>expected, got\<close>
  | LengthMismatch nat nat \<comment> \<open>declared, actual\<close>
  | LengthOctetsDiffer u8 u8 \<comment> \<open>first, second\<close>
  | ChecksumMismatch u8 u8 \<comment> \<open>expected, got\<close>
  | UnknownAsduType u8
  | InvalidValue string int \<comment> \<open>field, value\<close>
  | UnsupportedFormat
  | AsduTooLong nat nat \<comment> \<open>len, max\<close>

text \<open>The outcome of a call: it panics, returns \<^verbatim>\<open>Err\<close>, or returns \<^verbatim>\<open>Ok\<close>.\<close>

datatype 'a outcome = Panic | Err error | Ok 'a

text \<open>Sequencing with the \<^verbatim>\<open>?\<close> operator.\<close>

primrec and_then :: "'a outcome \<Rightarrow> ('a \<Rightarrow> 'b outcome) \<Rightarrow> 'b outcome" where
  "and_then Panic f = Panic"
| "and_then (Err e) f = Err e"
| "and_then (Ok x) f = f x"

lemma and_then_Ok_iff: "and_then m f = Ok y \<longleftrightarrow> (\<exists>x. m = Ok x \<and> f x = Ok y)"
  by (cases m) auto

lemma and_then_assoc: "and_then (and_then m f) g = and_then m (\<lambda>x. and_then (f x) g)"
  by (cases m) auto

lemma and_then_Panic_iff: "and_then m f = Panic \<longleftrightarrow> m = Panic \<or> (\<exists>x. m = Ok x \<and> f x = Panic)"
  by (cases m) auto

section \<open>Little-endian octets (\<^verbatim>\<open>to_le_bytes\<close>, \<^verbatim>\<open>from_le_bytes\<close>)\<close>

definition u16_to_le_bytes :: "u16 \<Rightarrow> octets" where
  "u16_to_le_bytes w = [ucast w, ucast (drop_bit 8 w)]"

definition u16_from_le_bytes :: "u8 \<Rightarrow> u8 \<Rightarrow> u16" where
  "u16_from_le_bytes a b = ucast a OR push_bit 8 (ucast b)"

definition u32_to_le_bytes :: "u32 \<Rightarrow> octets" where
  "u32_to_le_bytes w = [ucast w, ucast (drop_bit 8 w), ucast (drop_bit 16 w), ucast (drop_bit 24 w)]"

definition u32_from_le_bytes :: "u8 \<Rightarrow> u8 \<Rightarrow> u8 \<Rightarrow> u8 \<Rightarrow> u32" where
  "u32_from_le_bytes a b c d =
     ucast a OR push_bit 8 (ucast b) OR push_bit 16 (ucast c) OR push_bit 24 (ucast d)"

lemma length_u16_to_le_bytes [simp]: "length (u16_to_le_bytes w) = 2"
  by (simp add: u16_to_le_bytes_def)

lemma length_u32_to_le_bytes [simp]: "length (u32_to_le_bytes w) = 4"
  by (simp add: u32_to_le_bytes_def)

lemma u16_from_to_le [bytes_simps]: "u16_from_le_bytes (ucast w) (ucast (drop_bit 8 w)) = w"
  by (rule bit_word_eqI) (auto simp: u16_from_le_bytes_def bit_simps)

lemma u16_from_le_lo [bytes_simps]: "ucast (u16_from_le_bytes a b) = a"
  by (rule bit_word_eqI) (auto simp: u16_from_le_bytes_def bit_simps)

lemma u16_from_le_hi [bytes_simps]: "ucast (drop_bit 8 (u16_from_le_bytes a b)) = b"
  by (rule bit_word_eqI) (auto simp: u16_from_le_bytes_def bit_simps dest: bit_imp_le_length)

lemma u32_from_to_le [bytes_simps]:
  "u32_from_le_bytes (ucast w) (ucast (drop_bit 8 w)) (ucast (drop_bit 16 w)) (ucast (drop_bit 24 w)) = w"
proof (rule bit_word_eqI)
  fix n assume "n < LENGTH(32)"
  then show "bit (u32_from_le_bytes (ucast w) (ucast (drop_bit 8 w)) (ucast (drop_bit 16 w))
      (ucast (drop_bit 24 w))) n = bit w n"
    by (cases "n < 8"; cases "n < 16"; cases "n < 24") (auto simp: u32_from_le_bytes_def bit_simps)
qed

section \<open>Bits of an octet\<close>

text \<open>Two octets are equal when their eight bits are: the bitwise goals that result are closed by
  evaluating each mask.\<close>

lemma octet_eqI:
  fixes x y :: u8
  assumes "bit x 0 = bit y 0" and "bit x 1 = bit y 1" and "bit x 2 = bit y 2" and "bit x 3 = bit y 3"
    and "bit x 4 = bit y 4" and "bit x 5 = bit y 5" and "bit x 6 = bit y 6" and "bit x 7 = bit y 7"
  shows "x = y"
proof (rule bit_word_eqI)
  fix n assume "n < LENGTH(8)"
  then have "n = 0 \<or> n = 1 \<or> n = 2 \<or> n = 3 \<or> n = 4 \<or> n = 5 \<or> n = 6 \<or> n = 7" by auto
  then show "bit x n = bit y n" using assms by auto
qed

lemma octet_flag [flag_simps]:
  fixes x :: u8
  shows "x AND 1 = 0 \<longleftrightarrow> \<not> bit x 0" and "x AND 2 = 0 \<longleftrightarrow> \<not> bit x 1"
    and "x AND 4 = 0 \<longleftrightarrow> \<not> bit x 2" and "x AND 8 = 0 \<longleftrightarrow> \<not> bit x 3"
    and "x AND 16 = 0 \<longleftrightarrow> \<not> bit x 4" and "x AND 32 = 0 \<longleftrightarrow> \<not> bit x 5"
    and "x AND 64 = 0 \<longleftrightarrow> \<not> bit x 6" and "x AND 128 = 0 \<longleftrightarrow> \<not> bit x 7"
  using and_exp_eq_0_iff_not_bit [of x 0] and_exp_eq_0_iff_not_bit [of x 1]
    and_exp_eq_0_iff_not_bit [of x 2] and_exp_eq_0_iff_not_bit [of x 3]
    and_exp_eq_0_iff_not_bit [of x 4] and_exp_eq_0_iff_not_bit [of x 5]
    and_exp_eq_0_iff_not_bit [of x 6] and_exp_eq_0_iff_not_bit [of x 7]
  by simp_all

text \<open>Bounded octets have no high bits.\<close>

lemma word_lt_bits:
  fixes x :: "'a::len word"
  assumes "x < 2 ^ k" and "k \<le> n"
  shows "\<not> bit x n"
proof
  assume b: "bit x n"
  then have n: "n < LENGTH('a)" by (rule bit_imp_le_length)
  with assms have "uint x < 2 ^ k"
    using word_2p_lem [of k x] by (simp add: word_size)
  then have "take_bit k (uint x) = uint x" by (simp add: take_bit_int_eq_self_iff)
  moreover have "bit (uint x) n" using b n by (simp add: bit_uint_iff)
  ultimately show False using assms(2) by (metis bit_take_bit_iff not_le)
qed

lemma word_lt_bit_index: "x < 2 ^ k \<Longrightarrow> bit x n \<Longrightarrow> n < k" for x :: "'a::len word"
  using word_lt_bits [of x k n] by (cases "k \<le> n") auto

lemma word_ltI:
  fixes x :: "'a::len word"
  assumes "\<And>n. bit x n \<Longrightarrow> n < k" and "k < LENGTH('a)"
  shows "x < 2 ^ k"
proof -
  have "take_bit k (uint x) = uint x"
    by (rule bit_eqI) (use assms(1) in \<open>auto simp: bit_simps\<close>)
  then have "uint x < 2 ^ k" by (metis take_bit_int_less_exp)
  then show ?thesis using assms(2) by (simp add: word_2p_lem word_size)
qed

lemma octet_bound:
  fixes x :: u8
  shows "x < 4 \<Longrightarrow> \<not> bit x 2 \<and> \<not> bit x 3 \<and> \<not> bit x 4 \<and> \<not> bit x 5 \<and> \<not> bit x 6 \<and> \<not> bit x 7"
    and "x < 8 \<Longrightarrow> \<not> bit x 3 \<and> \<not> bit x 4 \<and> \<not> bit x 5 \<and> \<not> bit x 6 \<and> \<not> bit x 7"
    and "x < 16 \<Longrightarrow> \<not> bit x 4 \<and> \<not> bit x 5 \<and> \<not> bit x 6 \<and> \<not> bit x 7"
    and "x < 32 \<Longrightarrow> \<not> bit x 5 \<and> \<not> bit x 6 \<and> \<not> bit x 7"
    and "x < 64 \<Longrightarrow> \<not> bit x 6 \<and> \<not> bit x 7"
    and "x < 128 \<Longrightarrow> \<not> bit x 7"
  using word_lt_bits [of x 2] word_lt_bits [of x 3] word_lt_bits [of x 4] word_lt_bits [of x 5]
    word_lt_bits [of x 6] word_lt_bits [of x 7] by simp_all

lemma octet_mask_lt:
  fixes x :: u8
  shows "x AND 3 < 4" and "x AND 7 < 8" and "x AND 15 < 16" and "x AND 31 < 32" and "x AND 63 < 64"
    and "x AND 127 < 128"
  by (rule le_less_trans [OF word_and_le1], simp)+

section \<open>The external crate \<^verbatim>\<open>bytes\<close>\<close>

text \<open>
  One field per \<^verbatim>\<open>Buf\<close>/\<^verbatim>\<open>BufMut\<close> method the sources call.  The writers return the buffer
  with the new octets; the readers return the value read and what is left, and may panic.
\<close>

record bytes_api =
  put_u8 :: "octets \<Rightarrow> u8 \<Rightarrow> octets"
  put_u16_le :: "octets \<Rightarrow> u16 \<Rightarrow> octets"
  put_i16_le :: "octets \<Rightarrow> i16 \<Rightarrow> octets"
  put_i32_le :: "octets \<Rightarrow> i32 \<Rightarrow> octets"
  put_f32_le :: "octets \<Rightarrow> f32 \<Rightarrow> octets"
  put_slice :: "octets \<Rightarrow> octets \<Rightarrow> octets"
  remaining_mut :: "octets \<Rightarrow> nat"
  remaining :: "octets \<Rightarrow> nat"
  get_u8 :: "octets \<Rightarrow> (u8 \<times> octets) outcome"
  get_u16_le :: "octets \<Rightarrow> (u16 \<times> octets) outcome"
  get_i16_le :: "octets \<Rightarrow> (i16 \<times> octets) outcome"
  get_i32_le :: "octets \<Rightarrow> (i32 \<times> octets) outcome"
  get_f32_le :: "octets \<Rightarrow> (f32 \<times> octets) outcome"
  copy_to_slice :: "octets \<Rightarrow> nat \<Rightarrow> (octets \<times> octets) outcome"
  advance :: "octets \<Rightarrow> nat \<Rightarrow> octets outcome"

text \<open>
  The documented behaviour the codecs rely on: writers append (the sinks used are the growable
  \<^verbatim>\<open>Vec<u8>\<close> and \<^verbatim>\<open>BytesMut\<close>), multi-octet integers are little-endian, readers consume from the
  front and panic when too few octets remain.
\<close>

locale bytes_crate =
  fixes bo :: bytes_api
  assumes put_u8: "put_u8 bo buf x = buf @ [x]"
    and put_u16_le: "put_u16_le bo buf w = buf @ u16_to_le_bytes w"
    and put_i16_le: "put_i16_le bo buf w = buf @ u16_to_le_bytes w"
    and put_i32_le: "put_i32_le bo buf v = buf @ u32_to_le_bytes v"
    and put_f32_le: "put_f32_le bo buf v = buf @ u32_to_le_bytes v"
    and put_slice: "put_slice bo buf xs = buf @ xs"
    and remaining_mut: "length xs \<le> remaining_mut bo buf \<Longrightarrow>
      remaining_mut bo (buf @ xs) = remaining_mut bo buf - length xs"
    and remaining: "remaining bo buf = length buf"
    and get_u8: "get_u8 bo (a # buf) = Ok (a, buf)"
    and get_u8_panic: "get_u8 bo [] = Panic"
    and get_u16_le: "get_u16_le bo (a # b # buf) = Ok (u16_from_le_bytes a b, buf)"
    and get_u16_le_panic: "length buf < 2 \<Longrightarrow> get_u16_le bo buf = Panic"
    and get_i16_le: "get_i16_le bo (a # b # buf) = Ok (u16_from_le_bytes a b, buf)"
    and get_i16_le_panic: "length buf < 2 \<Longrightarrow> get_i16_le bo buf = Panic"
    and get_i32_le: "get_i32_le bo (a # b # c # d # buf) = Ok (u32_from_le_bytes a b c d, buf)"
    and get_i32_le_panic: "length buf < 4 \<Longrightarrow> get_i32_le bo buf = Panic"
    and get_f32_le: "get_f32_le bo (a # b # c # d # buf) = Ok (u32_from_le_bytes a b c d, buf)"
    and get_f32_le_panic: "length buf < 4 \<Longrightarrow> get_f32_le bo buf = Panic"
    and copy_to_slice: "n \<le> length buf \<Longrightarrow> copy_to_slice bo buf n = Ok (take n buf, drop n buf)"
    and copy_to_slice_panic: "length buf < n \<Longrightarrow> copy_to_slice bo buf n = Panic"
    and advance: "n \<le> length buf \<Longrightarrow> advance bo buf n = Ok (drop n buf)"
    and advance_panic: "length buf < n \<Longrightarrow> advance bo buf n = Panic"
begin

lemmas put_simps = put_u8 put_u16_le put_i16_le put_i32_le put_f32_le put_slice
lemmas get_simps = remaining get_u8 get_u16_le get_i16_le get_i32_le get_f32_le copy_to_slice
lemmas panic_simps = get_u8_panic get_u16_le_panic get_i16_le_panic get_i32_le_panic
  get_f32_le_panic copy_to_slice_panic

end

text \<open>The guard every decoder starts with (one private copy per module in the sources).\<close>

definition ensure :: "bytes_api \<Rightarrow> octets \<Rightarrow> nat \<Rightarrow> unit outcome" where
  "ensure bo buf n =
     (if remaining bo buf < n then Err (Incomplete n (remaining bo buf)) else Ok ())"

section \<open>The contract of a fixed-width wire element\<close>

text \<open>
  \<open>enc\<close> appends the element to a buffer, \<open>dec\<close> reads it from the front of one, \<open>len\<close> is its
  \<^verbatim>\<open>LEN\<close> constant and \<open>wf\<close> the values the wire can carry exactly (wider values are truncated by
  the encoder).  Every input of at least \<open>len\<close> octets decodes, to a well-formed value, consuming
  exactly \<open>len\<close>; a shorter one is \<^verbatim>\<open>Incomplete\<close>: no input makes a decoder panic.
\<close>

locale codec =
  fixes enc :: "'a \<Rightarrow> octets \<Rightarrow> octets"
    and dec :: "octets \<Rightarrow> ('a \<times> octets) outcome"
    and len :: nat
    and wf :: "'a \<Rightarrow> bool"
  assumes enc_append: "enc x buf = buf @ enc x []"
    and enc_length: "length (enc x []) = len"
    and dec_enc: "wf x \<Longrightarrow> dec (enc x [] @ rest) = Ok (x, rest)"
    and dec_long: "len \<le> length buf \<Longrightarrow> \<exists>x. wf x \<and> dec buf = Ok (x, drop len buf)"
    and dec_short: "length buf < len \<Longrightarrow> \<exists>n h. dec buf = Err (Incomplete n h)"
begin

definition wire :: "'a \<Rightarrow> octets" where
  "wire x = enc x []"

lemma enc_wire: "enc x buf = buf @ wire x"
  unfolding wire_def by (rule enc_append)

lemma wire_length: "length (wire x) = len"
  by (simp add: wire_def enc_length)

lemma dec_wire: "wf x \<Longrightarrow> dec (wire x @ rest) = Ok (x, rest)"
  unfolding wire_def by (rule dec_enc)

lemma dec_wire_all: "wf x \<Longrightarrow> dec (wire x) = Ok (x, [])"
  using dec_wire [of x "[]"] by simp

lemma dec_not_panic: "dec buf \<noteq> Panic"
  using dec_long [of buf] dec_short [of buf] by (cases "len \<le> length buf") auto

lemma dec_Ok_wf: "dec buf = Ok (x, rest) \<Longrightarrow> wf x \<and> rest = drop len buf \<and> len \<le> length buf"
  using dec_long [of buf] dec_short [of buf] by (cases "len \<le> length buf") auto

lemma dec_Err: "dec buf = Err e \<Longrightarrow> (\<exists>n h. e = Incomplete n h) \<and> length buf < len"
  using dec_long [of buf] dec_short [of buf] by (cases "len \<le> length buf") auto

text \<open>Encoding is injective on the values the wire carries.\<close>

lemma enc_inj: "wf x \<Longrightarrow> wf y \<Longrightarrow> wire x = wire y \<Longrightarrow> x = y"
  using dec_wire_all [of x] dec_wire_all [of y] by (metis outcome.inject(2) prod.inject)

text \<open>Decoding normalises: whatever was read is read back unchanged after re-encoding.\<close>

lemma dec_enc_dec: "dec buf = Ok (x, rest) \<Longrightarrow> dec (wire x @ rest2) = Ok (x, rest2)"
  by (auto dest!: dec_Ok_wf intro: dec_wire)

end

text \<open>Elements with no reserved bits: what was read is written back octet for octet.\<close>

locale exact_codec = codec +
  assumes enc_dec: "dec buf = Ok (x, rest) \<Longrightarrow> enc x [] @ rest = buf"
begin

lemma wire_dec: "dec buf = Ok (x, rest) \<Longrightarrow> buf = wire x @ rest"
  by (simp add: wire_def enc_dec)

end

text \<open>Elements laid out one after the other.\<close>

lemma codec_pair:
  assumes "codec e1 d1 n1 w1" and "codec e2 d2 n2 w2"
  shows "codec (\<lambda>(x, y) buf. e2 y (e1 x buf))
    (\<lambda>buf. and_then (d1 buf) (\<lambda>(x, buf). and_then (d2 buf) (\<lambda>(y, buf). Ok ((x, y), buf))))
    (n1 + n2) (\<lambda>(x, y). w1 x \<and> w2 y)"
proof -
  note c1 = assms(1) and c2 = assms(2)
  note w = codec.enc_wire [OF c1] codec.enc_wire [OF c2]
  show ?thesis
  proof (unfold_locales, goal_cases)
    case (1 p buf) show ?case by (cases p) (simp add: w)
  next
    case (2 p) show ?case
      by (cases p) (simp add: w codec.wire_length [OF c1] codec.wire_length [OF c2])
  next
    case (3 p rest) then show ?case
      by (cases p) (simp add: w codec.dec_wire [OF c1] codec.dec_wire [OF c2])
  next
    case (4 buf)
    then obtain x where x: "w1 x" "d1 buf = Ok (x, drop n1 buf)"
      using codec.dec_long [OF c1, of buf] by auto
    moreover from 4 have "n2 \<le> length (drop n1 buf)" by simp
    then obtain y where "w2 y" "d2 (drop n1 buf) = Ok (y, drop n2 (drop n1 buf))"
      using codec.dec_long [OF c2] by blast
    ultimately show ?case by (auto simp: add.commute)
  next
    case (5 buf)
    show ?case
    proof (cases "n1 \<le> length buf")
      case True
      then obtain x where "d1 buf = Ok (x, drop n1 buf)"
        using codec.dec_long [OF c1, of buf] by auto
      moreover from 5 True have "length (drop n1 buf) < n2" by simp
      then obtain n h where "d2 (drop n1 buf) = Err (Incomplete n h)"
        using codec.dec_short [OF c2] by blast
      ultimately show ?thesis by auto
    next
      case False
      then show ?thesis using codec.dec_short [OF c1, of buf] by auto
    qed
  qed
qed

lemma codec_triple:
  assumes "codec e1 d1 n1 w1" and "codec e2 d2 n2 w2" and "codec e3 d3 n3 w3"
  shows "codec (\<lambda>(x, y, z) buf. e3 z (e2 y (e1 x buf)))
    (\<lambda>buf. and_then (d1 buf) (\<lambda>(x, buf). and_then (d2 buf) (\<lambda>(y, buf).
       and_then (d3 buf) (\<lambda>(z, buf). Ok ((x, y, z), buf)))))
    (n1 + n2 + n3) (\<lambda>(x, y, z). w1 x \<and> w2 y \<and> w3 z)"
proof -
  have *: "codec e d n w \<Longrightarrow> e = e' \<Longrightarrow> d = d' \<Longrightarrow> n = n' \<Longrightarrow> w = w' \<Longrightarrow> codec e' d' n' w'"
    for e e' :: "'a \<times> 'b \<times> 'c \<Rightarrow> octets \<Rightarrow> octets" and d d' n n' w w' by simp
  show ?thesis
  proof (rule * [OF codec_pair [OF assms(1) codec_pair [OF assms(2,3)]]])
    show "(\<lambda>buf. and_then (d1 buf) (\<lambda>(x, buf).
          and_then (and_then (d2 buf) (\<lambda>(x, buf). and_then (d3 buf) (\<lambda>(y, buf). Ok ((x, y), buf))))
           (\<lambda>(y, buf). Ok ((x, y), buf)))) =
        (\<lambda>buf. and_then (d1 buf) (\<lambda>(x, buf). and_then (d2 buf) (\<lambda>(y, buf).
          and_then (d3 buf) (\<lambda>(z, buf). Ok ((x, y, z), buf)))))"
      by (rule ext) (auto simp: and_then_assoc split_def)
  qed (auto simp: fun_eq_iff)
qed

text \<open>The same codec under other names, and on a record with the tuple's components.\<close>

lemma codec_cong:
  assumes "codec e d n ok" and "\<And>x buf. e' x buf = e x buf" and "\<And>buf. d' buf = d buf"
    and "n' = n" and "\<And>x. ok' x = ok x"
  shows "codec e' d' n' ok'"
proof -
  from assms(2-5) have "e' = e" "d' = d" "n' = n" "ok' = ok" by auto
  with assms(1) show ?thesis by simp
qed

lemma codec_iso:
  assumes c: "codec e d n ok" and gf: "\<And>x. g (f x) = x" and fg: "\<And>y. f (g y) = y"
    and e: "\<And>x buf. e' x buf = e (f x) buf"
    and d: "\<And>buf. d' buf = and_then (d buf) (\<lambda>(y, buf). Ok (g y, buf))"
    and ok: "\<And>x. ok' x = ok (f x)"
  shows "codec e' d' n ok'"
proof (unfold_locales, goal_cases)
  case (1 x buf) show ?case unfolding e by (rule codec.enc_append [OF c])
next
  case (2 x) show ?case unfolding e by (rule codec.enc_length [OF c])
next
  case (3 x rest) then show ?case using codec.dec_enc [OF c, of "f x" rest] by (simp add: e d ok gf)
next
  case (4 buf) then show ?case using codec.dec_long [OF c, of buf] by (auto simp: d ok fg)
next
  case (5 buf) then show ?case using codec.dec_short [OF c, of buf] by (auto simp: d)
qed

text \<open>A guard for the whole length in front changes nothing but the error.\<close>

context bytes_crate
begin

lemma ensure_Ok_iff: "ensure bo buf n = Ok u \<longleftrightarrow> n \<le> length buf"
  by (simp add: ensure_def remaining not_less)

lemma ensure_not_Panic [simp]: "ensure bo buf n \<noteq> Panic"
  by (simp add: ensure_def)

lemma guarded_codec:
  assumes c: "codec e d n ok" and d': "\<And>buf. d' buf = and_then (ensure bo buf n) (\<lambda>_. d buf)"
  shows "codec e d' n ok"
proof (unfold_locales, goal_cases)
  case (1 x buf) show ?case by (rule codec.enc_append [OF c])
next
  case (2 x) show ?case by (rule codec.enc_length [OF c])
next
  case (3 x rest) then show ?case
    using codec.dec_enc [OF c] codec.enc_length [OF c, of x] by (simp add: d' ensure_def remaining)
next
  case (4 buf) then show ?case using codec.dec_long [OF c, of buf] by (simp add: d' ensure_def remaining)
next
  case (5 buf) then show ?case by (simp add: d' ensure_def remaining)
qed

end

section \<open>The buffers the sources use: \<^verbatim>\<open>Vec<u8>\<close> and \<^verbatim>\<open>&[u8]\<close>\<close>

definition slice_api :: bytes_api where
  "slice_api = \<lparr>
     put_u8 = (\<lambda>buf x. buf @ [x]),
     put_u16_le = (\<lambda>buf w. buf @ u16_to_le_bytes w),
     put_i16_le = (\<lambda>buf w. buf @ u16_to_le_bytes w),
     put_i32_le = (\<lambda>buf v. buf @ u32_to_le_bytes v),
     put_f32_le = (\<lambda>buf v. buf @ u32_to_le_bytes v),
     put_slice = (\<lambda>buf xs. buf @ xs),
     remaining_mut = (\<lambda>buf. 2 ^ 63 - 1 - length buf),
     remaining = length,
     get_u8 = (\<lambda>buf. case buf of [] \<Rightarrow> Panic | a # r \<Rightarrow> Ok (a, r)),
     get_u16_le = (\<lambda>buf. case buf of a # b # r \<Rightarrow> Ok (u16_from_le_bytes a b, r) | _ \<Rightarrow> Panic),
     get_i16_le = (\<lambda>buf. case buf of a # b # r \<Rightarrow> Ok (u16_from_le_bytes a b, r) | _ \<Rightarrow> Panic),
     get_i32_le = (\<lambda>buf. case buf of a # b # c # d # r \<Rightarrow> Ok (u32_from_le_bytes a b c d, r) | _ \<Rightarrow> Panic),
     get_f32_le = (\<lambda>buf. case buf of a # b # c # d # r \<Rightarrow> Ok (u32_from_le_bytes a b c d, r) | _ \<Rightarrow> Panic),
     copy_to_slice = (\<lambda>buf n. if n \<le> length buf then Ok (take n buf, drop n buf) else Panic),
     advance = (\<lambda>buf n. if n \<le> length buf then Ok (drop n buf) else Panic) \<rparr>"

lemma slice_api_laws: "bytes_crate slice_api"
  by unfold_locales (auto simp: slice_api_def split: list.split)

interpretation slice: bytes_crate slice_api
  by (rule slice_api_laws)

end
