(* ===== verification/Ie_Elements.thy ===== *)
theory Ie_Elements
  imports Iec_Prelude
begin

text \<open>
  Information elements, \<^verbatim>\<open>crates/iec60870-proto/src/asdu/ie.rs\<close>: quality flags, single and
  double points, quality descriptor, normalized/scaled/float values, counter reading and the two
  time tags.  Each \<^verbatim>\<open>struct\<close> is a record (a newtype is a one-constructor datatype); \<open>X_encode\<close> and
  \<open>X_decode\<close> are its methods; \<open>X_wf\<close> is the set of values its bit fields can carry.  Every element
  is shown to satisfy the contract \<open>codec\<close> for any \<^verbatim>\<open>bytes\<close> implementation that obeys its
  documentation (the \<open>sublocale\<close> declarations).  Floating-point arithmetic (\<^verbatim>\<open>Nva::as_f32\<close>,
  \<^verbatim>\<open>Nva::from_f32\<close>) is not modelled; floats are carried as their bit patterns.
\<close>

section \<open>Element codecs from their octets\<close>

context bytes_crate
begin

lemma octet_codecI:
  assumes "\<And>buf. d buf = and_then (ensure bo buf n) (\<lambda>_. and_then (get_u8 bo buf) (\<lambda>(b, buf). Ok (g b, buf)))"
    and "n = 1"
    and "\<And>b. ok (g b)"
    and "\<And>x. \<exists>b. (\<forall>buf. e x buf = buf @ [b]) \<and> (ok x \<longrightarrow> g b = x)"
  shows "codec e d n ok"
proof -
  from assms(4) obtain f where f: "\<And>x buf. e x buf = buf @ [f x]" and g: "\<And>x. ok x \<Longrightarrow> g (f x) = x"
    by metis
  show ?thesis
  proof (unfold_locales, goal_cases)
    case (4 buf)
    then show ?case using assms(1-3) by (cases buf) (auto simp: ensure_def get_simps)
  qed (auto simp: assms(1,2) f g ensure_def get_simps)
qed

lemma fixed_codecI:
  assumes "\<And>buf. d buf = and_then (ensure bo buf n) (\<lambda>_. r buf)"
    and "\<And>bs. length bs = n \<Longrightarrow> \<exists>x. ok x \<and> (\<forall>rest. r (bs @ rest) = Ok (x, rest))"
    and "\<And>x. \<exists>bs. length bs = n \<and> (\<forall>buf. e x buf = buf @ bs) \<and> (ok x \<longrightarrow> r bs = Ok (x, []))"
  shows "codec e d n ok"
proof -
  from assms(3) obtain f where f: "\<And>x. length (f x) = n" "\<And>x buf. e x buf = buf @ f x"
    and g: "\<And>x. ok x \<Longrightarrow> r (f x) = Ok (x, [])"
    by metis
  show ?thesis
  proof (unfold_locales, goal_cases)
    case (3 x rest)
    with assms(2) [of "f x"] g [of x] have "r (f x @ rest) = Ok (x, rest)"
      by (metis append_Nil2 f(1) outcome.inject(2) prod.inject)
    then show ?case by (simp add: assms(1) f ensure_def get_simps)
  next
    case (4 buf)
    then obtain x where "ok x" "r (take n buf @ drop n buf) = Ok (x, drop n buf)"
      using assms(2) [of "take n buf"] by (metis length_take min.absorb2)
    with 4 show ?case using assms(1) by (auto simp: ensure_def get_simps)
  qed (auto simp: assms(1) f ensure_def get_simps)
qed

end

lemma length_Suc_bytes:
  "length xs = 2 \<Longrightarrow> \<exists>a b. xs = [a, b]"
  "length xs = 3 \<Longrightarrow> \<exists>a b c. xs = [a, b, c]"
  "length xs = 4 \<Longrightarrow> \<exists>a b c d. xs = [a, b, c, d]"
  "length xs = 5 \<Longrightarrow> \<exists>a b c d e. xs = [a, b, c, d, e]"
  "length xs = 7 \<Longrightarrow> \<exists>a b c d e f g. xs = [a, b, c, d, e, f, g]"
  by (simp_all add: numeral_eq_Suc length_Suc_conv) blast+

section \<open>Quality bits\<close>

record Quality =
  blocked :: bool
  substituted :: bool
  not_topical :: bool
  quality_invalid :: bool

definition Quality_BL :: u8 where "Quality_BL = 0x10"
definition Quality_SB :: u8 where "Quality_SB = 0x20"
definition Quality_NT :: u8 where "Quality_NT = 0x40"
definition Quality_IV :: u8 where "Quality_IV = 0x80"

definition Quality_to_bits :: "Quality \<Rightarrow> u8" where
  "Quality_to_bits self =
     (let b = 0;
          b = (if blocked self then b OR Quality_BL else b);
          b = (if substituted self then b OR Quality_SB else b);
          b = (if not_topical self then b OR Quality_NT else b);
          b = (if quality_invalid self then b OR Quality_IV else b)
      in b)"

definition Quality_from_bits :: "u8 \<Rightarrow> Quality" where
  "Quality_from_bits b =
     \<lparr> blocked = (b AND Quality_BL \<noteq> 0),
       substituted = (b AND Quality_SB \<noteq> 0),
       not_topical = (b AND Quality_NT \<noteq> 0),
       quality_invalid = (b AND Quality_IV \<noteq> 0) \<rparr>"

lemmas quality_defs [codec_defs] = Quality_BL_def Quality_SB_def Quality_NT_def Quality_IV_def
  Quality_to_bits_def Quality_from_bits_def

section \<open>SIQ\<close>

record Siq =
  siq_on :: bool
  siq_quality :: Quality

definition Siq_LEN :: nat where "Siq_LEN = 1"

definition Siq_encode :: "bytes_api \<Rightarrow> Siq \<Rightarrow> octets \<Rightarrow> octets" where
  "Siq_encode bo self buf =
     (let b = Quality_to_bits (siq_quality self);
          b = (if siq_on self then b OR 0x01 else b)
      in put_u8 bo buf b)"

definition Siq_decode :: "bytes_api \<Rightarrow> octets \<Rightarrow> (Siq \<times> octets) outcome" where
  "Siq_decode bo buf =
     and_then (ensure bo buf Siq_LEN) (\<lambda>_.
     and_then (get_u8 bo buf) (\<lambda>(b, buf).
       Ok (\<lparr> siq_on = (b AND 0x01 \<noteq> 0), siq_quality = Quality_from_bits b \<rparr>, buf)))"

sublocale bytes_crate \<subseteq> siq: codec "Siq_encode bo" "Siq_decode bo" Siq_LEN "\<lambda>_. True"
proof (rule octet_codecI [OF Siq_decode_def], goal_cases)
  case (3 x)
  show ?case
    by (cases x; cases "siq_quality x") (simp add: Siq_encode_def put_simps codec_defs flag_simps bit_simps)
qed (simp_all add: Siq_LEN_def)

section \<open>DIQ\<close>

datatype DoublePoint = Intermediate | Off | On | Indeterminate

definition DoublePoint_to_bits :: "DoublePoint \<Rightarrow> u8" where
  "DoublePoint_to_bits self =
     (case self of Intermediate \<Rightarrow> 0b00 | Off \<Rightarrow> 0b01 | On \<Rightarrow> 0b10 | Indeterminate \<Rightarrow> 0b11)"

definition DoublePoint_from_bits :: "u8 \<Rightarrow> DoublePoint" where
  "DoublePoint_from_bits b =
     (if b AND 0b11 = 0b00 then Intermediate
      else if b AND 0b11 = 0b01 then Off
      else if b AND 0b11 = 0b10 then On
      else Indeterminate)"

record Diq =
  diq_state :: DoublePoint
  diq_quality :: Quality

definition Diq_LEN :: nat where "Diq_LEN = 1"

definition Diq_encode :: "bytes_api \<Rightarrow> Diq \<Rightarrow> octets \<Rightarrow> octets" where
  "Diq_encode bo self buf =
     put_u8 bo buf (Quality_to_bits (diq_quality self) OR DoublePoint_to_bits (diq_state self))"

definition Diq_decode :: "bytes_api \<Rightarrow> octets \<Rightarrow> (Diq \<times> octets) outcome" where
  "Diq_decode bo buf =
     and_then (ensure bo buf Diq_LEN) (\<lambda>_.
     and_then (get_u8 bo buf) (\<lambda>(b, buf).
       Ok (\<lparr> diq_state = DoublePoint_from_bits b, diq_quality = Quality_from_bits b \<rparr>, buf)))"

sublocale bytes_crate \<subseteq> diq: codec "Diq_encode bo" "Diq_decode bo" Diq_LEN "\<lambda>_. True"
proof (rule octet_codecI [OF Diq_decode_def], goal_cases)
  case (3 x)
  show ?case
    by (cases x; cases "diq_quality x"; cases "diq_state x")
      (simp_all add: Diq_encode_def put_simps codec_defs flag_simps bit_simps
        DoublePoint_to_bits_def DoublePoint_from_bits_def)
qed (simp_all add: Diq_LEN_def)

section \<open>QDS\<close>

record Qds =
  qds_overflow :: bool
  qds_quality :: Quality

definition Qds_LEN :: nat where "Qds_LEN = 1"
definition Qds_OV :: u8 where "Qds_OV = 0x01"

definition Qds_encode :: "bytes_api \<Rightarrow> Qds \<Rightarrow> octets \<Rightarrow> octets" where
  "Qds_encode bo self buf =
     (let b = Quality_to_bits (qds_quality self);
          b = (if qds_overflow self then b OR Qds_OV else b)
      in put_u8 bo buf b)"

definition Qds_decode :: "bytes_api \<Rightarrow> octets \<Rightarrow> (Qds \<times> octets) outcome" where
  "Qds_decode bo buf =
     and_then (ensure bo buf Qds_LEN) (\<lambda>_.
     and_then (get_u8 bo buf) (\<lambda>(b, buf).
       Ok (\<lparr> qds_overflow = (b AND Qds_OV \<noteq> 0), qds_quality = Quality_from_bits b \<rparr>, buf)))"

sublocale bytes_crate \<subseteq> qds: codec "Qds_encode bo" "Qds_decode bo" Qds_LEN "\<lambda>_. True"
proof (rule octet_codecI [OF Qds_decode_def], goal_cases)
  case (3 x)
  show ?case
    by (cases x; cases "qds_quality x")
      (simp add: Qds_encode_def Qds_OV_def put_simps codec_defs flag_simps bit_simps)
qed (simp_all add: Qds_LEN_def)

section \<open>NVA, SVA, R32\<close>

datatype Nva = Nva i16
datatype Sva = Sva i16
datatype R32 = R32 f32

definition Nva_LEN :: nat where "Nva_LEN = 2"
definition Sva_LEN :: nat where "Sva_LEN = 2"
definition R32_LEN :: nat where "R32_LEN = 4"

definition Nva_encode :: "bytes_api \<Rightarrow> Nva \<Rightarrow> octets \<Rightarrow> octets" where
  "Nva_encode bo self buf = (case self of Nva v \<Rightarrow> put_i16_le bo buf v)"

definition Nva_decode :: "bytes_api \<Rightarrow> octets \<Rightarrow> (Nva \<times> octets) outcome" where
  "Nva_decode bo buf =
     and_then (ensure bo buf Nva_LEN) (\<lambda>_.
     and_then (get_i16_le bo buf) (\<lambda>(v, buf). Ok (Nva v, buf)))"

definition Sva_encode :: "bytes_api \<Rightarrow> Sva \<Rightarrow> octets \<Rightarrow> octets" where
  "Sva_encode bo self buf = (case self of Sva v \<Rightarrow> put_i16_le bo buf v)"

definition Sva_decode :: "bytes_api \<Rightarrow> octets \<Rightarrow> (Sva \<times> octets) outcome" where
  "Sva_decode bo buf =
     and_then (ensure bo buf Sva_LEN) (\<lambda>_.
     and_then (get_i16_le bo buf) (\<lambda>(v, buf). Ok (Sva v, buf)))"

definition R32_encode :: "bytes_api \<Rightarrow> R32 \<Rightarrow> octets \<Rightarrow> octets" where
  "R32_encode bo self buf = (case self of R32 v \<Rightarrow> put_f32_le bo buf v)"

definition R32_decode :: "bytes_api \<Rightarrow> octets \<Rightarrow> (R32 \<times> octets) outcome" where
  "R32_decode bo buf =
     and_then (ensure bo buf R32_LEN) (\<lambda>_.
     and_then (get_f32_le bo buf) (\<lambda>(v, buf). Ok (R32 v, buf)))"

lemmas value_defs = Nva_encode_def Sva_encode_def R32_encode_def Nva_LEN_def Sva_LEN_def R32_LEN_def
  u16_to_le_bytes_def u32_to_le_bytes_def

sublocale bytes_crate \<subseteq> nva: codec "Nva_encode bo" "Nva_decode bo" Nva_LEN "\<lambda>_. True"
proof (rule fixed_codecI [OF Nva_decode_def], goal_cases)
  case (2 x) show ?case by (cases x) (simp add: value_defs put_simps get_simps bytes_simps)
qed (auto simp: value_defs get_simps dest!: length_Suc_bytes)

sublocale bytes_crate \<subseteq> sva: codec "Sva_encode bo" "Sva_decode bo" Sva_LEN "\<lambda>_. True"
proof (rule fixed_codecI [OF Sva_decode_def], goal_cases)
  case (2 x) show ?case by (cases x) (simp add: value_defs put_simps get_simps bytes_simps)
qed (auto simp: value_defs get_simps dest!: length_Suc_bytes)

sublocale bytes_crate \<subseteq> r32: codec "R32_encode bo" "R32_decode bo" R32_LEN "\<lambda>_. True"
proof (rule fixed_codecI [OF R32_decode_def], goal_cases)
  case (2 x) show ?case by (cases x) (simp add: value_defs put_simps get_simps bytes_simps)
qed (auto simp: value_defs get_simps dest!: length_Suc_bytes)

section \<open>BCR\<close>

record Bcr =
  bcr_value :: i32
  bcr_sequence :: u8
  bcr_carry :: bool
  bcr_adjusted :: bool
  bcr_invalid :: bool

definition Bcr_LEN :: nat where "Bcr_LEN = 5"
definition Bcr_CY :: u8 where "Bcr_CY = 0x20"
definition Bcr_CA :: u8 where "Bcr_CA = 0x40"
definition Bcr_IV :: u8 where "Bcr_IV = 0x80"
definition Bcr_SQ_MASK :: u8 where "Bcr_SQ_MASK = 0x1F"

definition Bcr_encode :: "bytes_api \<Rightarrow> Bcr \<Rightarrow> octets \<Rightarrow> octets" where
  "Bcr_encode bo self buf =
     (let buf = put_i32_le bo buf (bcr_value self);
          q = bcr_sequence self AND Bcr_SQ_MASK;
          q = (if bcr_carry self then q OR Bcr_CY else q);
          q = (if bcr_adjusted self then q OR Bcr_CA else q);
          q = (if bcr_invalid self then q OR Bcr_IV else q)
      in put_u8 bo buf q)"

definition Bcr_decode :: "bytes_api \<Rightarrow> octets \<Rightarrow> (Bcr \<times> octets) outcome" where
  "Bcr_decode bo buf =
     and_then (ensure bo buf Bcr_LEN) (\<lambda>_.
     and_then (get_i32_le bo buf) (\<lambda>(v, buf).
     and_then (get_u8 bo buf) (\<lambda>(q, buf).
       Ok (\<lparr> bcr_value = v,
             bcr_sequence = q AND Bcr_SQ_MASK,
             bcr_carry = (q AND Bcr_CY \<noteq> 0),
             bcr_adjusted = (q AND Bcr_CA \<noteq> 0),
             bcr_invalid = (q AND Bcr_IV \<noteq> 0) \<rparr>, buf))))"

definition Bcr_wf :: "Bcr \<Rightarrow> bool" where
  "Bcr_wf x \<longleftrightarrow> bcr_sequence x < 32"

lemmas bcr_defs = Bcr_LEN_def Bcr_CY_def Bcr_CA_def Bcr_IV_def Bcr_SQ_MASK_def Bcr_wf_def

sublocale bytes_crate \<subseteq> bcr: codec "Bcr_encode bo" "Bcr_decode bo" Bcr_LEN Bcr_wf
proof (rule fixed_codecI [OF Bcr_decode_def], goal_cases)
  case (1 bs)
  then show ?case
    by (auto simp: bcr_defs get_simps octet_mask_lt dest!: length_Suc_bytes)
next
  case (2 x)
  show ?case
    by (cases x) (auto simp: Bcr_encode_def bcr_defs u32_to_le_bytes_def put_simps get_simps bytes_simps
      Let_def flag_simps bit_simps dest!: octet_bound(4) intro!: octet_eqI)
qed

section \<open>CP24Time2a\<close>

record Cp24Time2a =
  cp24_milliseconds :: u16
  cp24_minute :: u8
  cp24_invalid :: bool

definition Cp24Time2a_LEN :: nat where "Cp24Time2a_LEN = 3"

definition Cp24Time2a_encode :: "bytes_api \<Rightarrow> Cp24Time2a \<Rightarrow> octets \<Rightarrow> octets" where
  "Cp24Time2a_encode bo self buf =
     (let buf = put_u16_le bo buf (cp24_milliseconds self);
          b = cp24_minute self AND 0x3F;
          b = (if cp24_invalid self then b OR 0x80 else b)
      in put_u8 bo buf b)"

definition Cp24Time2a_decode :: "bytes_api \<Rightarrow> octets \<Rightarrow> (Cp24Time2a \<times> octets) outcome" where
  "Cp24Time2a_decode bo buf =
     and_then (ensure bo buf Cp24Time2a_LEN) (\<lambda>_.
     and_then (get_u16_le bo buf) (\<lambda>(ms, buf).
     and_then (get_u8 bo buf) (\<lambda>(b, buf).
       Ok (\<lparr> cp24_milliseconds = ms,
             cp24_minute = b AND 0x3F,
             cp24_invalid = (b AND 0x80 \<noteq> 0) \<rparr>, buf))))"

definition Cp24Time2a_wf :: "Cp24Time2a \<Rightarrow> bool" where
  "Cp24Time2a_wf x \<longleftrightarrow> cp24_minute x < 64"

sublocale bytes_crate \<subseteq> cp24: codec "Cp24Time2a_encode bo" "Cp24Time2a_decode bo" Cp24Time2a_LEN Cp24Time2a_wf
proof (rule fixed_codecI [OF Cp24Time2a_decode_def], goal_cases)
  case (1 bs)
  then show ?case
    by (auto simp: Cp24Time2a_LEN_def Cp24Time2a_wf_def get_simps octet_mask_lt dest!: length_Suc_bytes)
next
  case (2 x)
  show ?case
    by (cases x) (auto simp: Cp24Time2a_encode_def Cp24Time2a_LEN_def Cp24Time2a_wf_def u16_to_le_bytes_def
      put_simps get_simps bytes_simps Let_def flag_simps bit_simps dest!: octet_bound(5) intro!: octet_eqI)
qed

section \<open>CP56Time2a\<close>

record Cp56Time2a =
  cp56_milliseconds :: u16
  cp56_minute :: u8
  cp56_hour :: u8
  cp56_day :: u8
  cp56_day_of_week :: u8
  cp56_month :: u8
  cp56_year :: u8
  cp56_summer_time :: bool
  cp56_invalid :: bool
  cp56_genuine :: bool

definition Cp56Time2a_LEN :: nat where "Cp56Time2a_LEN = 7"

definition Cp56Time2a_encode :: "bytes_api \<Rightarrow> Cp56Time2a \<Rightarrow> octets \<Rightarrow> octets" where
  "Cp56Time2a_encode bo self buf =
     (let buf = put_u16_le bo buf (cp56_milliseconds self);
          b = cp56_minute self AND 0x3F;
          b = (if cp56_genuine self then b OR 0x40 else b);
          b = (if cp56_invalid self then b OR 0x80 else b);
          buf = put_u8 bo buf b;
          h = cp56_hour self AND 0x1F;
          h = (if cp56_summer_time self then h OR 0x80 else h);
          buf = put_u8 bo buf h;
          d = (cp56_day self AND 0x1F) OR push_bit 5 (cp56_day_of_week self AND 0x07);
          buf = put_u8 bo buf d;
          buf = put_u8 bo buf (cp56_month self AND 0x0F)
      in put_u8 bo buf (cp56_year self AND 0x7F))"

definition Cp56Time2a_decode :: "bytes_api \<Rightarrow> octets \<Rightarrow> (Cp56Time2a \<times> octets) outcome" where
  "Cp56Time2a_decode bo buf =
     and_then (ensure bo buf Cp56Time2a_LEN) (\<lambda>_.
     and_then (get_u16_le bo buf) (\<lambda>(ms, buf).
     and_then (get_u8 bo buf) (\<lambda>(min_b, buf).
     and_then (get_u8 bo buf) (\<lambda>(hour_b, buf).
     and_then (get_u8 bo buf) (\<lambda>(day_b, buf).
     and_then (get_u8 bo buf) (\<lambda>(month_b, buf).
     and_then (get_u8 bo buf) (\<lambda>(year_b, buf).
       Ok (\<lparr> cp56_milliseconds = ms,
             cp56_minute = min_b AND 0x3F,
             cp56_hour = hour_b AND 0x1F,
             cp56_day = day_b AND 0x1F,
             cp56_day_of_week = drop_bit 5 day_b AND 0x07,
             cp56_month = month_b AND 0x0F,
             cp56_year = year_b AND 0x7F,
             cp56_summer_time = (hour_b AND 0x80 \<noteq> 0),
             cp56_invalid = (min_b AND 0x80 \<noteq> 0),
             cp56_genuine = (min_b AND 0x40 \<noteq> 0) \<rparr>, buf))))))))"

definition Cp56Time2a_wf :: "Cp56Time2a \<Rightarrow> bool" where
  "Cp56Time2a_wf x \<longleftrightarrow> cp56_minute x < 64 \<and> cp56_hour x < 32 \<and> cp56_day x < 32 \<and>
     cp56_day_of_week x < 8 \<and> cp56_month x < 16 \<and> cp56_year x < 128"

lemma cp56_minute_octet:
  fixes m :: u8
  assumes "b = (if i then (if g then m AND 0x3F OR 0x40 else m AND 0x3F) OR 0x80
               else if g then m AND 0x3F OR 0x40 else m AND 0x3F)"
  shows "m < 64 \<Longrightarrow> b AND 0x3F = m" "(b AND 0x80 = 0) = (\<not> i)" "(b AND 0x40 = 0) = (\<not> g)"
  unfolding assms
  by (cases g; cases i; auto simp: flag_simps bit_simps dest!: octet_bound(5) intro!: octet_eqI)+

lemma cp56_hour_octet:
  fixes h :: u8
  assumes "b = (if s then h AND 0x1F OR 0x80 else h AND 0x1F)"
  shows "h < 32 \<Longrightarrow> b AND 0x1F = h" "(b AND 0x80 = 0) = (\<not> s)"
  unfolding assms by (cases s; auto simp: flag_simps bit_simps dest!: octet_bound(4) intro!: octet_eqI)+

lemma cp56_day_octet:
  fixes d w :: u8
  shows "d < 32 \<Longrightarrow> (d AND 31 OR push_bit 5 w AND 224) AND 31 = d"
    and "w < 8 \<Longrightarrow> drop_bit 5 (push_bit 5 w) AND 7 = w" and "w < 8 \<Longrightarrow> w AND 7 = w"
  by (auto simp: bit_simps dest!: octet_bound(2,4) intro!: octet_eqI)

lemma cp56_date_octets:
  "m < 16 \<Longrightarrow> m AND 0x0F = m" "y < 128 \<Longrightarrow> y AND 0x7F = y" for m y :: u8
  by (auto simp: bit_simps dest!: octet_bound(3,6) intro!: octet_eqI)

lemmas cp56_octets = cp56_minute_octet [OF refl] cp56_hour_octet [OF refl] cp56_day_octet
  cp56_date_octets

sublocale bytes_crate \<subseteq> cp56: codec "Cp56Time2a_encode bo" "Cp56Time2a_decode bo" Cp56Time2a_LEN Cp56Time2a_wf
proof (rule fixed_codecI [OF Cp56Time2a_decode_def], goal_cases)
  case (1 bs)
  then show ?case
    by (auto simp: Cp56Time2a_LEN_def Cp56Time2a_wf_def get_simps octet_mask_lt dest!: length_Suc_bytes)
next
  case (2 x)
  show ?case
    by (cases x) (simp add: Cp56Time2a_encode_def Cp56Time2a_LEN_def Cp56Time2a_wf_def u16_to_le_bytes_def
      put_simps get_simps bytes_simps Let_def cp56_octets split del: if_split)
qed

context bytes_crate
begin

lemma cp56_wire_roundtrip:
  assumes "Cp56Time2a_wf t"
  shows "\<exists>w. length w = 7 \<and> Cp56Time2a_encode bo t buf = buf @ w \<and>
    Cp56Time2a_decode bo (w @ rest) = Ok (t, rest)"
  using cp56.enc_wire cp56.wire_length cp56.dec_wire [OF assms] by (metis Cp56Time2a_LEN_def)

end

end
