(* ===== verification/Asdu_Header.thy ===== *)
theory Asdu_Header
  imports Ie_Elements
begin

text \<open>
  The ASDU header fields: variable structure qualifier and addresses
  (\<^verbatim>\<open>crates/iec60870-proto/src/asdu/header.rs\<close>) and the cause of transmission
  (\<^verbatim>\<open>asdu/cot.rs\<close>).  The widths of the cause, the common address and the object address are
  configuration; each width gives one instance of the \<open>codec\<close> contract, with the values that fit
  it as its well-formedness predicate.
\<close>

section \<open>Variable structure qualifier\<close>

record Vsq =
  vsq_sequence :: bool
  vsq_count :: u8

definition Vsq_LEN :: nat where "Vsq_LEN = 1"
definition Vsq_SQ :: u8 where "Vsq_SQ = 0x80"
definition Vsq_COUNT_MASK :: u8 where "Vsq_COUNT_MASK = 0x7F"

definition Vsq_single :: "u8 \<Rightarrow> Vsq" where
  "Vsq_single count = \<lparr> vsq_sequence = False, vsq_count = count \<rparr>"

definition Vsq_sequence :: "u8 \<Rightarrow> Vsq" where
  "Vsq_sequence count = \<lparr> vsq_sequence = True, vsq_count = count \<rparr>"

definition Vsq_encode :: "bytes_api \<Rightarrow> Vsq \<Rightarrow> octets \<Rightarrow> octets" where
  "Vsq_encode bo self buf =
     (let b = vsq_count self AND Vsq_COUNT_MASK;
          b = (if vsq_sequence self then b OR Vsq_SQ else b)
      in put_u8 bo buf b)"

definition Vsq_decode :: "bytes_api \<Rightarrow> octets \<Rightarrow> (Vsq \<times> octets) outcome" where
  "Vsq_decode bo buf =
     (if remaining bo buf < Vsq_LEN then Err (Incomplete Vsq_LEN (remaining bo buf))
      else and_then (get_u8 bo buf) (\<lambda>(b, buf).
        Ok (\<lparr> vsq_sequence = (b AND Vsq_SQ \<noteq> 0), vsq_count = b AND Vsq_COUNT_MASK \<rparr>, buf)))"

definition Vsq_wf :: "Vsq \<Rightarrow> bool" where
  "Vsq_wf v \<longleftrightarrow> vsq_count v < 128"

lemma guarded_read:
  "(if remaining bo buf < n then Err (Incomplete n (remaining bo buf)) else k) = and_then (ensure bo buf n) (\<lambda>_. k)"
  by (simp add: ensure_def)

text \<open>A seven-bit field with a flag above it.\<close>

lemma flagged_octet:
  fixes q :: u8
  assumes "b = (if s then q AND 0x7F OR 0x80 else q AND 0x7F)"
  shows "q < 128 \<Longrightarrow> b AND 0x7F = q" "(b AND 0x80 = 0) = (\<not> s)"
  unfolding assms by (cases s; auto simp: flag_simps bit_simps dest!: octet_bound(6) intro!: octet_eqI)+

lemma octet_mask_id:
  fixes x :: u8
  shows "x < 16 \<Longrightarrow> x AND 15 = x" "x < 32 \<Longrightarrow> x AND 31 = x" "x < 64 \<Longrightarrow> x AND 63 = x"
    "x < 128 \<Longrightarrow> x AND 127 = x"
  by (auto simp: bit_simps dest!: octet_bound(3-6) intro!: octet_eqI)

sublocale bytes_crate \<subseteq> vsq: codec "Vsq_encode bo" "Vsq_decode bo" Vsq_LEN Vsq_wf
proof (rule octet_codecI [OF Vsq_decode_def [unfolded guarded_read]], goal_cases)
  case (2 b)
  show ?case by (simp add: Vsq_wf_def Vsq_COUNT_MASK_def octet_mask_lt)
next
  case (3 x)
  show ?case
    by (cases x) (auto simp: Vsq_encode_def Vsq_SQ_def Vsq_COUNT_MASK_def Vsq_wf_def put_simps Let_def
      flag_simps bit_simps dest!: octet_bound(6) intro!: octet_eqI)
qed (simp add: Vsq_LEN_def)

section \<open>Cause of transmission\<close>

datatype Cause = Cause u8

primrec Cause_raw :: "Cause \<Rightarrow> u8" where
  "Cause_raw (Cause v) = v"

definition Cause_PERIODIC :: Cause where "Cause_PERIODIC = Cause 1"
definition Cause_BACKGROUND :: Cause where "Cause_BACKGROUND = Cause 2"
definition Cause_SPONTANEOUS :: Cause where "Cause_SPONTANEOUS = Cause 3"
definition Cause_INITIALIZED :: Cause where "Cause_INITIALIZED = Cause 4"
definition Cause_REQUEST :: Cause where "Cause_REQUEST = Cause 5"
definition Cause_ACTIVATION :: Cause where "Cause_ACTIVATION = Cause 6"
definition Cause_ACTIVATION_CON :: Cause where "Cause_ACTIVATION_CON = Cause 7"
definition Cause_DEACTIVATION :: Cause where "Cause_DEACTIVATION = Cause 8"
definition Cause_DEACTIVATION_CON :: Cause where "Cause_DEACTIVATION_CON = Cause 9"
definition Cause_ACTIVATION_TERMINATION :: Cause where "Cause_ACTIVATION_TERMINATION = Cause 10"
definition Cause_RETURN_REMOTE :: Cause where "Cause_RETURN_REMOTE = Cause 11"
definition Cause_RETURN_LOCAL :: Cause where "Cause_RETURN_LOCAL = Cause 12"
definition Cause_FILE_TRANSFER :: Cause where "Cause_FILE_TRANSFER = Cause 13"
definition Cause_INTERROGATED_GENERAL :: Cause where "Cause_INTERROGATED_GENERAL = Cause 20"
definition Cause_REQUESTED_COUNTER_GENERAL :: Cause where "Cause_REQUESTED_COUNTER_GENERAL = Cause 37"
definition Cause_UNKNOWN_TYPE_ID :: Cause where "Cause_UNKNOWN_TYPE_ID = Cause 44"
definition Cause_UNKNOWN_CAUSE :: Cause where "Cause_UNKNOWN_CAUSE = Cause 45"
definition Cause_UNKNOWN_CA :: Cause where "Cause_UNKNOWN_CA = Cause 46"
definition Cause_UNKNOWN_IOA :: Cause where "Cause_UNKNOWN_IOA = Cause 47"

text \<open>The plain \<^verbatim>\<open>+\<close> of the sources panics on overflow in builds with overflow checks.\<close>

definition u8_add :: "u8 \<Rightarrow> u8 \<Rightarrow> u8 outcome" where
  "u8_add a b = (if unat a + unat b < 256 then Ok (a + b) else Panic)"

definition Cause_interrogated_group :: "u8 \<Rightarrow> Cause outcome" where
  "Cause_interrogated_group n = and_then (u8_add 20 n) (\<lambda>v. Ok (Cause v))"

definition Cause_requested_counter_group :: "u8 \<Rightarrow> Cause outcome" where
  "Cause_requested_counter_group n = and_then (u8_add 37 n) (\<lambda>v. Ok (Cause v))"

record Cot =
  cot_cause :: Cause
  cot_negative :: bool
  cot_test :: bool
  cot_originator :: u8

definition Cot_LEN_1 :: nat where "Cot_LEN_1 = 1"
definition Cot_LEN_2 :: nat where "Cot_LEN_2 = 2"
definition Cot_CAUSE_MASK :: u8 where "Cot_CAUSE_MASK = 0x3F"
definition Cot_PN :: u8 where "Cot_PN = 0x40"
definition Cot_T :: u8 where "Cot_T = 0x80"

definition Cot_with :: "Cause \<Rightarrow> Cot" where
  "Cot_with cause = \<lparr> cot_cause = cause, cot_negative = False, cot_test = False, cot_originator = 0 \<rparr>"

definition Cot_act :: Cot where
  "Cot_act = Cot_with Cause_ACTIVATION"

definition Cot_with_negative :: "Cot \<Rightarrow> bool \<Rightarrow> Cot" where
  "Cot_with_negative self negative = self\<lparr> cot_negative := negative \<rparr>"

definition Cot_with_test :: "Cot \<Rightarrow> bool \<Rightarrow> Cot" where
  "Cot_with_test self test = self\<lparr> cot_test := test \<rparr>"

definition Cot_with_originator :: "Cot \<Rightarrow> u8 \<Rightarrow> Cot" where
  "Cot_with_originator self originator = self\<lparr> cot_originator := originator \<rparr>"

definition Cot_first_octet :: "Cot \<Rightarrow> u8" where
  "Cot_first_octet self =
     (let b = Cause_raw (cot_cause self) AND Cot_CAUSE_MASK;
          b = (if cot_negative self then b OR Cot_PN else b);
          b = (if cot_test self then b OR Cot_T else b)
      in b)"

definition Cot_parse_first_octet :: "u8 \<Rightarrow> Cot" where
  "Cot_parse_first_octet b =
     \<lparr> cot_cause = Cause (b AND Cot_CAUSE_MASK),
       cot_negative = (b AND Cot_PN \<noteq> 0),
       cot_test = (b AND Cot_T \<noteq> 0),
       cot_originator = 0 \<rparr>"

definition Cot_encode_1 :: "bytes_api \<Rightarrow> Cot \<Rightarrow> octets \<Rightarrow> octets" where
  "Cot_encode_1 bo self buf = put_u8 bo buf (Cot_first_octet self)"

definition Cot_encode_2 :: "bytes_api \<Rightarrow> Cot \<Rightarrow> octets \<Rightarrow> octets" where
  "Cot_encode_2 bo self buf = put_u8 bo (put_u8 bo buf (Cot_first_octet self)) (cot_originator self)"

definition Cot_decode_1 :: "bytes_api \<Rightarrow> octets \<Rightarrow> (Cot \<times> octets) outcome" where
  "Cot_decode_1 bo buf =
     (if remaining bo buf < Cot_LEN_1 then Err (Incomplete Cot_LEN_1 (remaining bo buf))
      else and_then (get_u8 bo buf) (\<lambda>(b, buf). Ok (Cot_parse_first_octet b, buf)))"

definition Cot_decode_2 :: "bytes_api \<Rightarrow> octets \<Rightarrow> (Cot \<times> octets) outcome" where
  "Cot_decode_2 bo buf =
     (if remaining bo buf < Cot_LEN_2 then Err (Incomplete Cot_LEN_2 (remaining bo buf))
      else and_then (get_u8 bo buf) (\<lambda>(fst_b, buf).
           and_then (get_u8 bo buf) (\<lambda>(originator, buf).
             let cot = Cot_parse_first_octet fst_b
             in Ok (cot\<lparr> cot_originator := originator \<rparr>, buf))))"

definition Cot_wf :: "Cot \<Rightarrow> bool" where
  "Cot_wf c \<longleftrightarrow> Cause_raw (cot_cause c) < 64"

definition Cot_wf_1 :: "Cot \<Rightarrow> bool" where
  "Cot_wf_1 c \<longleftrightarrow> Cot_wf c \<and> cot_originator c = 0"

lemmas cot_defs = Cot_LEN_1_def Cot_LEN_2_def Cot_CAUSE_MASK_def Cot_PN_def Cot_T_def Cot_wf_def Cot_wf_1_def

lemma parse_first_octet:
  assumes "Cot_wf c"
  shows "Cot_parse_first_octet (Cot_first_octet c) = c\<lparr> cot_originator := 0 \<rparr>"
  using assms
  by (cases c; cases "cot_cause c") (auto simp: Cot_parse_first_octet_def Cot_first_octet_def cot_defs Let_def
    flag_simps bit_simps dest!: octet_bound(5) intro!: octet_eqI)

lemma parse_first_octet_wf: "Cot_wf_1 (Cot_parse_first_octet b)"
  by (simp add: Cot_parse_first_octet_def cot_defs octet_mask_lt)

sublocale bytes_crate \<subseteq> cot1: codec "Cot_encode_1 bo" "Cot_decode_1 bo" Cot_LEN_1 Cot_wf_1
proof (rule octet_codecI [OF Cot_decode_1_def [unfolded guarded_read]], goal_cases)
  case (3 x)
  then show ?case by (cases x) (auto simp: Cot_encode_1_def put_simps Cot_wf_1_def parse_first_octet)
qed (auto simp: Cot_LEN_1_def parse_first_octet_wf)

sublocale bytes_crate \<subseteq> cot2: codec "Cot_encode_2 bo" "Cot_decode_2 bo" Cot_LEN_2 Cot_wf
proof (rule fixed_codecI [OF Cot_decode_2_def [unfolded guarded_read]], goal_cases)
  case (1 bs)
  then show ?case
    using parse_first_octet_wf by (auto simp: Cot_LEN_2_def Cot_wf_def Cot_wf_1_def get_simps dest!: length_Suc_bytes)
next
  case (2 x)
  show ?case
    by (cases x) (auto simp: Cot_encode_2_def put_simps get_simps parse_first_octet Cot_LEN_2_def)
qed

section \<open>Addresses\<close>

datatype CommonAddress = CommonAddress u16
datatype Ioa = Ioa u32
datatype CotSize = CotSize_One | CotSize_Two
datatype CaSize = CaSize_One | CaSize_Two
datatype IoaSize = IoaSize_One | IoaSize_Two | IoaSize_Three

record AsduAddressing =
  cot_size :: CotSize
  ca_size :: CaSize
  ioa_size :: IoaSize

definition AsduAddressing_IEC104 :: AsduAddressing where
  "AsduAddressing_IEC104 = \<lparr> cot_size = CotSize_Two, ca_size = CaSize_Two, ioa_size = IoaSize_Three \<rparr>"

definition AsduAddressing_IEC101_DEFAULT :: AsduAddressing where
  "AsduAddressing_IEC101_DEFAULT = \<lparr> cot_size = CotSize_Two, ca_size = CaSize_Two, ioa_size = IoaSize_Two \<rparr>"

definition AsduAddressing_cot_len :: "AsduAddressing \<Rightarrow> nat" where
  "AsduAddressing_cot_len self = (case cot_size self of CotSize_One \<Rightarrow> Cot_LEN_1 | CotSize_Two \<Rightarrow> Cot_LEN_2)"

definition AsduAddressing_ca_len :: "AsduAddressing \<Rightarrow> nat" where
  "AsduAddressing_ca_len self = (case ca_size self of CaSize_One \<Rightarrow> 1 | CaSize_Two \<Rightarrow> 2)"

definition encode_ca :: "bytes_api \<Rightarrow> octets \<Rightarrow> CommonAddress \<Rightarrow> CaSize \<Rightarrow> octets" where
  "encode_ca bo buf ca sz =
     (case ca of CommonAddress v \<Rightarrow>
       (case sz of
          CaSize_One \<Rightarrow> put_u8 bo buf (ucast v)
        | CaSize_Two \<Rightarrow> put_u16_le bo buf v))"

definition decode_ca :: "bytes_api \<Rightarrow> octets \<Rightarrow> CaSize \<Rightarrow> (CommonAddress \<times> octets) outcome" where
  "decode_ca bo buf sz =
     (let len = (case sz of CaSize_One \<Rightarrow> 1 | CaSize_Two \<Rightarrow> 2)
      in if remaining bo buf < len then Err (Incomplete len (remaining bo buf))
         else (case sz of
             CaSize_One \<Rightarrow> and_then (get_u8 bo buf) (\<lambda>(b, buf). Ok (CommonAddress (ucast b), buf))
           | CaSize_Two \<Rightarrow> and_then (get_u16_le bo buf) (\<lambda>(v, buf). Ok (CommonAddress v, buf))))"

definition encode_ioa :: "bytes_api \<Rightarrow> octets \<Rightarrow> Ioa \<Rightarrow> IoaSize \<Rightarrow> octets" where
  "encode_ioa bo buf ioa sz =
     (case ioa of Ioa v \<Rightarrow>
       (case sz of
          IoaSize_One \<Rightarrow> put_u8 bo buf (ucast v)
        | IoaSize_Two \<Rightarrow> put_u16_le bo buf (ucast v)
        | IoaSize_Three \<Rightarrow>
            (let buf = put_u8 bo buf (ucast v);
                 buf = put_u8 bo buf (ucast (drop_bit 8 v))
             in put_u8 bo buf (ucast (drop_bit 16 v)))))"

definition decode_ioa :: "bytes_api \<Rightarrow> octets \<Rightarrow> IoaSize \<Rightarrow> (Ioa \<times> octets) outcome" where
  "decode_ioa bo buf sz =
     (let len = (case sz of IoaSize_One \<Rightarrow> 1 | IoaSize_Two \<Rightarrow> 2 | IoaSize_Three \<Rightarrow> 3)
      in if remaining bo buf < len then Err (Incomplete len (remaining bo buf))
         else (case sz of
             IoaSize_One \<Rightarrow> and_then (get_u8 bo buf) (\<lambda>(b, buf). Ok (Ioa (ucast b), buf))
           | IoaSize_Two \<Rightarrow> and_then (get_u16_le bo buf) (\<lambda>(v, buf). Ok (Ioa (ucast v), buf))
           | IoaSize_Three \<Rightarrow>
               and_then (get_u8 bo buf) (\<lambda>(b0, buf).
               and_then (get_u8 bo buf) (\<lambda>(b1, buf).
               and_then (get_u8 bo buf) (\<lambda>(b2, buf).
                 Ok (Ioa (ucast b0 OR push_bit 8 (ucast b1) OR push_bit 16 (ucast b2)), buf))))))"

text \<open>What fits the configured widths.\<close>

definition ca_len :: "CaSize \<Rightarrow> nat" where
  "ca_len sz = (case sz of CaSize_One \<Rightarrow> 1 | CaSize_Two \<Rightarrow> 2)"

definition ioa_len :: "IoaSize \<Rightarrow> nat" where
  "ioa_len sz = (case sz of IoaSize_One \<Rightarrow> 1 | IoaSize_Two \<Rightarrow> 2 | IoaSize_Three \<Rightarrow> 3)"

primrec ca_fits :: "CaSize \<Rightarrow> CommonAddress \<Rightarrow> bool" where
  "ca_fits sz (CommonAddress v) \<longleftrightarrow> sz = CaSize_One \<longrightarrow> v < 256"

primrec ioa_fits :: "IoaSize \<Rightarrow> Ioa \<Rightarrow> bool" where
  "ioa_fits sz (Ioa v) \<longleftrightarrow> v < (case sz of IoaSize_One \<Rightarrow> 2 ^ 8 | IoaSize_Two \<Rightarrow> 2 ^ 16 | IoaSize_Three \<Rightarrow> 2 ^ 24)"

lemma ca_octet: "v < 256 \<Longrightarrow> ucast (ucast v :: u8) = (v :: u16)"
  using word_lt_bit_index [of v 8] by (auto intro!: bit_word_eqI simp: bit_simps)

lemma ioa_octets_one: "v < 2 ^ 8 \<Longrightarrow> ucast (ucast v :: u8) = v" for v :: u32
  by (rule bit_word_eqI) (auto dest: word_lt_bit_index simp: bit_simps simp del: power_numeral)

lemma ioa_octets_two: "v < 2 ^ 16 \<Longrightarrow> ucast (ucast v :: u16) = v" for v :: u32
  by (rule bit_word_eqI) (auto dest: word_lt_bit_index simp: bit_simps simp del: power_numeral)

lemma ioa_octets_three:
  fixes v :: u32
  assumes "v < 2 ^ 24"
  shows "ucast (ucast v :: u8) OR push_bit 8 (ucast (ucast (drop_bit 8 v) :: u8)) OR
      push_bit 16 (ucast (ucast (drop_bit 16 v) :: u8)) = v" (is "?w = v")
proof (rule bit_word_eqI)
  fix n assume "n < LENGTH(32)"
  then show "bit ?w n = bit v n"
    using word_lt_bit_index [OF assms, of n]
    by (cases "n < 8"; cases "n < 16"; cases "n < 24") (auto simp: bit_simps)
qed

lemma ioa_three_range:
  "(ucast (b0 :: u8) OR push_bit 8 (ucast (b1 :: u8)) OR push_bit 16 (ucast (b2 :: u8)) :: u32) < 2 ^ 24"
  by (rule word_ltI) (auto simp: bit_simps dest: bit_imp_le_length)

lemma ca_one_range: "(ucast (b :: u8) :: u16) < 256"
proof -
  have "(ucast b :: u16) < 2 ^ 8"
    by (rule word_ltI) (auto simp: bit_simps dest: bit_imp_le_length)
  then show ?thesis by simp
qed

lemma ioa_one_range: "(ucast (b :: u8) :: u32) < 2 ^ 8"
  by (rule word_ltI) (auto simp: bit_simps dest: bit_imp_le_length)

lemma ioa_two_range: "(ucast (w :: u16) :: u32) < 2 ^ 16"
  by (rule word_ltI) (auto simp: bit_simps dest: bit_imp_le_length)

lemmas address_ranges = ca_one_range ioa_one_range ioa_two_range ioa_three_range

lemmas address_octets = ca_octet ioa_octets_one ioa_octets_two ioa_octets_three

sublocale bytes_crate \<subseteq> ca: codec "\<lambda>ca buf. encode_ca bo buf ca sz" "\<lambda>buf. decode_ca bo buf sz"
  "ca_len sz" "ca_fits sz" for sz
proof (rule fixed_codecI [OF decode_ca_def [unfolded Let_def guarded_read, folded ca_len_def]], goal_cases)
  case (1 bs)
  then show ?case
    by (cases sz) (auto simp: ca_len_def get_simps address_ranges length_Suc_conv dest!: length_Suc_bytes)
next
  case (2 x)
  show ?case
    by (cases x; cases sz)
      (auto simp: encode_ca_def ca_len_def put_simps get_simps u16_to_le_bytes_def bytes_simps address_octets)
qed

sublocale bytes_crate \<subseteq> ioa: codec "\<lambda>ioa buf. encode_ioa bo buf ioa sz" "\<lambda>buf. decode_ioa bo buf sz"
  "ioa_len sz" "ioa_fits sz" for sz
proof (rule fixed_codecI [OF decode_ioa_def [unfolded Let_def guarded_read, folded ioa_len_def]], goal_cases)
  case (1 bs)
  then show ?case
    by (cases sz) (auto simp: ioa_len_def get_simps address_ranges length_Suc_conv simp del: power_numeral
      dest!: length_Suc_bytes)
next
  case (2 x)
  show ?case
    by (cases x; cases sz)
      (auto simp: encode_ioa_def ioa_len_def put_simps get_simps u16_to_le_bytes_def bytes_simps address_octets
        simp del: power_numeral)
qed

section \<open>The header fields are carried octet for octet\<close>

lemma first_octet_parse: "Cot_first_octet (Cot_parse_first_octet b) = b"
  by (auto simp: Cot_parse_first_octet_def Cot_first_octet_def cot_defs Let_def flag_simps bit_simps intro!: octet_eqI)

lemma first_octet_originator [simp]: "Cot_first_octet (c\<lparr> cot_originator := v \<rparr>) = Cot_first_octet c"
  by (simp add: Cot_first_octet_def)

lemma octet_no_high_bit: "\<not> bit (b :: u8) (8 + n)" "\<not> bit (b :: u8) (16 + n)"
  by (auto dest: bit_imp_le_length)

lemma octet_through_word:
  fixes b :: u8 and w :: u16
  shows "ucast (ucast b :: u16) = b" "ucast (ucast b :: u32) = b" "ucast (ucast w :: u32) = w"
  by (auto intro!: bit_word_eqI simp: bit_simps)

lemma ioa_three_octets:
  fixes b0 b1 b2 :: u8
  defines "v \<equiv> ucast b0 OR push_bit 8 (ucast b1) OR push_bit 16 (ucast b2) :: u32"
  shows "ucast v = b0" "ucast (drop_bit 8 v) = b1" "ucast (drop_bit 16 v) = b2"
  by (auto intro!: bit_word_eqI simp: v_def bit_simps octet_no_high_bit)

sublocale bytes_crate \<subseteq> vsq: exact_codec "Vsq_encode bo" "Vsq_decode bo" Vsq_LEN Vsq_wf
proof
  show "Vsq_encode bo x [] @ rest = buf" if "Vsq_decode bo buf = Ok (x, rest)" for buf x rest
    using that by (cases buf) (auto simp: Vsq_decode_def Vsq_encode_def Vsq_LEN_def Vsq_SQ_def Vsq_COUNT_MASK_def
      get_simps put_simps Let_def flag_simps bit_simps intro!: octet_eqI)
qed

sublocale bytes_crate \<subseteq> cot1: exact_codec "Cot_encode_1 bo" "Cot_decode_1 bo" Cot_LEN_1 Cot_wf_1
proof
  show "Cot_encode_1 bo x [] @ rest = buf" if "Cot_decode_1 bo buf = Ok (x, rest)" for buf x rest
    using that by (cases buf) (auto simp: Cot_decode_1_def Cot_encode_1_def Cot_LEN_1_def get_simps put_simps
      first_octet_parse)
qed

sublocale bytes_crate \<subseteq> cot2: exact_codec "Cot_encode_2 bo" "Cot_decode_2 bo" Cot_LEN_2 Cot_wf
proof
  show "Cot_encode_2 bo x [] @ rest = buf" if "Cot_decode_2 bo buf = Ok (x, rest)" for buf x rest
    using that by (cases buf; cases "tl buf") (auto simp: Cot_decode_2_def Cot_encode_2_def Cot_LEN_2_def
      get_simps put_simps first_octet_parse)
qed

sublocale bytes_crate \<subseteq> ca: exact_codec "\<lambda>ca buf. encode_ca bo buf ca sz" "\<lambda>buf. decode_ca bo buf sz"
  "ca_len sz" "ca_fits sz" for sz
proof
  show "encode_ca bo [] x sz @ rest = buf" if "decode_ca bo buf sz = Ok (x, rest)" for buf x rest
    using that by (cases sz; cases buf; cases "tl buf") (auto simp: decode_ca_def encode_ca_def
      get_simps put_simps u16_to_le_bytes_def bytes_simps octet_through_word split: if_splits)
qed

sublocale bytes_crate \<subseteq> ioa: exact_codec "\<lambda>ioa buf. encode_ioa bo buf ioa sz" "\<lambda>buf. decode_ioa bo buf sz"
  "ioa_len sz" "ioa_fits sz" for sz
proof
  show "encode_ioa bo [] x sz @ rest = buf" if "decode_ioa bo buf sz = Ok (x, rest)" for buf x rest
    using that by (cases sz; cases buf; cases "tl buf"; cases "tl (tl buf)") (auto simp: decode_ioa_def encode_ioa_def
      get_simps put_simps u16_to_le_bytes_def bytes_simps octet_through_word ioa_three_octets
      simp del: drop_bit_or split: if_splits)
qed

text \<open>The octets of an address, for rewriting in the clients.\<close>

context bytes_crate
begin

definition ca_wire :: "CaSize \<Rightarrow> CommonAddress \<Rightarrow> octets" where
  "ca_wire sz ca = encode_ca bo [] ca sz"

definition ioa_wire :: "IoaSize \<Rightarrow> Ioa \<Rightarrow> octets" where
  "ioa_wire sz ioa = encode_ioa bo [] ioa sz"

lemma encode_ca_wire: "encode_ca bo buf ca sz = buf @ ca_wire sz ca"
  using ca.enc_append [of buf ca sz] by (simp add: ca_wire_def)

lemma encode_ioa_wire: "encode_ioa bo buf ioa sz = buf @ ioa_wire sz ioa"
  using ioa.enc_append [of buf ioa sz] by (simp add: ioa_wire_def)

lemma address_wire_length: "length (ca_wire sz ca) = ca_len sz" "length (ioa_wire isz ioa) = ioa_len isz"
  by (simp_all add: ca_wire_def ioa_wire_def ca.enc_length ioa.enc_length)

lemma decode_ca_wire: "ca_fits sz ca \<Longrightarrow> decode_ca bo (ca_wire sz ca @ rest) sz = Ok (ca, rest)"
  by (simp add: ca_wire_def ca.dec_enc)

lemma decode_ioa_wire: "ioa_fits sz ioa \<Longrightarrow> decode_ioa bo (ioa_wire sz ioa @ rest) sz = Ok (ioa, rest)"
  by (simp add: ioa_wire_def ioa.dec_enc)

lemma ca_wire_dec: "decode_ca bo buf sz = Ok (ca, rest) \<Longrightarrow> buf = ca_wire sz ca @ rest"
  by (simp add: ca_wire_def ca.enc_dec)

lemmas address_wire = encode_ca_wire encode_ioa_wire address_wire_length decode_ca_wire decode_ioa_wire

end

end
