(* ===== verification/Asdu_Envelope.thy ===== *)
theory Asdu_Envelope
  imports Asdu_Header
begin

text \<open>
  Information-object lists (\<^verbatim>\<open>crates/iec60870-proto/src/asdu/io_list.rs\<close>), the trait
  \<^verbatim>\<open>AsduPayload\<close> (\<^verbatim>\<open>asdu/payload.rs\<close>) as a dictionary record, and the ASDU envelope
  (\<^verbatim>\<open>asdu/envelope.rs\<close>).  The locale \<open>asdu_payload\<close> is the contract of the trait; its lemmas are the
  envelope's guarantees for every payload type that meets it.
\<close>

section \<open>Information-object lists\<close>

definition encode_io_list ::
    "bytes_api \<Rightarrow> octets \<Rightarrow> (Ioa \<times> 'e) list \<Rightarrow> Vsq \<Rightarrow> AsduAddressing \<Rightarrow> ('e \<Rightarrow> octets \<Rightarrow> octets) \<Rightarrow> octets" where
  "encode_io_list bo buf objects vsq addressing encode_element =
     (if vsq_sequence vsq then
        (case objects of
           [] \<Rightarrow> buf
         | (ioa, fst_e) # others \<Rightarrow>
             (let buf = encode_ioa bo buf ioa (ioa_size addressing);
                  buf = encode_element fst_e buf
              in foldl (\<lambda>buf (_, e). encode_element e buf) buf others))
      else
        foldl (\<lambda>buf (ioa, e). encode_element e (encode_ioa bo buf ioa (ioa_size addressing))) buf objects)"

text \<open>The two \<^verbatim>\<open>for\<close> loops; \<open>objects\<close> is the vector pushed to, \<open>i\<close> the loop counter.\<close>

primrec decode_sequence_loop ::
    "nat \<Rightarrow> nat \<Rightarrow> u32 \<Rightarrow> (octets \<Rightarrow> ('e \<times> octets) outcome) \<Rightarrow> (Ioa \<times> 'e) list \<Rightarrow> octets \<Rightarrow>
      ((Ioa \<times> 'e) list \<times> octets) outcome" where
  "decode_sequence_loop 0 i base decode_element objects buf = Ok (objects, buf)"
| "decode_sequence_loop (Suc n) i base decode_element objects buf =
     and_then (decode_element buf) (\<lambda>(e, buf).
       decode_sequence_loop n (Suc i) base decode_element (objects @ [(Ioa (base + of_nat i), e)]) buf)"

primrec decode_single_loop ::
    "bytes_api \<Rightarrow> nat \<Rightarrow> AsduAddressing \<Rightarrow> (octets \<Rightarrow> ('e \<times> octets) outcome) \<Rightarrow> (Ioa \<times> 'e) list \<Rightarrow> octets \<Rightarrow>
      ((Ioa \<times> 'e) list \<times> octets) outcome" where
  "decode_single_loop bo 0 addressing decode_element objects buf = Ok (objects, buf)"
| "decode_single_loop bo (Suc n) addressing decode_element objects buf =
     and_then (decode_ioa bo buf (ioa_size addressing)) (\<lambda>(ioa, buf).
     and_then (decode_element buf) (\<lambda>(e, buf).
       decode_single_loop bo n addressing decode_element (objects @ [(ioa, e)]) buf))"

definition decode_io_list ::
    "bytes_api \<Rightarrow> octets \<Rightarrow> Vsq \<Rightarrow> AsduAddressing \<Rightarrow> (octets \<Rightarrow> ('e \<times> octets) outcome) \<Rightarrow>
      ((Ioa \<times> 'e) list \<times> octets) outcome" where
  "decode_io_list bo buf vsq addressing decode_element =
     (let count = unat (vsq_count vsq)
      in if vsq_sequence vsq then
           (if count = 0 then Ok ([], buf)
            else and_then (decode_ioa bo buf (ioa_size addressing)) (\<lambda>(ioa, buf).
              case ioa of Ioa base \<Rightarrow> decode_sequence_loop count 0 base decode_element [] buf))
         else decode_single_loop bo count addressing decode_element [] buf)"

text \<open>
  The receiver's view of a list: with \<^verbatim>\<open>SQ = 1\<close> only the first address travels, and the others are
  taken to follow it.
\<close>

fun renumber :: "u32 \<Rightarrow> nat \<Rightarrow> (Ioa \<times> 'e) list \<Rightarrow> (Ioa \<times> 'e) list" where
  "renumber base i [] = []"
| "renumber base i ((_, e) # xs) = (Ioa (base + of_nat i), e) # renumber base (Suc i) xs"

fun received_objects :: "Vsq \<Rightarrow> (Ioa \<times> 'e) list \<Rightarrow> (Ioa \<times> 'e) list" where
  "received_objects vsq [] = []"
| "received_objects vsq ((Ioa base, e) # xs) =
     (if vsq_sequence vsq then renumber base 0 ((Ioa base, e) # xs) else (Ioa base, e) # xs)"

text \<open>What fits the wire: as many objects as the count says, elements the element codec carries, and
  the addresses that travel within the configured width.\<close>

definition objects_fit :: "('e \<Rightarrow> bool) \<Rightarrow> Vsq \<Rightarrow> AsduAddressing \<Rightarrow> (Ioa \<times> 'e) list \<Rightarrow> bool" where
  "objects_fit ok vsq addressing objects \<longleftrightarrow>
     length objects = unat (vsq_count vsq) \<and> list_all (\<lambda>(_, e). ok e) objects \<and>
     list_all (\<lambda>(ioa, _). ioa_fits (ioa_size addressing) ioa) (if vsq_sequence vsq then take 1 objects else objects)"

definition io_list_len :: "nat \<Rightarrow> Vsq \<Rightarrow> AsduAddressing \<Rightarrow> nat" where
  "io_list_len len vsq addressing =
     (let n = unat (vsq_count vsq); a = ioa_len (ioa_size addressing)
      in if vsq_sequence vsq then (if n = 0 then 0 else a + n * len) else n * (a + len))"

lemma length_renumber [simp]: "length (renumber base i xs) = length xs"
  by (induction base i xs rule: renumber.induct) auto

lemma renumber_renumber [simp]: "renumber base i (renumber base i xs) = renumber base i xs"
  by (induction base i xs rule: renumber.induct) auto

lemma renumber_nth: "j < length xs \<Longrightarrow> renumber base i xs ! j = (Ioa (base + of_nat (i + j)), snd (xs ! j))"
  by (induction base i xs arbitrary: j rule: renumber.induct) (auto simp: nth_Cons algebra_simps split: nat.split)

lemma renumber_hd: "renumber b 0 xs = xs \<Longrightarrow> xs \<noteq> [] \<Longrightarrow> \<exists>e ys. xs = (Ioa b, e) # ys"
  by (cases xs; cases "hd xs") auto

lemma list_all_renumber [simp]: "list_all (\<lambda>(_, e). ok e) (renumber base i xs) = list_all (\<lambda>(_, e). ok e) xs"
  by (induction base i xs rule: renumber.induct) auto

lemma length_received [simp]: "length (received_objects vsq xs) = length xs"
  by (induction vsq xs rule: received_objects.induct) auto

context bytes_crate
begin

lemma encode_elements:
  assumes "codec enc dec len ok"
  shows "foldl (\<lambda>buf (_, e). enc e buf) buf xs = buf @ concat (map (\<lambda>(_, e). enc e []) xs)"
  by (induction xs arbitrary: buf) (auto intro: codec.enc_append [OF assms])

lemma encode_objects:
  assumes "codec enc dec len ok"
  shows "foldl (\<lambda>buf (ioa, e). enc e (encode_ioa bo buf ioa sz)) buf xs =
    buf @ concat (map (\<lambda>(a, e). encode_ioa bo [] a sz @ enc e []) xs)"
proof (induction xs arbitrary: buf)
  case (Cons x xs)
  have "enc e (encode_ioa bo buf a sz) = buf @ encode_ioa bo [] a sz @ enc e []" for a e
    using codec.enc_append [OF assms, of e "encode_ioa bo buf a sz"] ioa.enc_append [of buf a sz] by simp
  with Cons show ?case by (auto simp: split_def)
qed simp

lemma encode_io_list_append:
  assumes "codec enc dec len ok"
  shows "encode_io_list bo buf xs vsq a enc = buf @ encode_io_list bo [] xs vsq a enc"
proof -
  have *: "enc e (encode_ioa bo buf ioa sz) = buf @ encode_ioa bo [] ioa sz @ enc e []" for e ioa sz buf
    using codec.enc_append [OF assms, of e "encode_ioa bo buf ioa sz"] ioa.enc_append [of buf ioa sz] by simp
  show ?thesis
    using encode_objects [OF assms, of "ioa_size a"]
    by (auto simp: encode_io_list_def encode_elements [OF assms] * * [of _ "[]", simplified] split: list.split)
qed

lemma decode_sequence_enc:
  assumes "codec enc dec len ok" and "list_all (\<lambda>(_, e). ok e) xs"
  shows "decode_sequence_loop (length xs) i base dec acc (concat (map (\<lambda>(_, e). enc e []) xs) @ rest) =
    Ok (acc @ renumber base i xs, rest)"
  using assms(2) by (induction xs arbitrary: i acc) (auto simp: codec.dec_enc [OF assms(1)])

lemma decode_single_enc:
  assumes "codec enc dec len ok" and "list_all (\<lambda>(_, e). ok e) xs"
    and "list_all (\<lambda>(ioa, _). ioa_fits (ioa_size a) ioa) xs"
  shows "decode_single_loop bo (length xs) a dec acc
      (concat (map (\<lambda>(ioa, e). encode_ioa bo [] ioa (ioa_size a) @ enc e []) xs) @ rest) = Ok (acc @ xs, rest)"
  using assms(2,3) by (induction xs arbitrary: acc) (auto simp: codec.dec_enc [OF assms(1)] ioa.dec_enc)

lemma decode_encode_io_list:
  assumes "codec enc dec len ok" and "objects_fit ok vsq a xs"
  shows "decode_io_list bo (encode_io_list bo [] xs vsq a enc @ rest) vsq a dec = Ok (received_objects vsq xs, rest)"
proof (cases "vsq_sequence vsq")
  case False
  with assms(2) decode_single_enc [OF assms(1), of xs a "[]"] show ?thesis
    by (cases xs; cases "fst (hd xs)")
      (auto simp: decode_io_list_def encode_io_list_def objects_fit_def encode_objects [OF assms(1)])
next
  case True
  show ?thesis
  proof (cases xs)
    case Nil
    with True assms(2) show ?thesis
      by (simp add: decode_io_list_def encode_io_list_def objects_fit_def)
  next
    case (Cons x ys)
    obtain base e where x: "x = (Ioa base, e)" by (cases x; cases "fst x") auto
    have "encode_io_list bo [] xs vsq a enc =
        encode_ioa bo [] (Ioa base) (ioa_size a) @ concat (map (\<lambda>(_, e). enc e []) xs)"
      using True Cons x codec.enc_append [OF assms(1), of e "encode_ioa bo [] (Ioa base) (ioa_size a)"]
      by (simp add: encode_io_list_def encode_elements [OF assms(1)])
    with True Cons x assms(2) decode_sequence_enc [OF assms(1), of xs 0 base "[]" rest] show ?thesis
      by (auto simp: decode_io_list_def objects_fit_def ioa.dec_enc simp del: renumber.simps decode_sequence_loop.simps)
  qed
qed

text \<open>Decoding any octets: complete lists are read to the last object, shorter ones are \<open>Incomplete\<close>.\<close>

lemma decode_sequence_long:
  assumes "codec enc dec len ok" and "n * len \<le> length buf"
  shows "\<exists>xs. decode_sequence_loop n i base dec acc buf = Ok (acc @ xs, drop (n * len) buf) \<and>
    length xs = n \<and> list_all (\<lambda>(_, e). ok e) xs \<and> renumber base i xs = xs"
  using assms(2)
proof (induction n arbitrary: i acc buf)
  case (Suc n)
  then obtain e where e: "ok e" "dec buf = Ok (e, drop len buf)"
    using codec.dec_long [OF assms(1), of buf] by auto
  from Suc.prems have "n * len \<le> length (drop len buf)" by simp
  from Suc.IH [OF this, of "Suc i" "acc @ [(Ioa (base + of_nat i), e)]"] obtain xs where
    "decode_sequence_loop n (Suc i) base dec (acc @ [(Ioa (base + of_nat i), e)]) (drop len buf) =
      Ok (acc @ (Ioa (base + of_nat i), e) # xs, drop (n * len) (drop len buf))"
    "length xs = n" "list_all (\<lambda>(_, e). ok e) xs" "renumber base (Suc i) xs = xs" by auto
  with e show ?case by (intro exI [of _ "(Ioa (base + of_nat i), e) # xs"]) (simp add: add.commute)
qed simp

lemma decode_sequence_short:
  assumes "codec enc dec len ok" and "length buf < n * len"
  shows "\<exists>m h. decode_sequence_loop n i base dec acc buf = Err (Incomplete m h)"
  using assms(2)
proof (induction n arbitrary: i acc buf)
  case (Suc n)
  show ?case
  proof (cases "len \<le> length buf")
    case True
    then obtain e where "dec buf = Ok (e, drop len buf)"
      using codec.dec_long [OF assms(1), of buf] by auto
    moreover from Suc.prems True have "length (drop len buf) < n * len" by simp
    ultimately show ?thesis using Suc.IH by simp
  next
    case False
    then show ?thesis using codec.dec_short [OF assms(1), of buf] by auto
  qed
qed simp

lemma object_codec:
  assumes "codec enc dec len ok"
  shows "codec (\<lambda>(ioa, e) buf. enc e (encode_ioa bo buf ioa sz))
    (\<lambda>buf. and_then (decode_ioa bo buf sz) (\<lambda>(ioa, buf). and_then (dec buf) (\<lambda>(e, buf). Ok ((ioa, e), buf))))
    (ioa_len sz + len) (\<lambda>(ioa, e). ioa_fits sz ioa \<and> ok e)"
  by (rule codec_pair [OF ioa.codec_axioms assms])

lemma decode_single_long:
  assumes "codec enc dec len ok" and "n * (ioa_len (ioa_size a) + len) \<le> length buf"
  shows "\<exists>xs. decode_single_loop bo n a dec acc buf = Ok (acc @ xs, drop (n * (ioa_len (ioa_size a) + len)) buf) \<and>
    length xs = n \<and> list_all (\<lambda>(_, e). ok e) xs \<and> list_all (\<lambda>(ioa, _). ioa_fits (ioa_size a) ioa) xs"
  using assms(2)
proof (induction n arbitrary: acc buf)
  case (Suc n)
  let ?l = "ioa_len (ioa_size a) + len"
  from Suc.prems obtain b where b: "ioa_fits (ioa_size a) b"
      "decode_ioa bo buf (ioa_size a) = Ok (b, drop (ioa_len (ioa_size a)) buf)"
    using ioa.dec_long [of "ioa_size a" buf] by auto
  from Suc.prems have "len \<le> length (drop (ioa_len (ioa_size a)) buf)" by simp
  then obtain e where e: "ok e" "dec (drop (ioa_len (ioa_size a)) buf) = Ok (e, drop ?l buf)"
    using codec.dec_long [OF assms(1)] by (metis add.commute drop_drop)
  from Suc.prems have "n * ?l \<le> length (drop ?l buf)" by simp
  from Suc.IH [OF this, of "acc @ [(b, e)]"] obtain xs where
    "decode_single_loop bo n a dec (acc @ [(b, e)]) (drop ?l buf) = Ok (acc @ (b, e) # xs, drop (n * ?l) (drop ?l buf))"
    "length xs = n" "list_all (\<lambda>(_, e). ok e) xs" "list_all (\<lambda>(ioa, _). ioa_fits (ioa_size a) ioa) xs" by auto
  with b e show ?case by (intro exI [of _ "(b, e) # xs"]) (simp add: add.commute)
qed simp

lemma decode_single_short:
  assumes "codec enc dec len ok" and "length buf < n * (ioa_len (ioa_size a) + len)"
  shows "\<exists>m h. decode_single_loop bo n a dec acc buf = Err (Incomplete m h)"
  using assms(2)
proof (induction n arbitrary: acc buf)
  case (Suc n)
  let ?l = "ioa_len (ioa_size a) + len"
  have split: "decode_single_loop bo (Suc n) a dec acc buf =
      and_then (and_then (decode_ioa bo buf (ioa_size a)) (\<lambda>(ioa, buf). and_then (dec buf) (\<lambda>(e, buf). Ok ((ioa, e), buf))))
        (\<lambda>(x, buf). decode_single_loop bo n a dec (acc @ [x]) buf)"
    by (simp add: and_then_assoc split_def)
  show ?case
  proof (cases "?l \<le> length buf")
    case True
    from codec.dec_long [OF object_codec [OF assms(1), of "ioa_size a"], OF this]
    obtain x where x: "and_then (decode_ioa bo buf (ioa_size a)) (\<lambda>(ioa, buf). and_then (dec buf) (\<lambda>(e, buf). Ok ((ioa, e), buf)))
      = Ok (x, drop ?l buf)" by blast
    from Suc.prems True have "length (drop ?l buf) < n * ?l" by simp
    from Suc.IH [OF this] show ?thesis unfolding split x by simp
  next
    case False
    with codec.dec_short [OF object_codec [OF assms(1), of "ioa_size a"], of buf] show ?thesis unfolding split by auto
  qed
qed simp

lemma decode_io_list_long:
  assumes "codec enc dec len ok" and "io_list_len len vsq a \<le> length buf"
  shows "\<exists>xs. decode_io_list bo buf vsq a dec = Ok (xs, drop (io_list_len len vsq a) buf) \<and>
    objects_fit ok vsq a xs \<and> received_objects vsq xs = xs"
proof (cases "vsq_sequence vsq")
  case False
  have "received_objects vsq xs = xs" for xs :: "(Ioa \<times> 'a) list"
    using False by (cases "(vsq, xs)" rule: received_objects.cases) auto
  with False assms(2) decode_single_long [OF assms(1), of "unat (vsq_count vsq)" a buf "[]"] show ?thesis
    by (auto simp: decode_io_list_def io_list_len_def objects_fit_def Let_def)
next
  case True
  let ?n = "unat (vsq_count vsq)" and ?a = "ioa_len (ioa_size a)"
  show ?thesis
  proof (cases "?n = 0")
    case False
    with True assms(2) have "?a \<le> length buf" "?n * len \<le> length (drop ?a buf)"
      by (auto simp: io_list_len_def Let_def)
    then obtain b where b: "ioa_fits (ioa_size a) (Ioa b)" "decode_ioa bo buf (ioa_size a) = Ok (Ioa b, drop ?a buf)"
      using ioa.dec_long [of "ioa_size a" buf] by (metis Ioa.exhaust)
    obtain xs where xs: "decode_sequence_loop ?n 0 b dec [] (drop ?a buf) = Ok (xs, drop (?n * len) (drop ?a buf))"
      "length xs = ?n" "list_all (\<lambda>(_, e). ok e) xs" "renumber b 0 xs = xs"
      using decode_sequence_long [OF assms(1) \<open>?n * len \<le> length (drop ?a buf)\<close>, of 0 b "[]"] by auto
    from xs(2) False have "xs \<noteq> []" by auto
    then obtain e ys where "xs = (Ioa b, e) # ys"
      using renumber_hd [OF xs(4)] by blast
    with True False b xs show ?thesis
      by (intro exI [of _ xs]) (simp add: decode_io_list_def io_list_len_def objects_fit_def Let_def add.commute
        del: renumber.simps)
  qed (use True in \<open>auto simp: decode_io_list_def io_list_len_def objects_fit_def Let_def\<close>)
qed

lemma decode_io_list_short:
  assumes "codec enc dec len ok" and "length buf < io_list_len len vsq a"
  shows "\<exists>m h. decode_io_list bo buf vsq a dec = Err (Incomplete m h)"
proof (cases "vsq_sequence vsq")
  case False
  with assms decode_single_short [OF assms(1)] show ?thesis
    by (simp add: decode_io_list_def io_list_len_def Let_def)
next
  case True
  let ?n = "unat (vsq_count vsq)" and ?a = "ioa_len (ioa_size a)"
  from True assms(2) have l: "?n \<noteq> 0" "length buf < ?a + ?n * len" by (auto simp: io_list_len_def Let_def split: if_splits)
  show ?thesis
  proof (cases "?a \<le> length buf")
    case False
    then show ?thesis using True l ioa.dec_short [of buf "ioa_size a"] by (auto simp: decode_io_list_def Let_def)
  next
    case le: True
    then obtain b where "decode_ioa bo buf (ioa_size a) = Ok (Ioa b, drop ?a buf)"
      using ioa.dec_long [of "ioa_size a" buf] by (metis Ioa.exhaust)
    moreover from l le have "length (drop ?a buf) < ?n * len" by simp
    ultimately show ?thesis using True l decode_sequence_short [OF assms(1)] by (simp add: decode_io_list_def Let_def)
  qed
qed

end

section \<open>The trait \<^verbatim>\<open>AsduPayload\<close>\<close>

record 'p payload_impl =
  TYPE_ID :: u8
  encode_information_objects :: "'p \<Rightarrow> octets \<Rightarrow> Vsq \<Rightarrow> AsduAddressing \<Rightarrow> octets"
  decode_information_objects :: "octets \<Rightarrow> Vsq \<Rightarrow> AsduAddressing \<Rightarrow> ('p \<times> octets) outcome"

section \<open>The envelope\<close>

record Asdu =
  asdu_type_id :: u8
  asdu_vsq :: Vsq
  asdu_cot :: Cot
  asdu_ca :: CommonAddress
  asdu_payload :: octets

definition Asdu_header_len :: "AsduAddressing \<Rightarrow> nat" where
  "Asdu_header_len addressing =
     1 + Vsq_LEN + AsduAddressing_cot_len addressing + AsduAddressing_ca_len addressing"

definition Asdu_new :: "u8 \<Rightarrow> Vsq \<Rightarrow> Cot \<Rightarrow> CommonAddress \<Rightarrow> octets \<Rightarrow> Asdu" where
  "Asdu_new type_id vsq cot ca payload =
     \<lparr> asdu_type_id = type_id, asdu_vsq = vsq, asdu_cot = cot, asdu_ca = ca, asdu_payload = payload \<rparr>"

definition Asdu_from_payload ::
    "'p payload_impl \<Rightarrow> Cot \<Rightarrow> CommonAddress \<Rightarrow> Vsq \<Rightarrow> 'p \<Rightarrow> AsduAddressing \<Rightarrow> Asdu" where
  "Asdu_from_payload P cot ca vsq payload addressing =
     \<lparr> asdu_type_id = TYPE_ID P, asdu_vsq = vsq, asdu_cot = cot, asdu_ca = ca,
       asdu_payload = encode_information_objects P payload [] vsq addressing \<rparr>"

definition Asdu_decode_payload :: "'p payload_impl \<Rightarrow> Asdu \<Rightarrow> AsduAddressing \<Rightarrow> 'p outcome" where
  "Asdu_decode_payload P self addressing =
     (if asdu_type_id self \<noteq> TYPE_ID P then Err (UnknownAsduType (asdu_type_id self))
      else and_then (decode_information_objects P (asdu_payload self) (asdu_vsq self) addressing) (\<lambda>(p, _). Ok p))"

definition Asdu_encode :: "bytes_api \<Rightarrow> Asdu \<Rightarrow> octets \<Rightarrow> AsduAddressing \<Rightarrow> octets" where
  "Asdu_encode bo self buf addressing =
     (let buf = put_u8 bo buf (asdu_type_id self);
          buf = Vsq_encode bo (asdu_vsq self) buf;
          buf = (case cot_size addressing of
                   CotSize_One \<Rightarrow> Cot_encode_1 bo (asdu_cot self) buf
                 | CotSize_Two \<Rightarrow> Cot_encode_2 bo (asdu_cot self) buf);
          buf = encode_ca bo buf (asdu_ca self) (ca_size addressing)
      in put_slice bo buf (asdu_payload self))"

definition Asdu_encode_to_vec :: "bytes_api \<Rightarrow> Asdu \<Rightarrow> AsduAddressing \<Rightarrow> octets" where
  "Asdu_encode_to_vec bo self addressing = Asdu_encode bo self [] addressing"

definition Asdu_decode :: "bytes_api \<Rightarrow> octets \<Rightarrow> AsduAddressing \<Rightarrow> (Asdu \<times> octets) outcome" where
  "Asdu_decode bo buf addressing =
     (let header_len = Asdu_header_len addressing
      in if remaining bo buf < header_len then Err (Incomplete header_len (remaining bo buf))
         else and_then (get_u8 bo buf) (\<lambda>(type_id, buf).
              and_then (Vsq_decode bo buf) (\<lambda>(vsq, buf).
              and_then (case cot_size addressing of
                          CotSize_One \<Rightarrow> Cot_decode_1 bo buf
                        | CotSize_Two \<Rightarrow> Cot_decode_2 bo buf) (\<lambda>(cot, buf).
              and_then (decode_ca bo buf (ca_size addressing)) (\<lambda>(ca, buf).
              and_then (copy_to_slice bo buf (remaining bo buf)) (\<lambda>(payload, buf).
                Ok (\<lparr> asdu_type_id = type_id, asdu_vsq = vsq, asdu_cot = cot, asdu_ca = ca,
                      asdu_payload = payload \<rparr>, buf)))))))"

definition cot_fits :: "CotSize \<Rightarrow> Cot \<Rightarrow> bool" where
  "cot_fits sz c \<longleftrightarrow> (case sz of CotSize_One \<Rightarrow> Cot_wf_1 c | CotSize_Two \<Rightarrow> Cot_wf c)"

definition header_fits :: "AsduAddressing \<Rightarrow> Vsq \<Rightarrow> Cot \<Rightarrow> CommonAddress \<Rightarrow> bool" where
  "header_fits addressing vsq cot ca \<longleftrightarrow>
     Vsq_wf vsq \<and> cot_fits (cot_size addressing) cot \<and> ca_fits (ca_size addressing) ca"

definition asdu_fits :: "AsduAddressing \<Rightarrow> Asdu \<Rightarrow> bool" where
  "asdu_fits addressing x \<longleftrightarrow> header_fits addressing (asdu_vsq x) (asdu_cot x) (asdu_ca x)"

context bytes_crate
begin

definition cot_enc :: "CotSize \<Rightarrow> Cot \<Rightarrow> octets \<Rightarrow> octets" where
  "cot_enc sz = (case sz of CotSize_One \<Rightarrow> Cot_encode_1 bo | CotSize_Two \<Rightarrow> Cot_encode_2 bo)"

definition cot_dec :: "CotSize \<Rightarrow> octets \<Rightarrow> (Cot \<times> octets) outcome" where
  "cot_dec sz = (case sz of CotSize_One \<Rightarrow> Cot_decode_1 bo | CotSize_Two \<Rightarrow> Cot_decode_2 bo)"

lemma case_cot:
  "(case sz of CotSize_One \<Rightarrow> Cot_encode_1 bo c buf | CotSize_Two \<Rightarrow> Cot_encode_2 bo c buf) = cot_enc sz c buf"
  "(case sz of CotSize_One \<Rightarrow> Cot_decode_1 bo buf | CotSize_Two \<Rightarrow> Cot_decode_2 bo buf) = cot_dec sz buf"
  by (cases sz; simp add: cot_enc_def cot_dec_def)+

end

sublocale bytes_crate \<subseteq> cot: exact_codec "cot_enc sz" "cot_dec sz"
  "case sz of CotSize_One \<Rightarrow> Cot_LEN_1 | CotSize_Two \<Rightarrow> Cot_LEN_2" "cot_fits sz" for sz
proof -
  have *: "cot_fits sz = (case sz of CotSize_One \<Rightarrow> Cot_wf_1 | CotSize_Two \<Rightarrow> Cot_wf)"
    by (cases sz) (auto simp: cot_fits_def fun_eq_iff)
  show "exact_codec (cot_enc sz) (cot_dec sz) (case sz of CotSize_One \<Rightarrow> Cot_LEN_1 | CotSize_Two \<Rightarrow> Cot_LEN_2) (cot_fits sz)"
    unfolding * by (cases sz) (simp_all add: cot_enc_def cot_dec_def cot1.exact_codec_axioms cot2.exact_codec_axioms)
qed

context bytes_crate
begin

definition header_wire :: "AsduAddressing \<Rightarrow> Asdu \<Rightarrow> octets" where
  "header_wire a x = asdu_type_id x # vsq.wire (asdu_vsq x) @ cot.wire (cot_size a) (asdu_cot x) @
     ca_wire (ca_size a) (asdu_ca x)"

lemma Asdu_encode_wire: "Asdu_encode bo x buf a = buf @ header_wire a x @ asdu_payload x"
  by (simp add: Asdu_encode_def case_cot vsq.enc_wire cot.enc_wire encode_ca_wire put_simps header_wire_def)

lemma header_wire_length: "length (header_wire a x) = Asdu_header_len a"
  by (simp add: header_wire_def Asdu_header_len_def vsq.wire_length cot.wire_length address_wire_length
    AsduAddressing_cot_len_def AsduAddressing_ca_len_def ca_len_def)

lemma Asdu_encode_append: "Asdu_encode bo x buf a = buf @ Asdu_encode bo x [] a"
  by (simp add: Asdu_encode_wire)

lemma Asdu_encode_length: "length (Asdu_encode bo x buf a) = length buf + Asdu_header_len a + length (asdu_payload x)"
  by (simp add: Asdu_encode_wire header_wire_length)

lemma Asdu_decode_encode:
  assumes "asdu_fits a x"
  shows "Asdu_decode bo (Asdu_encode bo x [] a) a = Ok (x, [])"
proof -
  have "\<not> remaining bo (Asdu_encode bo x [] a) < Asdu_header_len a"
    by (simp add: remaining Asdu_encode_length)
  with assms show ?thesis
    by (simp add: Asdu_decode_def case_cot asdu_fits_def header_fits_def Asdu_encode_wire header_wire_def get_simps
      vsq.dec_wire cot.dec_wire decode_ca_wire)
qed

lemma Asdu_decode_short: "length buf < Asdu_header_len a \<Longrightarrow>
    Asdu_decode bo buf a = Err (Incomplete (Asdu_header_len a) (length buf))"
  by (simp add: Asdu_decode_def remaining)

lemma Asdu_decode_long:
  assumes "Asdu_header_len a \<le> length buf"
  shows "\<exists>x. Asdu_decode bo buf a = Ok (x, []) \<and> asdu_fits a x \<and> Asdu_encode bo x [] a = buf"
proof -
  from assms obtain t buf1 where t: "buf = t # buf1"
    by (cases buf) (auto simp: Asdu_header_len_def)
  let ?c = "AsduAddressing_cot_len a" and ?l = "ca_len (ca_size a)"
  from assms t have len: "Vsq_LEN \<le> length buf1" "?c \<le> length (drop Vsq_LEN buf1)"
      "?l \<le> length (drop ?c (drop Vsq_LEN buf1))"
    by (simp_all add: Asdu_header_len_def AsduAddressing_ca_len_def ca_len_def)
  obtain v where v: "Vsq_wf v" "Vsq_decode bo buf1 = Ok (v, drop Vsq_LEN buf1)"
    using vsq.dec_long [OF len(1)] by blast
  obtain c where c: "cot_fits (cot_size a) c"
      "cot_dec (cot_size a) (drop Vsq_LEN buf1) = Ok (c, drop ?c (drop Vsq_LEN buf1))"
    using cot.dec_long len(2) unfolding AsduAddressing_cot_len_def by blast
  obtain d where d: "ca_fits (ca_size a) d" "decode_ca bo (drop ?c (drop Vsq_LEN buf1)) (ca_size a) =
      Ok (d, drop ?l (drop ?c (drop Vsq_LEN buf1)))"
    using ca.dec_long [OF len(3)] by blast
  let ?x = "\<lparr> asdu_type_id = t, asdu_vsq = v, asdu_cot = c, asdu_ca = d,
    asdu_payload = drop ?l (drop ?c (drop Vsq_LEN buf1)) \<rparr>"
  have "Asdu_decode bo buf a = Ok (?x, [])"
    using assms unfolding Asdu_decode_def case_cot by (simp add: t get_simps v c d del: drop_drop)
  moreover have "Asdu_encode bo ?x [] a = buf"
    by (simp add: Asdu_encode_wire header_wire_def t vsq.wire_dec [OF v(2), symmetric]
      cot.wire_dec [OF c(2), symmetric] ca_wire_dec [OF d(2), symmetric] del: drop_drop)
  ultimately show ?thesis using v(1) c(1) d(1) by (auto simp: asdu_fits_def header_fits_def)
qed

lemma Asdu_decode_not_panic: "Asdu_decode bo buf a \<noteq> Panic"
  using Asdu_decode_long [of a buf] Asdu_decode_short [of buf a] by (cases "Asdu_header_len a \<le> length buf") auto

end

section \<open>The contract of a payload type\<close>

text \<open>
  \<open>fits\<close> are the payloads the configured widths and the qualifier can carry.  The decoder recovers
  them, whatever follows; it never panics; and everything it returns fits, so that it would survive
  another round.
\<close>

locale payload_contract =
  fixes P :: "'p payload_impl"
    and fits :: "Vsq \<Rightarrow> AsduAddressing \<Rightarrow> 'p \<Rightarrow> bool"
  assumes enc_append: "encode_information_objects P p buf vsq a = buf @ encode_information_objects P p [] vsq a"
    and dec_enc: "fits vsq a p \<Longrightarrow>
      decode_information_objects P (encode_information_objects P p [] vsq a @ rest) vsq a = Ok (p, rest)"
    and dec_total: "decode_information_objects P buf vsq a \<noteq> Panic"
    and dec_fits: "decode_information_objects P buf vsq a = Ok (p, rest) \<Longrightarrow> fits vsq a p"
begin

lemma payload_roundtrip:
  assumes "fits vsq a p"
  shows "Asdu_decode_payload P (Asdu_from_payload P cot ca vsq p a) a = Ok p"
  using dec_enc [OF assms, of "[]"] by (simp add: Asdu_decode_payload_def Asdu_from_payload_def)

lemma asdu_roundtrip:
  assumes "bytes_crate bo" and "fits vsq a p" and "header_fits a vsq cot ca"
  shows "\<exists>x. Asdu_decode bo (Asdu_encode bo (Asdu_from_payload P cot ca vsq p a) [] a) a = Ok (x, []) \<and>
    asdu_type_id x = TYPE_ID P \<and> asdu_vsq x = vsq \<and> asdu_cot x = cot \<and> asdu_ca x = ca \<and>
    Asdu_decode_payload P x a = Ok p"
  using bytes_crate.Asdu_decode_encode [OF assms(1), of a "Asdu_from_payload P cot ca vsq p a"]
    payload_roundtrip [OF assms(2), of cot ca] assms(3)
  by (simp add: asdu_fits_def Asdu_from_payload_def)

lemma payload_no_panic: "Asdu_decode_payload P x a \<noteq> Panic"
  using dec_total [of "asdu_payload x" "asdu_vsq x" a] by (auto simp: Asdu_decode_payload_def and_then_Panic_iff)

lemma payload_canonical:
  assumes "Asdu_decode_payload P x a = Ok p"
  shows "fits (asdu_vsq x) a p"
  using assms dec_fits [of "asdu_payload x" "asdu_vsq x" a] by (auto simp: Asdu_decode_payload_def and_then_Ok_iff split: if_splits)

lemma payload_reencode:
  assumes "Asdu_decode_payload P x a = Ok p"
  shows "Asdu_decode_payload P (Asdu_from_payload P cot ca (asdu_vsq x) p a) a = Ok p"
  by (rule payload_roundtrip [OF payload_canonical [OF assms]])

end

text \<open>A list of information objects, the shape most payload types have.\<close>

record 'e io_objects =
  objects :: "(Ioa \<times> 'e) list"

definition io_fits :: "('e \<Rightarrow> bool) \<Rightarrow> Vsq \<Rightarrow> AsduAddressing \<Rightarrow> 'e io_objects \<Rightarrow> bool" where
  "io_fits ok vsq a p \<longleftrightarrow> objects_fit ok vsq a (objects p) \<and> received_objects vsq (objects p) = objects p"

context bytes_crate
begin

lemma io_list_contract:
  fixes P :: "'p payload_impl" and objs :: "'p \<Rightarrow> (Ioa \<times> 'e) list"
  assumes c: "codec write read len ok"
    and iso: "\<And>p. mk (objs p) = p" "\<And>xs. objs (mk xs) = xs"
    and e: "\<And>self buf vsq a. encode_information_objects P self buf vsq a = encode_io_list bo buf (objs self) vsq a write"
    and d: "\<And>buf vsq a. decode_information_objects P buf vsq a =
      and_then (decode_io_list bo buf vsq a read) (\<lambda>(xs, buf). Ok (mk xs, buf))"
    and f: "\<And>vsq a p. fits vsq a p \<longleftrightarrow> objects_fit ok vsq a (objs p) \<and> received_objects vsq (objs p) = objs p"
  shows "payload_contract P fits"
proof (unfold_locales, goal_cases)
  case (1 p buf vsq a)
  show ?case unfolding e by (rule encode_io_list_append [OF c])
next
  case (2 vsq a p rest)
  then show ?case by (simp add: e d f iso decode_encode_io_list [OF c])
next
  case (3 buf vsq a)
  show ?case using decode_io_list_long [OF c, of vsq a buf] decode_io_list_short [OF c, of buf vsq a]
    by (cases "io_list_len len vsq a \<le> length buf") (auto simp: d)
next
  case (4 buf vsq a p rest)
  then show ?case using decode_io_list_long [OF c, of vsq a buf] decode_io_list_short [OF c, of buf vsq a]
    by (cases "io_list_len len vsq a \<le> length buf") (auto simp: d f iso)
qed

end

text \<open>A single object of fixed shape behind its address.\<close>

lemma fixed_payload_contract:
  assumes c: "\<And>sz. codec (e sz) (d sz) (n sz) (ok sz)"
    and enc: "\<And>self buf vsq a. encode_information_objects P self buf vsq a = e (ioa_size a) self buf"
    and dec: "\<And>buf vsq a. decode_information_objects P buf vsq a = d (ioa_size a) buf"
  shows "payload_contract P (\<lambda>_ a. ok (ioa_size a))"
proof (unfold_locales, goal_cases)
  case (1 p buf vsq a) show ?case unfolding enc by (rule codec.enc_append [OF c])
next
  case (2 vsq a p rest) then show ?case unfolding enc dec by (rule codec.dec_enc [OF c])
next
  case (3 buf vsq a) show ?case unfolding dec by (rule codec.dec_not_panic [OF c])
next
  case (4 buf vsq a p rest) then show ?case unfolding dec by (auto dest: codec.dec_Ok_wf [OF c])
qed

lemma record_payload_contract:
  assumes c: "\<And>sz. codec (e sz) (d sz) (n sz) (ok sz)"
    and iso: "\<And>x. g (f x) = x" "\<And>y. f (g y) = y"
    and enc: "\<And>self buf vsq a. encode_information_objects P self buf vsq a = e (ioa_size a) (f self) buf"
    and dec: "\<And>buf vsq a. decode_information_objects P buf vsq a =
      and_then (d (ioa_size a) buf) (\<lambda>(y, buf). Ok (g y, buf))"
    and fits: "\<And>sz x. fits sz x = ok sz (f x)"
  shows "payload_contract P (\<lambda>_ a. fits (ioa_size a))"
proof (rule fixed_payload_contract)
  show "codec (\<lambda>x buf. e sz (f x) buf) (\<lambda>buf. and_then (d sz buf) (\<lambda>(y, buf). Ok (g y, buf))) (n sz) (fits sz)" for sz
    by (rule codec_iso [OF c iso]) (simp_all add: fits)
qed (simp_all add: enc dec)

end
