(* ===== verification/Types_Monitor.thy ===== *)
theory Types_Monitor
  imports Asdu_Envelope
begin

text \<open>
  Monitor-direction payload types, \<^verbatim>\<open>crates/iec60870-proto/src/asdu/types/monitor.rs\<close>.  The macro
  \<^verbatim>\<open>io_payload!\<close> is the definition \<open>io_payload\<close>, its expansions are the \<open>M_..._impl\<close> dictionaries;
  the adapter traits \<^verbatim>\<open>IeWrite\<close>/\<^verbatim>\<open>IeRead\<close> are one pair of functions per value type.  Every type
  is shown to meet \<open>payload_contract\<close>.
\<close>

section \<open>The macro\<close>

definition io_payload ::
    "bytes_api \<Rightarrow> u8 \<Rightarrow> ('e \<Rightarrow> octets \<Rightarrow> octets) \<Rightarrow> (octets \<Rightarrow> ('e \<times> octets) outcome) \<Rightarrow> 'e io_objects payload_impl" where
  "io_payload bo tid write read =
     \<lparr> TYPE_ID = tid,
       encode_information_objects = (\<lambda>self buf vsq addressing.
         encode_io_list bo buf (objects self) vsq addressing write),
       decode_information_objects = (\<lambda>buf vsq addressing.
         and_then (decode_io_list bo buf vsq addressing read) (\<lambda>(xs, buf). Ok (\<lparr> objects = xs \<rparr>, buf))) \<rparr>"

section \<open>Adapter traits\<close>

definition Siq_write :: "bytes_api \<Rightarrow> Siq \<Rightarrow> octets \<Rightarrow> octets" where
  "Siq_write bo self buf = Siq_encode bo self buf"

definition Siq_read :: "bytes_api \<Rightarrow> octets \<Rightarrow> (Siq \<times> octets) outcome" where
  "Siq_read bo buf = Siq_decode bo buf"

definition Diq_write :: "bytes_api \<Rightarrow> Diq \<Rightarrow> octets \<Rightarrow> octets" where
  "Diq_write bo self buf = Diq_encode bo self buf"

definition Diq_read :: "bytes_api \<Rightarrow> octets \<Rightarrow> (Diq \<times> octets) outcome" where
  "Diq_read bo buf = Diq_decode bo buf"

definition Nva_Qds_write :: "bytes_api \<Rightarrow> Nva \<times> Qds \<Rightarrow> octets \<Rightarrow> octets" where
  "Nva_Qds_write bo = (\<lambda>(x, y) buf. Qds_encode bo y (Nva_encode bo x buf))"

definition Nva_Qds_read :: "bytes_api \<Rightarrow> octets \<Rightarrow> ((Nva \<times> Qds) \<times> octets) outcome" where
  "Nva_Qds_read bo buf =
     and_then (Nva_decode bo buf) (\<lambda>(x, buf). and_then (Qds_decode bo buf) (\<lambda>(y, buf). Ok ((x, y), buf)))"

definition Sva_Qds_write :: "bytes_api \<Rightarrow> Sva \<times> Qds \<Rightarrow> octets \<Rightarrow> octets" where
  "Sva_Qds_write bo = (\<lambda>(x, y) buf. Qds_encode bo y (Sva_encode bo x buf))"

definition Sva_Qds_read :: "bytes_api \<Rightarrow> octets \<Rightarrow> ((Sva \<times> Qds) \<times> octets) outcome" where
  "Sva_Qds_read bo buf =
     and_then (Sva_decode bo buf) (\<lambda>(x, buf). and_then (Qds_decode bo buf) (\<lambda>(y, buf). Ok ((x, y), buf)))"

definition R32_Qds_write :: "bytes_api \<Rightarrow> R32 \<times> Qds \<Rightarrow> octets \<Rightarrow> octets" where
  "R32_Qds_write bo = (\<lambda>(x, y) buf. Qds_encode bo y (R32_encode bo x buf))"

definition R32_Qds_read :: "bytes_api \<Rightarrow> octets \<Rightarrow> ((R32 \<times> Qds) \<times> octets) outcome" where
  "R32_Qds_read bo buf =
     and_then (R32_decode bo buf) (\<lambda>(x, buf). and_then (Qds_decode bo buf) (\<lambda>(y, buf). Ok ((x, y), buf)))"

definition Siq_Cp56Time2a_write :: "bytes_api \<Rightarrow> Siq \<times> Cp56Time2a \<Rightarrow> octets \<Rightarrow> octets" where
  "Siq_Cp56Time2a_write bo = (\<lambda>(x, y) buf. Cp56Time2a_encode bo y (Siq_encode bo x buf))"

definition Siq_Cp56Time2a_read :: "bytes_api \<Rightarrow> octets \<Rightarrow> ((Siq \<times> Cp56Time2a) \<times> octets) outcome" where
  "Siq_Cp56Time2a_read bo buf =
     and_then (Siq_decode bo buf) (\<lambda>(x, buf). and_then (Cp56Time2a_decode bo buf) (\<lambda>(y, buf). Ok ((x, y), buf)))"

definition Diq_Cp56Time2a_write :: "bytes_api \<Rightarrow> Diq \<times> Cp56Time2a \<Rightarrow> octets \<Rightarrow> octets" where
  "Diq_Cp56Time2a_write bo = (\<lambda>(x, y) buf. Cp56Time2a_encode bo y (Diq_encode bo x buf))"

definition Diq_Cp56Time2a_read :: "bytes_api \<Rightarrow> octets \<Rightarrow> ((Diq \<times> Cp56Time2a) \<times> octets) outcome" where
  "Diq_Cp56Time2a_read bo buf =
     and_then (Diq_decode bo buf) (\<lambda>(x, buf). and_then (Cp56Time2a_decode bo buf) (\<lambda>(y, buf). Ok ((x, y), buf)))"

definition Nva_Qds_Cp56Time2a_write :: "bytes_api \<Rightarrow> Nva \<times> Qds \<times> Cp56Time2a \<Rightarrow> octets \<Rightarrow> octets" where
  "Nva_Qds_Cp56Time2a_write bo = (\<lambda>(x, y, z) buf. Cp56Time2a_encode bo z (Qds_encode bo y (Nva_encode bo x buf)))"

definition Nva_Qds_Cp56Time2a_read :: "bytes_api \<Rightarrow> octets \<Rightarrow> ((Nva \<times> Qds \<times> Cp56Time2a) \<times> octets) outcome" where
  "Nva_Qds_Cp56Time2a_read bo buf =
     and_then (Nva_decode bo buf) (\<lambda>(x, buf). and_then (Qds_decode bo buf) (\<lambda>(y, buf).
       and_then (Cp56Time2a_decode bo buf) (\<lambda>(z, buf). Ok ((x, y, z), buf))))"

definition Sva_Qds_Cp56Time2a_write :: "bytes_api \<Rightarrow> Sva \<times> Qds \<times> Cp56Time2a \<Rightarrow> octets \<Rightarrow> octets" where
  "Sva_Qds_Cp56Time2a_write bo = (\<lambda>(x, y, z) buf. Cp56Time2a_encode bo z (Qds_encode bo y (Sva_encode bo x buf)))"

definition Sva_Qds_Cp56Time2a_read :: "bytes_api \<Rightarrow> octets \<Rightarrow> ((Sva \<times> Qds \<times> Cp56Time2a) \<times> octets) outcome" where
  "Sva_Qds_Cp56Time2a_read bo buf =
     and_then (Sva_decode bo buf) (\<lambda>(x, buf). and_then (Qds_decode bo buf) (\<lambda>(y, buf).
       and_then (Cp56Time2a_decode bo buf) (\<lambda>(z, buf). Ok ((x, y, z), buf))))"

definition R32_Qds_Cp56Time2a_write :: "bytes_api \<Rightarrow> R32 \<times> Qds \<times> Cp56Time2a \<Rightarrow> octets \<Rightarrow> octets" where
  "R32_Qds_Cp56Time2a_write bo = (\<lambda>(x, y, z) buf. Cp56Time2a_encode bo z (Qds_encode bo y (R32_encode bo x buf)))"

definition R32_Qds_Cp56Time2a_read :: "bytes_api \<Rightarrow> octets \<Rightarrow> ((R32 \<times> Qds \<times> Cp56Time2a) \<times> octets) outcome" where
  "R32_Qds_Cp56Time2a_read bo buf =
     and_then (R32_decode bo buf) (\<lambda>(x, buf). and_then (Qds_decode bo buf) (\<lambda>(y, buf).
       and_then (Cp56Time2a_decode bo buf) (\<lambda>(z, buf). Ok ((x, y, z), buf))))"

section \<open>The types\<close>

type_synonym M_SP_NA_1 = "Siq io_objects"

definition M_SP_NA_1_impl :: "bytes_api \<Rightarrow> M_SP_NA_1 payload_impl" where
  "M_SP_NA_1_impl bo = io_payload bo 1 (Siq_write bo) (Siq_read bo)"

type_synonym M_DP_NA_1 = "Diq io_objects"

definition M_DP_NA_1_impl :: "bytes_api \<Rightarrow> M_DP_NA_1 payload_impl" where
  "M_DP_NA_1_impl bo = io_payload bo 3 (Diq_write bo) (Diq_read bo)"

type_synonym M_ME_NA_1 = "(Nva \<times> Qds) io_objects"

definition M_ME_NA_1_impl :: "bytes_api \<Rightarrow> M_ME_NA_1 payload_impl" where
  "M_ME_NA_1_impl bo = io_payload bo 9 (Nva_Qds_write bo) (Nva_Qds_read bo)"

type_synonym M_ME_NB_1 = "(Sva \<times> Qds) io_objects"

definition M_ME_NB_1_impl :: "bytes_api \<Rightarrow> M_ME_NB_1 payload_impl" where
  "M_ME_NB_1_impl bo = io_payload bo 11 (Sva_Qds_write bo) (Sva_Qds_read bo)"

type_synonym M_ME_NC_1 = "(R32 \<times> Qds) io_objects"

definition M_ME_NC_1_impl :: "bytes_api \<Rightarrow> M_ME_NC_1 payload_impl" where
  "M_ME_NC_1_impl bo = io_payload bo 13 (R32_Qds_write bo) (R32_Qds_read bo)"

type_synonym M_SP_TB_1 = "(Siq \<times> Cp56Time2a) io_objects"

definition M_SP_TB_1_impl :: "bytes_api \<Rightarrow> M_SP_TB_1 payload_impl" where
  "M_SP_TB_1_impl bo = io_payload bo 30 (Siq_Cp56Time2a_write bo) (Siq_Cp56Time2a_read bo)"

type_synonym M_DP_TB_1 = "(Diq \<times> Cp56Time2a) io_objects"

definition M_DP_TB_1_impl :: "bytes_api \<Rightarrow> M_DP_TB_1 payload_impl" where
  "M_DP_TB_1_impl bo = io_payload bo 31 (Diq_Cp56Time2a_write bo) (Diq_Cp56Time2a_read bo)"

type_synonym M_ME_TD_1 = "(Nva \<times> Qds \<times> Cp56Time2a) io_objects"

definition M_ME_TD_1_impl :: "bytes_api \<Rightarrow> M_ME_TD_1 payload_impl" where
  "M_ME_TD_1_impl bo = io_payload bo 34 (Nva_Qds_Cp56Time2a_write bo) (Nva_Qds_Cp56Time2a_read bo)"

type_synonym M_ME_TE_1 = "(Sva \<times> Qds \<times> Cp56Time2a) io_objects"

definition M_ME_TE_1_impl :: "bytes_api \<Rightarrow> M_ME_TE_1 payload_impl" where
  "M_ME_TE_1_impl bo = io_payload bo 35 (Sva_Qds_Cp56Time2a_write bo) (Sva_Qds_Cp56Time2a_read bo)"

type_synonym M_ME_TF_1 = "(R32 \<times> Qds \<times> Cp56Time2a) io_objects"

definition M_ME_TF_1_impl :: "bytes_api \<Rightarrow> M_ME_TF_1 payload_impl" where
  "M_ME_TF_1_impl bo = io_payload bo 36 (R32_Qds_Cp56Time2a_write bo) (R32_Qds_Cp56Time2a_read bo)"

section \<open>Every type meets the contract\<close>

text \<open>The values each wire shape carries exactly.\<close>

definition plain :: "'a \<Rightarrow> bool" where
  "plain _ = True"

definition timed :: "'a \<times> Cp56Time2a \<Rightarrow> bool" where
  "timed = (\<lambda>(_, t). Cp56Time2a_wf t)"

definition timed_value :: "'a \<times> 'b \<times> Cp56Time2a \<Rightarrow> bool" where
  "timed_value = (\<lambda>(_, _, t). Cp56Time2a_wf t)"

context bytes_crate
begin

lemma io_payload_contract: "codec write read len ok \<Longrightarrow> payload_contract (io_payload bo tid write read) (io_fits ok)"
  by (rule io_list_contract [where mk = "\<lambda>xs. \<lparr> objects = xs \<rparr>" and objs = objects])
    (simp_all add: io_payload_def io_fits_def)

lemma Siq_io_codec: "codec (Siq_write bo) (Siq_read bo) Siq_LEN plain"
  by (rule codec_cong [OF siq.codec_axioms]) (simp_all add: Siq_write_def Siq_read_def plain_def)

lemma Diq_io_codec: "codec (Diq_write bo) (Diq_read bo) Diq_LEN plain"
  by (rule codec_cong [OF diq.codec_axioms]) (simp_all add: Diq_write_def Diq_read_def plain_def)

lemma Nva_Qds_io_codec: "codec (Nva_Qds_write bo) (Nva_Qds_read bo) (Nva_LEN + Qds_LEN) plain"
  by (rule codec_cong [OF codec_pair [OF nva.codec_axioms qds.codec_axioms]])
    (auto simp: Nva_Qds_write_def Nva_Qds_read_def plain_def)

lemma Sva_Qds_io_codec: "codec (Sva_Qds_write bo) (Sva_Qds_read bo) (Sva_LEN + Qds_LEN) plain"
  by (rule codec_cong [OF codec_pair [OF sva.codec_axioms qds.codec_axioms]])
    (auto simp: Sva_Qds_write_def Sva_Qds_read_def plain_def)

lemma R32_Qds_io_codec: "codec (R32_Qds_write bo) (R32_Qds_read bo) (R32_LEN + Qds_LEN) plain"
  by (rule codec_cong [OF codec_pair [OF r32.codec_axioms qds.codec_axioms]])
    (auto simp: R32_Qds_write_def R32_Qds_read_def plain_def)

lemma Siq_Cp56Time2a_io_codec: "codec (Siq_Cp56Time2a_write bo) (Siq_Cp56Time2a_read bo) (Siq_LEN + Cp56Time2a_LEN) timed"
  by (rule codec_cong [OF codec_pair [OF siq.codec_axioms cp56.codec_axioms]])
    (auto simp: Siq_Cp56Time2a_write_def Siq_Cp56Time2a_read_def timed_def)

lemma Diq_Cp56Time2a_io_codec: "codec (Diq_Cp56Time2a_write bo) (Diq_Cp56Time2a_read bo) (Diq_LEN + Cp56Time2a_LEN) timed"
  by (rule codec_cong [OF codec_pair [OF diq.codec_axioms cp56.codec_axioms]])
    (auto simp: Diq_Cp56Time2a_write_def Diq_Cp56Time2a_read_def timed_def)

lemma Nva_Qds_Cp56Time2a_io_codec: "codec (Nva_Qds_Cp56Time2a_write bo) (Nva_Qds_Cp56Time2a_read bo) (Nva_LEN + Qds_LEN + Cp56Time2a_LEN) timed_value"
  by (rule codec_cong [OF codec_triple [OF nva.codec_axioms qds.codec_axioms cp56.codec_axioms]])
    (auto simp: Nva_Qds_Cp56Time2a_write_def Nva_Qds_Cp56Time2a_read_def timed_value_def)

lemma Sva_Qds_Cp56Time2a_io_codec: "codec (Sva_Qds_Cp56Time2a_write bo) (Sva_Qds_Cp56Time2a_read bo) (Sva_LEN + Qds_LEN + Cp56Time2a_LEN) timed_value"
  by (rule codec_cong [OF codec_triple [OF sva.codec_axioms qds.codec_axioms cp56.codec_axioms]])
    (auto simp: Sva_Qds_Cp56Time2a_write_def Sva_Qds_Cp56Time2a_read_def timed_value_def)

lemma R32_Qds_Cp56Time2a_io_codec: "codec (R32_Qds_Cp56Time2a_write bo) (R32_Qds_Cp56Time2a_read bo) (R32_LEN + Qds_LEN + Cp56Time2a_LEN) timed_value"
  by (rule codec_cong [OF codec_triple [OF r32.codec_axioms qds.codec_axioms cp56.codec_axioms]])
    (auto simp: R32_Qds_Cp56Time2a_write_def R32_Qds_Cp56Time2a_read_def timed_value_def)

end

sublocale bytes_crate \<subseteq> m_sp_na_1: payload_contract "M_SP_NA_1_impl bo" "io_fits plain"
  unfolding M_SP_NA_1_impl_def by (rule io_payload_contract [OF Siq_io_codec])

sublocale bytes_crate \<subseteq> m_dp_na_1: payload_contract "M_DP_NA_1_impl bo" "io_fits plain"
  unfolding M_DP_NA_1_impl_def by (rule io_payload_contract [OF Diq_io_codec])

sublocale bytes_crate \<subseteq> m_me_na_1: payload_contract "M_ME_NA_1_impl bo" "io_fits plain"
  unfolding M_ME_NA_1_impl_def by (rule io_payload_contract [OF Nva_Qds_io_codec])

sublocale bytes_crate \<subseteq> m_me_nb_1: payload_contract "M_ME_NB_1_impl bo" "io_fits plain"
  unfolding M_ME_NB_1_impl_def by (rule io_payload_contract [OF Sva_Qds_io_codec])

sublocale bytes_crate \<subseteq> m_me_nc_1: payload_contract "M_ME_NC_1_impl bo" "io_fits plain"
  unfolding M_ME_NC_1_impl_def by (rule io_payload_contract [OF R32_Qds_io_codec])

sublocale bytes_crate \<subseteq> m_sp_tb_1: payload_contract "M_SP_TB_1_impl bo" "io_fits timed"
  unfolding M_SP_TB_1_impl_def by (rule io_payload_contract [OF Siq_Cp56Time2a_io_codec])

sublocale bytes_crate \<subseteq> m_dp_tb_1: payload_contract "M_DP_TB_1_impl bo" "io_fits timed"
  unfolding M_DP_TB_1_impl_def by (rule io_payload_contract [OF Diq_Cp56Time2a_io_codec])

sublocale bytes_crate \<subseteq> m_me_td_1: payload_contract "M_ME_TD_1_impl bo" "io_fits timed_value"
  unfolding M_ME_TD_1_impl_def by (rule io_payload_contract [OF Nva_Qds_Cp56Time2a_io_codec])

sublocale bytes_crate \<subseteq> m_me_te_1: payload_contract "M_ME_TE_1_impl bo" "io_fits timed_value"
  unfolding M_ME_TE_1_impl_def by (rule io_payload_contract [OF Sva_Qds_Cp56Time2a_io_codec])

sublocale bytes_crate \<subseteq> m_me_tf_1: payload_contract "M_ME_TF_1_impl bo" "io_fits timed_value"
  unfolding M_ME_TF_1_impl_def by (rule io_payload_contract [OF R32_Qds_Cp56Time2a_io_codec])

end
