(* ===== verification/Types_Command.thy ===== *)
theory Types_Command
  imports Types_Monitor
begin

text \<open>
  Control-direction payload types, \<^verbatim>\<open>crates/iec60870-proto/src/asdu/types/command.rs\<close>: the command
  qualifiers, the macro \<^verbatim>\<open>cmd_payload!\<close> with its adapter traits, and its expansions.
\<close>

section \<open>Command qualifiers\<close>

record Sco =
  sco_on :: bool
  sco_qualifier :: u8
  sco_select :: bool

definition Sco_LEN :: nat where "Sco_LEN = 1"

definition Sco_encode :: "bytes_api \<Rightarrow> Sco \<Rightarrow> octets \<Rightarrow> octets" where
  "Sco_encode bo self buf =
     (let b = push_bit 2 (sco_qualifier self AND 0x1F);
          b = (if sco_on self then b OR 0x01 else b);
          b = (if sco_select self then b OR 0x80 else b)
      in put_u8 bo buf b)"

definition Sco_decode :: "bytes_api \<Rightarrow> octets \<Rightarrow> (Sco \<times> octets) outcome" where
  "Sco_decode bo buf =
     and_then (ensure bo buf Sco_LEN) (\<lambda>_.
     and_then (get_u8 bo buf) (\<lambda>(b, buf).
       Ok (\<lparr> sco_on = (b AND 0x01 \<noteq> 0),
             sco_qualifier = drop_bit 2 b AND 0x1F,
             sco_select = (b AND 0x80 \<noteq> 0) \<rparr>, buf)))"

definition Sco_wf :: "Sco \<Rightarrow> bool" where "Sco_wf x \<longleftrightarrow> sco_qualifier x < 32"

sublocale bytes_crate \<subseteq> sco: codec "Sco_encode bo" "Sco_decode bo" Sco_LEN Sco_wf
proof (rule octet_codecI [OF Sco_decode_def], goal_cases)
  case (2 b) show ?case by (simp add: Sco_wf_def octet_mask_lt)
next
  case (3 x)
  show ?case
    by (cases x) (auto simp: Sco_encode_def Sco_wf_def put_simps Let_def flag_simps bit_simps
      dest!: octet_bound(4) intro!: octet_eqI)
qed (simp add: Sco_LEN_def)

record Dco =
  dco_state :: DoublePoint
  dco_qualifier :: u8
  dco_select :: bool

definition Dco_LEN :: nat where "Dco_LEN = 1"

definition Dco_encode :: "bytes_api \<Rightarrow> Dco \<Rightarrow> octets \<Rightarrow> octets" where
  "Dco_encode bo self buf =
     (let state = (case dco_state self of Intermediate \<Rightarrow> 0 | Off \<Rightarrow> 1 | On \<Rightarrow> 2 | Indeterminate \<Rightarrow> 3);
          b = state OR push_bit 2 (dco_qualifier self AND 0x1F);
          b = (if dco_select self then b OR 0x80 else b)
      in put_u8 bo buf b)"

definition Dco_decode :: "bytes_api \<Rightarrow> octets \<Rightarrow> (Dco \<times> octets) outcome" where
  "Dco_decode bo buf =
     and_then (ensure bo buf Dco_LEN) (\<lambda>_.
     and_then (get_u8 bo buf) (\<lambda>(b, buf).
       let state = (if b AND 3 = 0 then Intermediate else if b AND 3 = 1 then Off
                    else if b AND 3 = 2 then On else Indeterminate)
       in Ok (\<lparr> dco_state = state,
                dco_qualifier = drop_bit 2 b AND 0x1F,
                dco_select = (b AND 0x80 \<noteq> 0) \<rparr>, buf)))"

definition Dco_wf :: "Dco \<Rightarrow> bool" where "Dco_wf x \<longleftrightarrow> dco_qualifier x < 32"

text \<open>The two low bits of a command octet, next to its qualifier.\<close>

lemma command_octet:
  fixes q s :: u8
  assumes "b = (if sel then s OR push_bit 2 (q AND 0x1F) OR 0x80 else s OR push_bit 2 (q AND 0x1F))"
  shows "s < 4 \<Longrightarrow> b AND 3 = s" "s < 4 \<Longrightarrow> q < 32 \<Longrightarrow> drop_bit 2 b AND 0x1F = q"
    "s < 4 \<Longrightarrow> (b AND 0x80 = 0) = (\<not> sel)"
  unfolding assms
  by (cases sel; auto simp: flag_simps bit_simps dest!: octet_bound(1,4) intro!: octet_eqI)+

sublocale bytes_crate \<subseteq> dco: codec "Dco_encode bo" "Dco_decode bo" Dco_LEN Dco_wf
proof (rule octet_codecI [OF Dco_decode_def [unfolded Let_def]], goal_cases)
  case (2 b) show ?case by (simp add: Dco_wf_def octet_mask_lt)
next
  case (3 x)
  let ?s = "case dco_state x of Intermediate \<Rightarrow> (0 :: u8) | Off \<Rightarrow> 1 | On \<Rightarrow> 2 | Indeterminate \<Rightarrow> 3"
  let ?b = "if dco_select x then ?s OR push_bit 2 (dco_qualifier x AND 0x1F) OR 0x80
    else ?s OR push_bit 2 (dco_qualifier x AND 0x1F)"
  have "?s < 4" by (cases "dco_state x") auto
  moreover have "Dco_encode bo x buf = buf @ [?b]" for buf
    by (simp add: Dco_encode_def put_simps Let_def or.assoc)
  ultimately show ?case
    using command_octet [of ?b, OF refl] by (intro exI [of _ ?b]) (cases x; cases "dco_state x"; simp add: Dco_wf_def)
qed (simp add: Dco_LEN_def)

datatype StepDirection = NotPermitted0 | Lower | Higher | NotPermitted3

record Rco =
  rco_direction :: StepDirection
  rco_qualifier :: u8
  rco_select :: bool

definition Rco_LEN :: nat where "Rco_LEN = 1"

definition Rco_encode :: "bytes_api \<Rightarrow> Rco \<Rightarrow> octets \<Rightarrow> octets" where
  "Rco_encode bo self buf =
     (let dir = (case rco_direction self of NotPermitted0 \<Rightarrow> 0 | Lower \<Rightarrow> 1 | Higher \<Rightarrow> 2 | NotPermitted3 \<Rightarrow> 3);
          b = dir OR push_bit 2 (rco_qualifier self AND 0x1F);
          b = (if rco_select self then b OR 0x80 else b)
      in put_u8 bo buf b)"

definition Rco_decode :: "bytes_api \<Rightarrow> octets \<Rightarrow> (Rco \<times> octets) outcome" where
  "Rco_decode bo buf =
     and_then (ensure bo buf Rco_LEN) (\<lambda>_.
     and_then (get_u8 bo buf) (\<lambda>(b, buf).
       let direction = (if b AND 3 = 0 then NotPermitted0 else if b AND 3 = 1 then Lower
                        else if b AND 3 = 2 then Higher else NotPermitted3)
       in Ok (\<lparr> rco_direction = direction,
                rco_qualifier = drop_bit 2 b AND 0x1F,
                rco_select = (b AND 0x80 \<noteq> 0) \<rparr>, buf)))"

definition Rco_wf :: "Rco \<Rightarrow> bool" where "Rco_wf x \<longleftrightarrow> rco_qualifier x < 32"

sublocale bytes_crate \<subseteq> rco: codec "Rco_encode bo" "Rco_decode bo" Rco_LEN Rco_wf
proof (rule octet_codecI [OF Rco_decode_def [unfolded Let_def]], goal_cases)
  case (2 b) show ?case by (simp add: Rco_wf_def octet_mask_lt)
next
  case (3 x)
  let ?s = "case rco_direction x of NotPermitted0 \<Rightarrow> (0 :: u8) | Lower \<Rightarrow> 1 | Higher \<Rightarrow> 2 | NotPermitted3 \<Rightarrow> 3"
  let ?b = "if rco_select x then ?s OR push_bit 2 (rco_qualifier x AND 0x1F) OR 0x80
    else ?s OR push_bit 2 (rco_qualifier x AND 0x1F)"
  have "?s < 4" by (cases "rco_direction x") auto
  moreover have "Rco_encode bo x buf = buf @ [?b]" for buf
    by (simp add: Rco_encode_def put_simps Let_def or.assoc)
  ultimately show ?case
    using command_octet [of ?b, OF refl] by (intro exI [of _ ?b]) (cases x; cases "rco_direction x"; simp add: Rco_wf_def)
qed (simp add: Rco_LEN_def)

record Qos =
  qos_qualifier :: u8
  qos_select :: bool

definition Qos_LEN :: nat where "Qos_LEN = 1"

definition Qos_encode :: "bytes_api \<Rightarrow> Qos \<Rightarrow> octets \<Rightarrow> octets" where
  "Qos_encode bo self buf =
     (let b = qos_qualifier self AND 0x7F;
          b = (if qos_select self then b OR 0x80 else b)
      in put_u8 bo buf b)"

definition Qos_decode :: "bytes_api \<Rightarrow> octets \<Rightarrow> (Qos \<times> octets) outcome" where
  "Qos_decode bo buf =
     and_then (ensure bo buf Qos_LEN) (\<lambda>_.
     and_then (get_u8 bo buf) (\<lambda>(b, buf).
       Ok (\<lparr> qos_qualifier = b AND 0x7F, qos_select = (b AND 0x80 \<noteq> 0) \<rparr>, buf)))"

definition Qos_wf :: "Qos \<Rightarrow> bool" where "Qos_wf x \<longleftrightarrow> qos_qualifier x < 128"

sublocale bytes_crate \<subseteq> qos: codec "Qos_encode bo" "Qos_decode bo" Qos_LEN Qos_wf
proof (rule octet_codecI [OF Qos_decode_def], goal_cases)
  case (2 b) show ?case by (simp add: Qos_wf_def octet_mask_lt)
next
  case (3 x) show ?case
    by (cases x) (simp add: Qos_encode_def Qos_wf_def put_simps Let_def flagged_octet [OF refl] split del: if_split)
qed (simp add: Qos_LEN_def)

datatype Qoi = Qoi u8

definition Qoi_LEN :: nat where "Qoi_LEN = 1"
definition Qoi_GENERAL :: Qoi where "Qoi_GENERAL = Qoi 20"

definition Qoi_group :: "u8 \<Rightarrow> Qoi outcome" where
  "Qoi_group n = and_then (u8_add 20 n) (\<lambda>v. Ok (Qoi v))"

definition Qoi_encode :: "bytes_api \<Rightarrow> Qoi \<Rightarrow> octets \<Rightarrow> octets" where
  "Qoi_encode bo self buf = (case self of Qoi v \<Rightarrow> put_u8 bo buf v)"

definition Qoi_decode :: "bytes_api \<Rightarrow> octets \<Rightarrow> (Qoi \<times> octets) outcome" where
  "Qoi_decode bo buf =
     and_then (ensure bo buf Qoi_LEN) (\<lambda>_. and_then (get_u8 bo buf) (\<lambda>(b, buf). Ok (Qoi b, buf)))"

sublocale bytes_crate \<subseteq> qoi: codec "Qoi_encode bo" "Qoi_decode bo" Qoi_LEN "\<lambda>_. True"
proof (rule octet_codecI [OF Qoi_decode_def], goal_cases)
  case (3 x) show ?case by (cases x) (simp add: Qoi_encode_def put_simps)
qed (simp_all add: Qoi_LEN_def)

section \<open>The macro\<close>

definition cmd_payload ::
    "bytes_api \<Rightarrow> u8 \<Rightarrow> ('e \<Rightarrow> octets \<Rightarrow> octets) \<Rightarrow> (octets \<Rightarrow> ('e \<times> octets) outcome) \<Rightarrow> 'e io_objects payload_impl" where
  "cmd_payload bo tid write read =
     \<lparr> TYPE_ID = tid,
       encode_information_objects = (\<lambda>self buf vsq addressing.
         encode_io_list bo buf (objects self) vsq addressing write),
       decode_information_objects = (\<lambda>buf vsq addressing.
         and_then (decode_io_list bo buf vsq addressing read) (\<lambda>(xs, buf). Ok (\<lparr> objects = xs \<rparr>, buf))) \<rparr>"

section \<open>Adapter traits\<close>

definition Sco_write :: "bytes_api \<Rightarrow> Sco \<Rightarrow> octets \<Rightarrow> octets" where
  "Sco_write bo self buf = Sco_encode bo self buf"

definition Sco_read :: "bytes_api \<Rightarrow> octets \<Rightarrow> (Sco \<times> octets) outcome" where
  "Sco_read bo buf = Sco_decode bo buf"

definition Dco_write :: "bytes_api \<Rightarrow> Dco \<Rightarrow> octets \<Rightarrow> octets" where
  "Dco_write bo self buf = Dco_encode bo self buf"

definition Dco_read :: "bytes_api \<Rightarrow> octets \<Rightarrow> (Dco \<times> octets) outcome" where
  "Dco_read bo buf = Dco_decode bo buf"

definition Rco_write :: "bytes_api \<Rightarrow> Rco \<Rightarrow> octets \<Rightarrow> octets" where
  "Rco_write bo self buf = Rco_encode bo self buf"

definition Rco_read :: "bytes_api \<Rightarrow> octets \<Rightarrow> (Rco \<times> octets) outcome" where
  "Rco_read bo buf = Rco_decode bo buf"

definition Qoi_write :: "bytes_api \<Rightarrow> Qoi \<Rightarrow> octets \<Rightarrow> octets" where
  "Qoi_write bo self buf = Qoi_encode bo self buf"

definition Qoi_read :: "bytes_api \<Rightarrow> octets \<Rightarrow> (Qoi \<times> octets) outcome" where
  "Qoi_read bo buf = Qoi_decode bo buf"

definition Nva_Qos_write :: "bytes_api \<Rightarrow> Nva \<times> Qos \<Rightarrow> octets \<Rightarrow> octets" where
  "Nva_Qos_write bo = (\<lambda>(x, y) buf. Qos_encode bo y (Nva_encode bo x buf))"

definition Nva_Qos_read :: "bytes_api \<Rightarrow> octets \<Rightarrow> ((Nva \<times> Qos) \<times> octets) outcome" where
  "Nva_Qos_read bo buf =
     and_then (Nva_decode bo buf) (\<lambda>(x, buf). and_then (Qos_decode bo buf) (\<lambda>(y, buf). Ok ((x, y), buf)))"

definition Sva_Qos_write :: "bytes_api \<Rightarrow> Sva \<times> Qos \<Rightarrow> octets \<Rightarrow> octets" where
  "Sva_Qos_write bo = (\<lambda>(x, y) buf. Qos_encode bo y (Sva_encode bo x buf))"

definition Sva_Qos_read :: "bytes_api \<Rightarrow> octets \<Rightarrow> ((Sva \<times> Qos) \<times> octets) outcome" where
  "Sva_Qos_read bo buf =
     and_then (Sva_decode bo buf) (\<lambda>(x, buf). and_then (Qos_decode bo buf) (\<lambda>(y, buf). Ok ((x, y), buf)))"

definition R32_Qos_write :: "bytes_api \<Rightarrow> R32 \<times> Qos \<Rightarrow> octets \<Rightarrow> octets" where
  "R32_Qos_write bo = (\<lambda>(x, y) buf. Qos_encode bo y (R32_encode bo x buf))"

definition R32_Qos_read :: "bytes_api \<Rightarrow> octets \<Rightarrow> ((R32 \<times> Qos) \<times> octets) outcome" where
  "R32_Qos_read bo buf =
     and_then (R32_decode bo buf) (\<lambda>(x, buf). and_then (Qos_decode bo buf) (\<lambda>(y, buf). Ok ((x, y), buf)))"

definition Sco_Cp56Time2a_write :: "bytes_api \<Rightarrow> Sco \<times> Cp56Time2a \<Rightarrow> octets \<Rightarrow> octets" where
  "Sco_Cp56Time2a_write bo = (\<lambda>(x, y) buf. Cp56Time2a_encode bo y (Sco_encode bo x buf))"

definition Sco_Cp56Time2a_read :: "bytes_api \<Rightarrow> octets \<Rightarrow> ((Sco \<times> Cp56Time2a) \<times> octets) outcome" where
  "Sco_Cp56Time2a_read bo buf =
     and_then (Sco_decode bo buf) (\<lambda>(x, buf). and_then (Cp56Time2a_decode bo buf) (\<lambda>(y, buf). Ok ((x, y), buf)))"

definition Nva_Qos_Cp56Time2a_write :: "bytes_api \<Rightarrow> Nva \<times> Qos \<times> Cp56Time2a \<Rightarrow> octets \<Rightarrow> octets" where
  "Nva_Qos_Cp56Time2a_write bo = (\<lambda>(x, y, z) buf. Cp56Time2a_encode bo z (Qos_encode bo y (Nva_encode bo x buf)))"

definition Nva_Qos_Cp56Time2a_read :: "bytes_api \<Rightarrow> octets \<Rightarrow> ((Nva \<times> Qos \<times> Cp56Time2a) \<times> octets) outcome" where
  "Nva_Qos_Cp56Time2a_read bo buf =
     and_then (Nva_decode bo buf) (\<lambda>(x, buf). and_then (Qos_decode bo buf) (\<lambda>(y, buf).
       and_then (Cp56Time2a_decode bo buf) (\<lambda>(z, buf). Ok ((x, y, z), buf))))"

definition Sva_Qos_Cp56Time2a_write :: "bytes_api \<Rightarrow> Sva \<times> Qos \<times> Cp56Time2a \<Rightarrow> octets \<Rightarrow> octets" where
  "Sva_Qos_Cp56Time2a_write bo = (\<lambda>(x, y, z) buf. Cp56Time2a_encode bo z (Qos_encode bo y (Sva_encode bo x buf)))"

definition Sva_Qos_Cp56Time2a_read :: "bytes_api \<Rightarrow> octets \<Rightarrow> ((Sva \<times> Qos \<times> Cp56Time2a) \<times> octets) outcome" where
  "Sva_Qos_Cp56Time2a_read bo buf =
     and_then (Sva_decode bo buf) (\<lambda>(x, buf). and_then (Qos_decode bo buf) (\<lambda>(y, buf).
       and_then (Cp56Time2a_decode bo buf) (\<lambda>(z, buf). Ok ((x, y, z), buf))))"

definition R32_Qos_Cp56Time2a_write :: "bytes_api \<Rightarrow> R32 \<times> Qos \<times> Cp56Time2a \<Rightarrow> octets \<Rightarrow> octets" where
  "R32_Qos_Cp56Time2a_write bo = (\<lambda>(x, y, z) buf. Cp56Time2a_encode bo z (Qos_encode bo y (R32_encode bo x buf)))"

definition R32_Qos_Cp56Time2a_read :: "bytes_api \<Rightarrow> octets \<Rightarrow> ((R32 \<times> Qos \<times> Cp56Time2a) \<times> octets) outcome" where
  "R32_Qos_Cp56Time2a_read bo buf =
     and_then (R32_decode bo buf) (\<lambda>(x, buf). and_then (Qos_decode bo buf) (\<lambda>(y, buf).
       and_then (Cp56Time2a_decode bo buf) (\<lambda>(z, buf). Ok ((x, y, z), buf))))"

section \<open>The types\<close>

type_synonym C_SC_NA_1 = "Sco io_objects"

definition C_SC_NA_1_impl :: "bytes_api \<Rightarrow> C_SC_NA_1 payload_impl" where
  "C_SC_NA_1_impl bo = cmd_payload bo 45 (Sco_write bo) (Sco_read bo)"

type_synonym C_DC_NA_1 = "Dco io_objects"

definition C_DC_NA_1_impl :: "bytes_api \<Rightarrow> C_DC_NA_1 payload_impl" where
  "C_DC_NA_1_impl bo = cmd_payload bo 46 (Dco_write bo) (Dco_read bo)"

type_synonym C_RC_NA_1 = "Rco io_objects"

definition C_RC_NA_1_impl :: "bytes_api \<Rightarrow> C_RC_NA_1 payload_impl" where
  "C_RC_NA_1_impl bo = cmd_payload bo 47 (Rco_write bo) (Rco_read bo)"

type_synonym C_SE_NA_1 = "(Nva \<times> Qos) io_objects"

definition C_SE_NA_1_impl :: "bytes_api \<Rightarrow> C_SE_NA_1 payload_impl" where
  "C_SE_NA_1_impl bo = cmd_payload bo 48 (Nva_Qos_write bo) (Nva_Qos_read bo)"

type_synonym C_SE_NB_1 = "(Sva \<times> Qos) io_objects"

definition C_SE_NB_1_impl :: "bytes_api \<Rightarrow> C_SE_NB_1 payload_impl" where
  "C_SE_NB_1_impl bo = cmd_payload bo 49 (Sva_Qos_write bo) (Sva_Qos_read bo)"

type_synonym C_SE_NC_1 = "(R32 \<times> Qos) io_objects"

definition C_SE_NC_1_impl :: "bytes_api \<Rightarrow> C_SE_NC_1 payload_impl" where
  "C_SE_NC_1_impl bo = cmd_payload bo 50 (R32_Qos_write bo) (R32_Qos_read bo)"

type_synonym C_SC_TA_1 = "(Sco \<times> Cp56Time2a) io_objects"

definition C_SC_TA_1_impl :: "bytes_api \<Rightarrow> C_SC_TA_1 payload_impl" where
  "C_SC_TA_1_impl bo = cmd_payload bo 58 (Sco_Cp56Time2a_write bo) (Sco_Cp56Time2a_read bo)"

type_synonym C_SE_TA_1 = "(Nva \<times> Qos \<times> Cp56Time2a) io_objects"

definition C_SE_TA_1_impl :: "bytes_api \<Rightarrow> C_SE_TA_1 payload_impl" where
  "C_SE_TA_1_impl bo = cmd_payload bo 61 (Nva_Qos_Cp56Time2a_write bo) (Nva_Qos_Cp56Time2a_read bo)"

type_synonym C_SE_TB_1 = "(Sva \<times> Qos \<times> Cp56Time2a) io_objects"

definition C_SE_TB_1_impl :: "bytes_api \<Rightarrow> C_SE_TB_1 payload_impl" where
  "C_SE_TB_1_impl bo = cmd_payload bo 62 (Sva_Qos_Cp56Time2a_write bo) (Sva_Qos_Cp56Time2a_read bo)"

type_synonym C_SE_TC_1 = "(R32 \<times> Qos \<times> Cp56Time2a) io_objects"

definition C_SE_TC_1_impl :: "bytes_api \<Rightarrow> C_SE_TC_1 payload_impl" where
  "C_SE_TC_1_impl bo = cmd_payload bo 63 (R32_Qos_Cp56Time2a_write bo) (R32_Qos_Cp56Time2a_read bo)"

type_synonym C_IC_NA_1 = "Qoi io_objects"

definition C_IC_NA_1_impl :: "bytes_api \<Rightarrow> C_IC_NA_1 payload_impl" where
  "C_IC_NA_1_impl bo = cmd_payload bo 100 (Qoi_write bo) (Qoi_read bo)"

section \<open>Every type meets the contract\<close>

definition set_point :: "'a \<times> Qos \<Rightarrow> bool" where
  "set_point = (\<lambda>(_, q). Qos_wf q)"

definition timed_command :: "Sco \<times> Cp56Time2a \<Rightarrow> bool" where
  "timed_command = (\<lambda>(s, t). Sco_wf s \<and> Cp56Time2a_wf t)"

definition timed_set_point :: "'a \<times> Qos \<times> Cp56Time2a \<Rightarrow> bool" where
  "timed_set_point = (\<lambda>(_, q, t). Qos_wf q \<and> Cp56Time2a_wf t)"

context bytes_crate
begin

lemma cmd_payload_contract: "codec write read len ok \<Longrightarrow> payload_contract (cmd_payload bo tid write read) (io_fits ok)"
  by (rule io_list_contract [where mk = "\<lambda>xs. \<lparr> objects = xs \<rparr>" and objs = objects])
    (simp_all add: cmd_payload_def io_fits_def)

lemma Sco_cmd_codec: "codec (Sco_write bo) (Sco_read bo) Sco_LEN Sco_wf"
  by (rule codec_cong [OF sco.codec_axioms]) (simp_all add: Sco_write_def Sco_read_def)

lemma Dco_cmd_codec: "codec (Dco_write bo) (Dco_read bo) Dco_LEN Dco_wf"
  by (rule codec_cong [OF dco.codec_axioms]) (simp_all add: Dco_write_def Dco_read_def)

lemma Rco_cmd_codec: "codec (Rco_write bo) (Rco_read bo) Rco_LEN Rco_wf"
  by (rule codec_cong [OF rco.codec_axioms]) (simp_all add: Rco_write_def Rco_read_def)

lemma Qoi_cmd_codec: "codec (Qoi_write bo) (Qoi_read bo) Qoi_LEN plain"
  by (rule codec_cong [OF qoi.codec_axioms]) (simp_all add: Qoi_write_def Qoi_read_def plain_def)

lemma Nva_Qos_cmd_codec: "codec (Nva_Qos_write bo) (Nva_Qos_read bo) (Nva_LEN + Qos_LEN) set_point"
  by (rule codec_cong [OF codec_pair [OF nva.codec_axioms qos.codec_axioms]])
    (auto simp: Nva_Qos_write_def Nva_Qos_read_def set_point_def)

lemma Sva_Qos_cmd_codec: "codec (Sva_Qos_write bo) (Sva_Qos_read bo) (Sva_LEN + Qos_LEN) set_point"
  by (rule codec_cong [OF codec_pair [OF sva.codec_axioms qos.codec_axioms]])
    (auto simp: Sva_Qos_write_def Sva_Qos_read_def set_point_def)

lemma R32_Qos_cmd_codec: "codec (R32_Qos_write bo) (R32_Qos_read bo) (R32_LEN + Qos_LEN) set_point"
  by (rule codec_cong [OF codec_pair [OF r32.codec_axioms qos.codec_axioms]])
    (auto simp: R32_Qos_write_def R32_Qos_read_def set_point_def)

lemma Sco_Cp56Time2a_cmd_codec: "codec (Sco_Cp56Time2a_write bo) (Sco_Cp56Time2a_read bo) (Sco_LEN + Cp56Time2a_LEN) timed_command"
  by (rule codec_cong [OF codec_pair [OF sco.codec_axioms cp56.codec_axioms]])
    (auto simp: Sco_Cp56Time2a_write_def Sco_Cp56Time2a_read_def timed_command_def)

lemma Nva_Qos_Cp56Time2a_cmd_codec: "codec (Nva_Qos_Cp56Time2a_write bo) (Nva_Qos_Cp56Time2a_read bo) (Nva_LEN + Qos_LEN + Cp56Time2a_LEN) timed_set_point"
  by (rule codec_cong [OF codec_triple [OF nva.codec_axioms qos.codec_axioms cp56.codec_axioms]])
    (auto simp: Nva_Qos_Cp56Time2a_write_def Nva_Qos_Cp56Time2a_read_def timed_set_point_def)

lemma Sva_Qos_Cp56Time2a_cmd_codec: "codec (Sva_Qos_Cp56Time2a_write bo) (Sva_Qos_Cp56Time2a_read bo) (Sva_LEN + Qos_LEN + Cp56Time2a_LEN) timed_set_point"
  by (rule codec_cong [OF codec_triple [OF sva.codec_axioms qos.codec_axioms cp56.codec_axioms]])
    (auto simp: Sva_Qos_Cp56Time2a_write_def Sva_Qos_Cp56Time2a_read_def timed_set_point_def)

lemma R32_Qos_Cp56Time2a_cmd_codec: "codec (R32_Qos_Cp56Time2a_write bo) (R32_Qos_Cp56Time2a_read bo) (R32_LEN + Qos_LEN + Cp56Time2a_LEN) timed_set_point"
  by (rule codec_cong [OF codec_triple [OF r32.codec_axioms qos.codec_axioms cp56.codec_axioms]])
    (auto simp: R32_Qos_Cp56Time2a_write_def R32_Qos_Cp56Time2a_read_def timed_set_point_def)

end

sublocale bytes_crate \<subseteq> c_sc_na_1: payload_contract "C_SC_NA_1_impl bo" "io_fits Sco_wf"
  unfolding C_SC_NA_1_impl_def by (rule cmd_payload_contract [OF Sco_cmd_codec])

sublocale bytes_crate \<subseteq> c_dc_na_1: payload_contract "C_DC_NA_1_impl bo" "io_fits Dco_wf"
  unfolding C_DC_NA_1_impl_def by (rule cmd_payload_contract [OF Dco_cmd_codec])

sublocale bytes_crate \<subseteq> c_rc_na_1: payload_contract "C_RC_NA_1_impl bo" "io_fits Rco_wf"
  unfolding C_RC_NA_1_impl_def by (rule cmd_payload_contract [OF Rco_cmd_codec])

sublocale bytes_crate \<subseteq> c_se_na_1: payload_contract "C_SE_NA_1_impl bo" "io_fits set_point"
  unfolding C_SE_NA_1_impl_def by (rule cmd_payload_contract [OF Nva_Qos_cmd_codec])

sublocale bytes_crate \<subseteq> c_se_nb_1: payload_contract "C_SE_NB_1_impl bo" "io_fits set_point"
  unfolding C_SE_NB_1_impl_def by (rule cmd_payload_contract [OF Sva_Qos_cmd_codec])

sublocale bytes_crate \<subseteq> c_se_nc_1: payload_contract "C_SE_NC_1_impl bo" "io_fits set_point"
  unfolding C_SE_NC_1_impl_def by (rule cmd_payload_contract [OF R32_Qos_cmd_codec])

sublocale bytes_crate \<subseteq> c_sc_ta_1: payload_contract "C_SC_TA_1_impl bo" "io_fits timed_command"
  unfolding C_SC_TA_1_impl_def by (rule cmd_payload_contract [OF Sco_Cp56Time2a_cmd_codec])

sublocale bytes_crate \<subseteq> c_se_ta_1: payload_contract "C_SE_TA_1_impl bo" "io_fits timed_set_point"
  unfolding C_SE_TA_1_impl_def by (rule cmd_payload_contract [OF Nva_Qos_Cp56Time2a_cmd_codec])

sublocale bytes_crate \<subseteq> c_se_tb_1: payload_contract "C_SE_TB_1_impl bo" "io_fits timed_set_point"
  unfolding C_SE_TB_1_impl_def by (rule cmd_payload_contract [OF Sva_Qos_Cp56Time2a_cmd_codec])

sublocale bytes_crate \<subseteq> c_se_tc_1: payload_contract "C_SE_TC_1_impl bo" "io_fits timed_set_point"
  unfolding C_SE_TC_1_impl_def by (rule cmd_payload_contract [OF R32_Qos_Cp56Time2a_cmd_codec])

sublocale bytes_crate \<subseteq> c_ic_na_1: payload_contract "C_IC_NA_1_impl bo" "io_fits plain"
  unfolding C_IC_NA_1_impl_def by (rule cmd_payload_contract [OF Qoi_cmd_codec])

end
