(* ===== verification/Types_System.thy ===== *)
theory Types_System
  imports Asdu_Envelope
begin

text \<open>
  System-information payload types, \<^verbatim>\<open>crates/iec60870-proto/src/asdu/types/system.rs\<close>: end of
  initialisation, counter interrogation, read, clock synchronisation and reset.  Each carries one
  object: its address and one qualifier.
\<close>

section \<open>Qualifiers\<close>

record Coi =
  coi_cause :: u8
  coi_after_param_change :: bool

definition Coi_LEN :: nat where "Coi_LEN = 1"

definition Coi_encode :: "bytes_api \<Rightarrow> Coi \<Rightarrow> octets \<Rightarrow> octets" where
  "Coi_encode bo self buf =
     (let b = coi_cause self AND 0x7F;
          b = (if coi_after_param_change self then b OR 0x80 else b)
      in put_u8 bo buf b)"

definition Coi_decode :: "bytes_api \<Rightarrow> octets \<Rightarrow> (Coi \<times> octets) outcome" where
  "Coi_decode bo buf =
     and_then (ensure bo buf Coi_LEN) (\<lambda>_.
     and_then (get_u8 bo buf) (\<lambda>(b, buf).
       Ok (\<lparr> coi_cause = b AND 0x7F, coi_after_param_change = (b AND 0x80 \<noteq> 0) \<rparr>, buf)))"

definition Coi_wf :: "Coi \<Rightarrow> bool" where "Coi_wf x \<longleftrightarrow> coi_cause x < 128"

sublocale bytes_crate \<subseteq> coi: codec "Coi_encode bo" "Coi_decode bo" Coi_LEN Coi_wf
proof (rule octet_codecI [OF Coi_decode_def], goal_cases)
  case (2 b) show ?case by (simp add: Coi_wf_def octet_mask_lt)
next
  case (3 x) show ?case
    by (cases x) (simp add: Coi_encode_def Coi_wf_def put_simps Let_def flagged_octet [OF refl] split del: if_split)
qed (simp add: Coi_LEN_def)

record Qcc =
  qcc_group :: u8
  qcc_freeze :: u8

definition Qcc_LEN :: nat where "Qcc_LEN = 1"

definition Qcc_encode :: "bytes_api \<Rightarrow> Qcc \<Rightarrow> octets \<Rightarrow> octets" where
  "Qcc_encode bo self buf = put_u8 bo buf ((qcc_group self AND 0x3F) OR push_bit 6 (qcc_freeze self AND 0x03))"

definition Qcc_decode :: "bytes_api \<Rightarrow> octets \<Rightarrow> (Qcc \<times> octets) outcome" where
  "Qcc_decode bo buf =
     and_then (ensure bo buf Qcc_LEN) (\<lambda>_.
     and_then (get_u8 bo buf) (\<lambda>(b, buf).
       Ok (\<lparr> qcc_group = b AND 0x3F, qcc_freeze = drop_bit 6 b AND 0x03 \<rparr>, buf)))"

definition Qcc_wf :: "Qcc \<Rightarrow> bool" where "Qcc_wf x \<longleftrightarrow> qcc_group x < 64 \<and> qcc_freeze x < 4"

sublocale bytes_crate \<subseteq> qcc: codec "Qcc_encode bo" "Qcc_decode bo" Qcc_LEN Qcc_wf
proof (rule octet_codecI [OF Qcc_decode_def], goal_cases)
  case (2 b) show ?case by (simp add: Qcc_wf_def octet_mask_lt)
next
  case (3 x) show ?case
    by (cases x) (auto simp: Qcc_encode_def Qcc_wf_def put_simps flag_simps bit_simps
      dest!: octet_bound(1,5) intro!: octet_eqI)
qed (simp add: Qcc_LEN_def)

datatype Qrp = Qrp u8

definition Qrp_LEN :: nat where "Qrp_LEN = 1"

definition Qrp_encode :: "bytes_api \<Rightarrow> Qrp \<Rightarrow> octets \<Rightarrow> octets" where
  "Qrp_encode bo self buf = (case self of Qrp v \<Rightarrow> put_u8 bo buf v)"

definition Qrp_decode :: "bytes_api \<Rightarrow> octets \<Rightarrow> (Qrp \<times> octets) outcome" where
  "Qrp_decode bo buf =
     and_then (ensure bo buf Qrp_LEN) (\<lambda>_. and_then (get_u8 bo buf) (\<lambda>(b, buf). Ok (Qrp b, buf)))"

sublocale bytes_crate \<subseteq> qrp: codec "Qrp_encode bo" "Qrp_decode bo" Qrp_LEN "\<lambda>_. True"
proof (rule octet_codecI [OF Qrp_decode_def], goal_cases)
  case (3 x) show ?case by (cases x) (simp add: Qrp_encode_def put_simps)
qed (simp_all add: Qrp_LEN_def)

section \<open>The types\<close>

record M_EI_NA_1 =
  ei_ioa :: Ioa
  ei_coi :: Coi

definition M_EI_NA_1_impl :: "bytes_api \<Rightarrow> M_EI_NA_1 payload_impl" where
  "M_EI_NA_1_impl bo =
     \<lparr> TYPE_ID = 70,
       encode_information_objects = (\<lambda>self buf _ addressing.
         Coi_encode bo (ei_coi self) (encode_ioa bo buf (ei_ioa self) (ioa_size addressing))),
       decode_information_objects = (\<lambda>buf _ addressing.
         and_then (decode_ioa bo buf (ioa_size addressing)) (\<lambda>(ioa, buf).
         and_then (Coi_decode bo buf) (\<lambda>(coi, buf).
           Ok (\<lparr> ei_ioa = ioa, ei_coi = coi \<rparr>, buf)))) \<rparr>"

definition M_EI_NA_1_fits :: "IoaSize \<Rightarrow> M_EI_NA_1 \<Rightarrow> bool" where
  "M_EI_NA_1_fits sz x \<longleftrightarrow> ioa_fits sz (ei_ioa x) \<and> Coi_wf (ei_coi x)"

record C_CI_NA_1 =
  ci_ioa :: Ioa
  ci_qcc :: Qcc

definition C_CI_NA_1_impl :: "bytes_api \<Rightarrow> C_CI_NA_1 payload_impl" where
  "C_CI_NA_1_impl bo =
     \<lparr> TYPE_ID = 101,
       encode_information_objects = (\<lambda>self buf _ addressing.
         Qcc_encode bo (ci_qcc self) (encode_ioa bo buf (ci_ioa self) (ioa_size addressing))),
       decode_information_objects = (\<lambda>buf _ addressing.
         and_then (decode_ioa bo buf (ioa_size addressing)) (\<lambda>(ioa, buf).
         and_then (Qcc_decode bo buf) (\<lambda>(qcc, buf).
           Ok (\<lparr> ci_ioa = ioa, ci_qcc = qcc \<rparr>, buf)))) \<rparr>"

definition C_CI_NA_1_fits :: "IoaSize \<Rightarrow> C_CI_NA_1 \<Rightarrow> bool" where
  "C_CI_NA_1_fits sz x \<longleftrightarrow> ioa_fits sz (ci_ioa x) \<and> Qcc_wf (ci_qcc x)"

record C_RD_NA_1 =
  rd_ioa :: Ioa

definition C_RD_NA_1_impl :: "bytes_api \<Rightarrow> C_RD_NA_1 payload_impl" where
  "C_RD_NA_1_impl bo =
     \<lparr> TYPE_ID = 102,
       encode_information_objects = (\<lambda>self buf _ addressing.
         encode_ioa bo buf (rd_ioa self) (ioa_size addressing)),
       decode_information_objects = (\<lambda>buf _ addressing.
         and_then (decode_ioa bo buf (ioa_size addressing)) (\<lambda>(ioa, buf).
           Ok (\<lparr> rd_ioa = ioa \<rparr>, buf))) \<rparr>"

definition C_RD_NA_1_fits :: "IoaSize \<Rightarrow> C_RD_NA_1 \<Rightarrow> bool" where
  "C_RD_NA_1_fits sz x \<longleftrightarrow> ioa_fits sz (rd_ioa x)"

record C_CS_NA_1 =
  cs_ioa :: Ioa
  cs_time :: Cp56Time2a

definition C_CS_NA_1_impl :: "bytes_api \<Rightarrow> C_CS_NA_1 payload_impl" where
  "C_CS_NA_1_impl bo =
     \<lparr> TYPE_ID = 103,
       encode_information_objects = (\<lambda>self buf _ addressing.
         Cp56Time2a_encode bo (cs_time self) (encode_ioa bo buf (cs_ioa self) (ioa_size addressing))),
       decode_information_objects = (\<lambda>buf _ addressing.
         and_then (decode_ioa bo buf (ioa_size addressing)) (\<lambda>(ioa, buf).
         and_then (Cp56Time2a_decode bo buf) (\<lambda>(time, buf).
           Ok (\<lparr> cs_ioa = ioa, cs_time = time \<rparr>, buf)))) \<rparr>"

definition C_CS_NA_1_fits :: "IoaSize \<Rightarrow> C_CS_NA_1 \<Rightarrow> bool" where
  "C_CS_NA_1_fits sz x \<longleftrightarrow> ioa_fits sz (cs_ioa x) \<and> Cp56Time2a_wf (cs_time x)"

record C_RP_NA_1 =
  rp_ioa :: Ioa
  rp_qrp :: Qrp

definition C_RP_NA_1_impl :: "bytes_api \<Rightarrow> C_RP_NA_1 payload_impl" where
  "C_RP_NA_1_impl bo =
     \<lparr> TYPE_ID = 105,
       encode_information_objects = (\<lambda>self buf _ addressing.
         Qrp_encode bo (rp_qrp self) (encode_ioa bo buf (rp_ioa self) (ioa_size addressing))),
       decode_information_objects = (\<lambda>buf _ addressing.
         and_then (decode_ioa bo buf (ioa_size addressing)) (\<lambda>(ioa, buf).
         and_then (Qrp_decode bo buf) (\<lambda>(qrp, buf).
           Ok (\<lparr> rp_ioa = ioa, rp_qrp = qrp \<rparr>, buf)))) \<rparr>"

definition C_RP_NA_1_fits :: "IoaSize \<Rightarrow> C_RP_NA_1 \<Rightarrow> bool" where
  "C_RP_NA_1_fits sz x \<longleftrightarrow> ioa_fits sz (rp_ioa x)"

section \<open>Every type meets the contract\<close>

text \<open>An address followed by one element.\<close>

context bytes_crate
begin

lemma addressed_contract:
  fixes P :: "'r payload_impl"
  assumes c: "codec enc dec len ok"
    and iso: "\<And>x. mk (adr x) (val x) = x" "\<And>i v. adr (mk i v) = i" "\<And>i v. val (mk i v) = v"
    and e: "\<And>self buf vsq a. encode_information_objects P self buf vsq a =
      enc (val self) (encode_ioa bo buf (adr self) (ioa_size a))"
    and d: "\<And>buf vsq a. decode_information_objects P buf vsq a =
      and_then (decode_ioa bo buf (ioa_size a)) (\<lambda>(i, buf). and_then (dec buf) (\<lambda>(v, buf). Ok (mk i v, buf)))"
    and f: "\<And>sz x. fits sz x \<longleftrightarrow> ioa_fits sz (adr x) \<and> ok (val x)"
  shows "payload_contract P (\<lambda>_ a. fits (ioa_size a))"
proof (rule fixed_payload_contract [OF codec_iso [OF object_codec [OF c], where g = "\<lambda>(i, v). mk i v" and f = "\<lambda>x. (adr x, val x)"]])
  show "encode_information_objects P self buf vsq a = (\<lambda>sz x buf. enc (val x) (encode_ioa bo buf (adr x) sz)) (ioa_size a) self buf"
    for self buf vsq a by (simp add: e)
  show "decode_information_objects P buf vsq a = (\<lambda>sz buf. and_then (decode_ioa bo buf sz)
    (\<lambda>(i, buf). and_then (dec buf) (\<lambda>(v, buf). Ok (mk i v, buf)))) (ioa_size a) buf" for buf vsq a by (simp add: d)
qed (auto simp: iso f and_then_assoc split_def)

end

sublocale bytes_crate \<subseteq> m_ei_na_1: payload_contract "M_EI_NA_1_impl bo" "\<lambda>_ a. M_EI_NA_1_fits (ioa_size a)"
  by (rule addressed_contract [OF coi.codec_axioms, where mk = "\<lambda>i v. \<lparr> ei_ioa = i, ei_coi = v \<rparr>"])
    (simp_all add: M_EI_NA_1_impl_def M_EI_NA_1_fits_def)

sublocale bytes_crate \<subseteq> c_ci_na_1: payload_contract "C_CI_NA_1_impl bo" "\<lambda>_ a. C_CI_NA_1_fits (ioa_size a)"
  by (rule addressed_contract [OF qcc.codec_axioms, where mk = "\<lambda>i v. \<lparr> ci_ioa = i, ci_qcc = v \<rparr>"])
    (simp_all add: C_CI_NA_1_impl_def C_CI_NA_1_fits_def)

sublocale bytes_crate \<subseteq> c_cs_na_1: payload_contract "C_CS_NA_1_impl bo" "\<lambda>_ a. C_CS_NA_1_fits (ioa_size a)"
  by (rule addressed_contract [OF cp56.codec_axioms, where mk = "\<lambda>i v. \<lparr> cs_ioa = i, cs_time = v \<rparr>"])
    (simp_all add: C_CS_NA_1_impl_def C_CS_NA_1_fits_def)

sublocale bytes_crate \<subseteq> c_rp_na_1: payload_contract "C_RP_NA_1_impl bo" "\<lambda>_ a. C_RP_NA_1_fits (ioa_size a)"
  by (rule addressed_contract [OF qrp.codec_axioms, where mk = "\<lambda>i v. \<lparr> rp_ioa = i, rp_qrp = v \<rparr>"])
    (simp_all add: C_RP_NA_1_impl_def C_RP_NA_1_fits_def)

context bytes_crate
begin

lemma read_codec:
  "codec (\<lambda>x buf. encode_ioa bo buf (rd_ioa x) sz)
    (\<lambda>buf. and_then (decode_ioa bo buf sz) (\<lambda>(i, buf). Ok (\<lparr> rd_ioa = i \<rparr>, buf))) (ioa_len sz) (C_RD_NA_1_fits sz)"
  by (rule codec_iso [OF ioa.codec_axioms, where g = "\<lambda>i. \<lparr> rd_ioa = i \<rparr>" and f = rd_ioa])
    (simp_all add: C_RD_NA_1_fits_def)

end

sublocale bytes_crate \<subseteq> c_rd_na_1: payload_contract "C_RD_NA_1_impl bo" "\<lambda>_ a. C_RD_NA_1_fits (ioa_size a)"
  by (rule fixed_payload_contract [OF read_codec]) (simp_all add: C_RD_NA_1_impl_def)

end
