(* ===== verification/Types_File.thy ===== *)
theory Types_File
  imports Asdu_Envelope
begin

text \<open>
  File-transfer payload types, \<^verbatim>\<open>crates/iec60870-proto/src/asdu/types/file.rs\<close>: names and lengths,
  the qualifier octets, the checksum, and the seven ASDU types 120 to 126.
\<close>

section \<open>Names, lengths and the checksum\<close>

datatype NameOfFile = NameOfFile u16

definition NameOfFile_LEN :: nat where "NameOfFile_LEN = 2"

definition NameOfFile_encode :: "bytes_api \<Rightarrow> NameOfFile \<Rightarrow> octets \<Rightarrow> octets" where
  "NameOfFile_encode bo self buf = (case self of NameOfFile v \<Rightarrow> put_u16_le bo buf v)"

definition NameOfFile_decode :: "bytes_api \<Rightarrow> octets \<Rightarrow> (NameOfFile \<times> octets) outcome" where
  "NameOfFile_decode bo buf =
     and_then (ensure bo buf NameOfFile_LEN) (\<lambda>_. and_then (get_u16_le bo buf) (\<lambda>(v, buf). Ok (NameOfFile v, buf)))"

sublocale bytes_crate \<subseteq> nof: codec "NameOfFile_encode bo" "NameOfFile_decode bo" NameOfFile_LEN "\<lambda>_. True"
proof (rule fixed_codecI [OF NameOfFile_decode_def], goal_cases)
  case (2 x) show ?case
    by (cases x) (simp add: NameOfFile_encode_def NameOfFile_LEN_def put_simps get_simps u16_to_le_bytes_def bytes_simps)
qed (auto simp: NameOfFile_LEN_def get_simps dest!: length_Suc_bytes)

datatype NameOfSection = NameOfSection u16

definition NameOfSection_LEN :: nat where "NameOfSection_LEN = 2"
definition NameOfSection_WHOLE_FILE :: NameOfSection where "NameOfSection_WHOLE_FILE = NameOfSection 0"

definition NameOfSection_encode :: "bytes_api \<Rightarrow> NameOfSection \<Rightarrow> octets \<Rightarrow> octets" where
  "NameOfSection_encode bo self buf = (case self of NameOfSection v \<Rightarrow> put_u16_le bo buf v)"

definition NameOfSection_decode :: "bytes_api \<Rightarrow> octets \<Rightarrow> (NameOfSection \<times> octets) outcome" where
  "NameOfSection_decode bo buf =
     and_then (ensure bo buf NameOfSection_LEN) (\<lambda>_. and_then (get_u16_le bo buf) (\<lambda>(v, buf). Ok (NameOfSection v, buf)))"

sublocale bytes_crate \<subseteq> nos: codec "NameOfSection_encode bo" "NameOfSection_decode bo" NameOfSection_LEN "\<lambda>_. True"
proof (rule fixed_codecI [OF NameOfSection_decode_def], goal_cases)
  case (2 x) show ?case
    by (cases x) (simp add: NameOfSection_encode_def NameOfSection_LEN_def put_simps get_simps u16_to_le_bytes_def bytes_simps)
qed (auto simp: NameOfSection_LEN_def get_simps dest!: length_Suc_bytes)

text \<open>Three-octet lengths.\<close>

lemma mask_24: "v < 2 ^ 24 \<Longrightarrow> v AND 0x00FFFFFF = v" for v :: u32
proof -
  assume "v < 2 ^ 24"
  then have "take_bit 24 v = v"
    by (intro bit_word_eqI) (auto simp: bit_simps dest: word_lt_bit_index simp del: power_numeral)
  moreover have "mask 24 = (0x00FFFFFF :: u32)" by (simp add: mask_eq_exp_minus_1)
  ultimately show ?thesis by (metis take_bit_eq_mask)
qed

datatype LengthOfFile = LengthOfFile u32

definition LengthOfFile_LEN :: nat where "LengthOfFile_LEN = 3"
definition LengthOfFile_MAX :: u32 where "LengthOfFile_MAX = 0x00FFFFFF"

definition LengthOfFile_encode :: "bytes_api \<Rightarrow> LengthOfFile \<Rightarrow> octets \<Rightarrow> octets" where
  "LengthOfFile_encode bo self buf =
     (case self of LengthOfFile w \<Rightarrow>
       (let v = w AND LengthOfFile_MAX;
            buf = put_u8 bo buf (ucast v);
            buf = put_u8 bo buf (ucast (drop_bit 8 v))
        in put_u8 bo buf (ucast (drop_bit 16 v))))"

definition LengthOfFile_decode :: "bytes_api \<Rightarrow> octets \<Rightarrow> (LengthOfFile \<times> octets) outcome" where
  "LengthOfFile_decode bo buf =
     and_then (ensure bo buf LengthOfFile_LEN) (\<lambda>_.
     and_then (get_u8 bo buf) (\<lambda>(b0, buf).
     and_then (get_u8 bo buf) (\<lambda>(b1, buf).
     and_then (get_u8 bo buf) (\<lambda>(b2, buf).
       Ok (LengthOfFile (ucast b0 OR push_bit 8 (ucast b1) OR push_bit 16 (ucast b2)), buf)))))"

primrec LengthOfFile_wf :: "LengthOfFile \<Rightarrow> bool" where
  "LengthOfFile_wf (LengthOfFile v) \<longleftrightarrow> v < 2 ^ 24"

sublocale bytes_crate \<subseteq> lof: codec "LengthOfFile_encode bo" "LengthOfFile_decode bo" LengthOfFile_LEN LengthOfFile_wf
proof (rule fixed_codecI [OF LengthOfFile_decode_def], goal_cases)
  case (1 bs) then show ?case
    by (auto simp: LengthOfFile_LEN_def get_simps ioa_three_range simp del: power_numeral dest!: length_Suc_bytes)
next
  case (2 x) show ?case
    by (cases x) (simp add: LengthOfFile_encode_def LengthOfFile_LEN_def LengthOfFile_MAX_def put_simps get_simps Let_def mask_24
      ioa_octets_three del: power_numeral drop_bit_and)
qed

datatype LengthOfSection = LengthOfSection u32

definition LengthOfSection_LEN :: nat where "LengthOfSection_LEN = 3"
definition LengthOfSection_MAX :: u32 where "LengthOfSection_MAX = 0x00FFFFFF"

definition LengthOfSection_encode :: "bytes_api \<Rightarrow> LengthOfSection \<Rightarrow> octets \<Rightarrow> octets" where
  "LengthOfSection_encode bo self buf =
     (case self of LengthOfSection w \<Rightarrow>
       (let v = w AND LengthOfSection_MAX;
            buf = put_u8 bo buf (ucast v);
            buf = put_u8 bo buf (ucast (drop_bit 8 v))
        in put_u8 bo buf (ucast (drop_bit 16 v))))"

definition LengthOfSection_decode :: "bytes_api \<Rightarrow> octets \<Rightarrow> (LengthOfSection \<times> octets) outcome" where
  "LengthOfSection_decode bo buf =
     and_then (ensure bo buf LengthOfSection_LEN) (\<lambda>_.
     and_then (get_u8 bo buf) (\<lambda>(b0, buf).
     and_then (get_u8 bo buf) (\<lambda>(b1, buf).
     and_then (get_u8 bo buf) (\<lambda>(b2, buf).
       Ok (LengthOfSection (ucast b0 OR push_bit 8 (ucast b1) OR push_bit 16 (ucast b2)), buf)))))"

primrec LengthOfSection_wf :: "LengthOfSection \<Rightarrow> bool" where
  "LengthOfSection_wf (LengthOfSection v) \<longleftrightarrow> v < 2 ^ 24"

sublocale bytes_crate \<subseteq> los: codec "LengthOfSection_encode bo" "LengthOfSection_decode bo" LengthOfSection_LEN LengthOfSection_wf
proof (rule fixed_codecI [OF LengthOfSection_decode_def], goal_cases)
  case (1 bs) then show ?case
    by (auto simp: LengthOfSection_LEN_def get_simps ioa_three_range simp del: power_numeral dest!: length_Suc_bytes)
next
  case (2 x) show ?case
    by (cases x) (simp add: LengthOfSection_encode_def LengthOfSection_LEN_def LengthOfSection_MAX_def put_simps get_simps Let_def mask_24
      ioa_octets_three del: power_numeral drop_bit_and)
qed

section \<open>Qualifier octets\<close>

record Frq =
  frq_code :: u8
  frq_negative :: bool

definition Frq_LEN :: nat where "Frq_LEN = 1"
definition Frq_READY :: Frq where "Frq_READY = \<lparr> frq_code = 0, frq_negative = False \<rparr>"
definition Frq_NOT_READY :: Frq where "Frq_NOT_READY = \<lparr> frq_code = 0, frq_negative = True \<rparr>"

definition Frq_encode :: "bytes_api \<Rightarrow> Frq \<Rightarrow> octets \<Rightarrow> octets" where
  "Frq_encode bo self buf =
     (let b = frq_code self AND 0x7F;
          b = (if frq_negative self then b OR 0x80 else b)
      in put_u8 bo buf b)"

definition Frq_decode :: "bytes_api \<Rightarrow> octets \<Rightarrow> (Frq \<times> octets) outcome" where
  "Frq_decode bo buf =
     and_then (ensure bo buf Frq_LEN) (\<lambda>_.
     and_then (get_u8 bo buf) (\<lambda>(b, buf).
       Ok (\<lparr> frq_code = b AND 0x7F, frq_negative = (b AND 0x80 \<noteq> 0) \<rparr>, buf)))"

definition Frq_wf :: "Frq \<Rightarrow> bool" where "Frq_wf x \<longleftrightarrow> frq_code x < 128"

sublocale bytes_crate \<subseteq> frq: codec "Frq_encode bo" "Frq_decode bo" Frq_LEN Frq_wf
proof (rule octet_codecI [OF Frq_decode_def], goal_cases)
  case (2 b) show ?case by (simp add: Frq_wf_def octet_mask_lt)
next
  case (3 x) show ?case
    by (cases x) (simp add: Frq_encode_def Frq_wf_def put_simps Let_def flagged_octet [OF refl] split del: if_split)
qed (simp add: Frq_LEN_def)

record Srq =
  srq_code :: u8
  srq_negative :: bool

definition Srq_LEN :: nat where "Srq_LEN = 1"
definition Srq_READY :: Srq where "Srq_READY = \<lparr> srq_code = 0, srq_negative = False \<rparr>"
definition Srq_NOT_READY :: Srq where "Srq_NOT_READY = \<lparr> srq_code = 0, srq_negative = True \<rparr>"

definition Srq_encode :: "bytes_api \<Rightarrow> Srq \<Rightarrow> octets \<Rightarrow> octets" where
  "Srq_encode bo self buf =
     (let b = srq_code self AND 0x7F;
          b = (if srq_negative self then b OR 0x80 else b)
      in put_u8 bo buf b)"

definition Srq_decode :: "bytes_api \<Rightarrow> octets \<Rightarrow> (Srq \<times> octets) outcome" where
  "Srq_decode bo buf =
     and_then (ensure bo buf Srq_LEN) (\<lambda>_.
     and_then (get_u8 bo buf) (\<lambda>(b, buf).
       Ok (\<lparr> srq_code = b AND 0x7F, srq_negative = (b AND 0x80 \<noteq> 0) \<rparr>, buf)))"

definition Srq_wf :: "Srq \<Rightarrow> bool" where "Srq_wf x \<longleftrightarrow> srq_code x < 128"

sublocale bytes_crate \<subseteq> srq: codec "Srq_encode bo" "Srq_decode bo" Srq_LEN Srq_wf
proof (rule octet_codecI [OF Srq_decode_def], goal_cases)
  case (2 b) show ?case by (simp add: Srq_wf_def octet_mask_lt)
next
  case (3 x) show ?case
    by (cases x) (simp add: Srq_encode_def Srq_wf_def put_simps Let_def flagged_octet [OF refl] split del: if_split)
qed (simp add: Srq_LEN_def)

text \<open>Two nibbles in one octet, and case distinctions on small values.\<close>

lemma nibble_octet:
  fixes lo hi :: u8
  shows "lo < 16 \<Longrightarrow> (lo AND 0x0F OR push_bit 4 (hi AND 0x0F)) AND 0x0F = lo"
    and "lo < 16 \<Longrightarrow> hi < 16 \<Longrightarrow> drop_bit 4 (lo AND 0x0F OR push_bit 4 (hi AND 0x0F)) AND 0x0F = hi"
  by (auto simp: bit_simps dest!: octet_bound(3) intro!: octet_eqI)

lemma octet_ge:
  fixes b :: u8
  shows "b \<noteq> 0 \<Longrightarrow> b \<noteq> 1 \<Longrightarrow> b \<noteq> 2 \<Longrightarrow> b \<noteq> 3 \<Longrightarrow> b \<noteq> 4 \<Longrightarrow> 5 \<le> b"
    and "b \<noteq> 0 \<Longrightarrow> b \<noteq> 1 \<Longrightarrow> b \<noteq> 2 \<Longrightarrow> b \<noteq> 3 \<Longrightarrow> b \<noteq> 4 \<Longrightarrow> b \<noteq> 5 \<Longrightarrow> b \<noteq> 6 \<Longrightarrow> b \<noteq> 7 \<Longrightarrow> 8 \<le> b"
  by (auto simp: word_le_nat_alt word_unat_eq_iff)

lemma octet_ge_neq:
  fixes b :: u8
  shows "5 \<le> b \<Longrightarrow> b \<noteq> 0 \<and> b \<noteq> 1 \<and> b \<noteq> 2 \<and> b \<noteq> 3 \<and> b \<noteq> 4"
    and "8 \<le> b \<Longrightarrow> b \<noteq> 0 \<and> b \<noteq> 1 \<and> b \<noteq> 2 \<and> b \<noteq> 3 \<and> b \<noteq> 4 \<and> b \<noteq> 5 \<and> b \<noteq> 6 \<and> b \<noteq> 7"
  by (auto simp: word_le_nat_alt)

datatype ScqAction = ScqAction_Default | SelectFile | RequestFile | DeactivateFile | DeleteFile | SelectSection | RequestSection | DeactivateSection | ScqAction_Other u8

definition ScqAction_to_bits :: "ScqAction \<Rightarrow> u8" where
  "ScqAction_to_bits self =
     (case self of
        ScqAction_Default \<Rightarrow> 0
      | SelectFile \<Rightarrow> 1
      | RequestFile \<Rightarrow> 2
      | DeactivateFile \<Rightarrow> 3
      | DeleteFile \<Rightarrow> 4
      | SelectSection \<Rightarrow> 5
      | RequestSection \<Rightarrow> 6
      | DeactivateSection \<Rightarrow> 7
      | ScqAction_Other b \<Rightarrow> b AND 0x0F)"

definition ScqAction_from_bits :: "u8 \<Rightarrow> ScqAction" where
  "ScqAction_from_bits b =
     (let n = b AND 0x0F
      in if n = 0 then ScqAction_Default
         else if n = 1 then SelectFile
         else if n = 2 then RequestFile
         else if n = 3 then DeactivateFile
         else if n = 4 then DeleteFile
         else if n = 5 then SelectSection
         else if n = 6 then RequestSection
         else if n = 7 then DeactivateSection
         else ScqAction_Other n)"

definition ScqAction_wf :: "ScqAction \<Rightarrow> bool" where
  "ScqAction_wf a \<longleftrightarrow> (case a of ScqAction_Other b \<Rightarrow> 8 \<le> b \<and> b < 16 | _ \<Rightarrow> True)"

lemma ScqAction_bits:
  "ScqAction_to_bits a < 16" "ScqAction_wf a \<Longrightarrow> ScqAction_from_bits (ScqAction_to_bits a) = a" "ScqAction_wf (ScqAction_from_bits b)"
proof -
  show "ScqAction_to_bits a < 16"
    by (cases a) (simp_all add: ScqAction_to_bits_def octet_mask_lt)
  show "ScqAction_from_bits (ScqAction_to_bits a) = a" if "ScqAction_wf a"
    using that by (cases a) (auto simp: ScqAction_from_bits_def ScqAction_to_bits_def ScqAction_wf_def octet_mask_id octet_ge_neq)
  show "ScqAction_wf (ScqAction_from_bits b)"
    using octet_mask_lt(3) [of b] by (auto simp: ScqAction_from_bits_def ScqAction_wf_def Let_def intro!: octet_ge)
qed

record Scq =
  scq_action :: ScqAction
  scq_status :: u8

definition Scq_LEN :: nat where "Scq_LEN = 1"

definition Scq_new :: "ScqAction \<Rightarrow> u8 \<Rightarrow> Scq" where
  "Scq_new action status = \<lparr> scq_action = action, scq_status = status AND 0x0F \<rparr>"

definition Scq_encode :: "bytes_api \<Rightarrow> Scq \<Rightarrow> octets \<Rightarrow> octets" where
  "Scq_encode bo self buf =
     put_u8 bo buf ((ScqAction_to_bits (scq_action self) AND 0x0F) OR push_bit 4 (scq_status self AND 0x0F))"

definition Scq_decode :: "bytes_api \<Rightarrow> octets \<Rightarrow> (Scq \<times> octets) outcome" where
  "Scq_decode bo buf =
     and_then (ensure bo buf Scq_LEN) (\<lambda>_.
     and_then (get_u8 bo buf) (\<lambda>(b, buf).
       Ok (\<lparr> scq_action = ScqAction_from_bits (b AND 0x0F), scq_status = drop_bit 4 b AND 0x0F \<rparr>, buf)))"

definition Scq_wf :: "Scq \<Rightarrow> bool" where
  "Scq_wf x \<longleftrightarrow> ScqAction_wf (scq_action x) \<and> scq_status x < 16"

sublocale bytes_crate \<subseteq> scq: codec "Scq_encode bo" "Scq_decode bo" Scq_LEN Scq_wf
proof (rule octet_codecI [OF Scq_decode_def], goal_cases)
  case (2 b) show ?case by (simp add: Scq_wf_def octet_mask_lt ScqAction_bits)
next
  case (3 x)
  from nibble_octet [OF ScqAction_bits(1)] obtain b where
    b: "(ScqAction_to_bits (scq_action x) AND 0x0F) OR push_bit 4 (scq_status x AND 0x0F) = b"
      "b AND 0x0F = ScqAction_to_bits (scq_action x)" "scq_status x < 16 \<Longrightarrow> drop_bit 4 b AND 0x0F = scq_status x"
    by metis
  have "Scq_encode bo x buf = buf @ [b]" for buf by (simp only: Scq_encode_def put_u8 b(1))
  with b(2,3) show ?case by (auto simp: Scq_wf_def ScqAction_bits)
qed (simp add: Scq_LEN_def)

datatype Lsq = Lsq_Default | SectionWithoutDeactivate | SectionWithDeactivate | FileWithoutDeactivate | FileWithDeactivate | Lsq_Other u8

definition Lsq_to_bits :: "Lsq \<Rightarrow> u8" where
  "Lsq_to_bits self =
     (case self of
        Lsq_Default \<Rightarrow> 0
      | SectionWithoutDeactivate \<Rightarrow> 1
      | SectionWithDeactivate \<Rightarrow> 2
      | FileWithoutDeactivate \<Rightarrow> 3
      | FileWithDeactivate \<Rightarrow> 4
      | Lsq_Other b \<Rightarrow> b)"

definition Lsq_from_bits :: "u8 \<Rightarrow> Lsq" where
  "Lsq_from_bits b =
     (let n = b
      in if n = 0 then Lsq_Default
         else if n = 1 then SectionWithoutDeactivate
         else if n = 2 then SectionWithDeactivate
         else if n = 3 then FileWithoutDeactivate
         else if n = 4 then FileWithDeactivate
         else Lsq_Other n)"

definition Lsq_wf :: "Lsq \<Rightarrow> bool" where
  "Lsq_wf a \<longleftrightarrow> (case a of Lsq_Other b \<Rightarrow> 5 \<le> b | _ \<Rightarrow> True)"

lemma Lsq_bits: "Lsq_wf a \<Longrightarrow> Lsq_from_bits (Lsq_to_bits a) = a" "Lsq_wf (Lsq_from_bits b)"
  by (cases a) (auto simp: Lsq_from_bits_def Lsq_to_bits_def Lsq_wf_def octet_ge_neq Let_def intro!: octet_ge)

definition Lsq_LEN :: nat where "Lsq_LEN = 1"

definition Lsq_encode :: "bytes_api \<Rightarrow> Lsq \<Rightarrow> octets \<Rightarrow> octets" where
  "Lsq_encode bo self buf = put_u8 bo buf (Lsq_to_bits self)"

definition Lsq_decode :: "bytes_api \<Rightarrow> octets \<Rightarrow> (Lsq \<times> octets) outcome" where
  "Lsq_decode bo buf =
     and_then (ensure bo buf Lsq_LEN) (\<lambda>_. and_then (get_u8 bo buf) (\<lambda>(b, buf). Ok (Lsq_from_bits b, buf)))"

sublocale bytes_crate \<subseteq> lsq: codec "Lsq_encode bo" "Lsq_decode bo" Lsq_LEN Lsq_wf
proof (rule octet_codecI [OF Lsq_decode_def], goal_cases)
  case (3 x) show ?case by (simp add: Lsq_encode_def put_simps Lsq_bits)
qed (simp_all add: Lsq_LEN_def Lsq_bits)

datatype AfqAction = AfqAction_Default | PositiveFile | NegativeFile | PositiveSection | NegativeSection | AfqAction_Other u8

definition AfqAction_to_bits :: "AfqAction \<Rightarrow> u8" where
  "AfqAction_to_bits self =
     (case self of
        AfqAction_Default \<Rightarrow> 0
      | PositiveFile \<Rightarrow> 1
      | NegativeFile \<Rightarrow> 2
      | PositiveSection \<Rightarrow> 3
      | NegativeSection \<Rightarrow> 4
      | AfqAction_Other b \<Rightarrow> b AND 0x0F)"

definition AfqAction_from_bits :: "u8 \<Rightarrow> AfqAction" where
  "AfqAction_from_bits b =
     (let n = b AND 0x0F
      in if n = 0 then AfqAction_Default
         else if n = 1 then PositiveFile
         else if n = 2 then NegativeFile
         else if n = 3 then PositiveSection
         else if n = 4 then NegativeSection
         else AfqAction_Other n)"

definition AfqAction_wf :: "AfqAction \<Rightarrow> bool" where
  "AfqAction_wf a \<longleftrightarrow> (case a of AfqAction_Other b \<Rightarrow> 5 \<le> b \<and> b < 16 | _ \<Rightarrow> True)"

lemma AfqAction_bits:
  "AfqAction_to_bits a < 16" "AfqAction_wf a \<Longrightarrow> AfqAction_from_bits (AfqAction_to_bits a) = a" "AfqAction_wf (AfqAction_from_bits b)"
proof -
  show "AfqAction_to_bits a < 16"
    by (cases a) (simp_all add: AfqAction_to_bits_def octet_mask_lt)
  show "AfqAction_from_bits (AfqAction_to_bits a) = a" if "AfqAction_wf a"
    using that by (cases a) (auto simp: AfqAction_from_bits_def AfqAction_to_bits_def AfqAction_wf_def octet_mask_id octet_ge_neq)
  show "AfqAction_wf (AfqAction_from_bits b)"
    using octet_mask_lt(3) [of b] by (auto simp: AfqAction_from_bits_def AfqAction_wf_def Let_def intro!: octet_ge)
qed

record Afq =
  afq_action :: AfqAction
  afq_status :: u8

definition Afq_LEN :: nat where "Afq_LEN = 1"

definition Afq_new :: "AfqAction \<Rightarrow> u8 \<Rightarrow> Afq" where
  "Afq_new action status = \<lparr> afq_action = action, afq_status = status AND 0x0F \<rparr>"

definition Afq_encode :: "bytes_api \<Rightarrow> Afq \<Rightarrow> octets \<Rightarrow> octets" where
  "Afq_encode bo self buf =
     put_u8 bo buf ((AfqAction_to_bits (afq_action self) AND 0x0F) OR push_bit 4 (afq_status self AND 0x0F))"

definition Afq_decode :: "bytes_api \<Rightarrow> octets \<Rightarrow> (Afq \<times> octets) outcome" where
  "Afq_decode bo buf =
     and_then (ensure bo buf Afq_LEN) (\<lambda>_.
     and_then (get_u8 bo buf) (\<lambda>(b, buf).
       Ok (\<lparr> afq_action = AfqAction_from_bits (b AND 0x0F), afq_status = drop_bit 4 b AND 0x0F \<rparr>, buf)))"

definition Afq_wf :: "Afq \<Rightarrow> bool" where
  "Afq_wf x \<longleftrightarrow> AfqAction_wf (afq_action x) \<and> afq_status x < 16"

sublocale bytes_crate \<subseteq> afq: codec "Afq_encode bo" "Afq_decode bo" Afq_LEN Afq_wf
proof (rule octet_codecI [OF Afq_decode_def], goal_cases)
  case (2 b) show ?case by (simp add: Afq_wf_def octet_mask_lt AfqAction_bits)
next
  case (3 x)
  from nibble_octet [OF AfqAction_bits(1)] obtain b where
    b: "(AfqAction_to_bits (afq_action x) AND 0x0F) OR push_bit 4 (afq_status x AND 0x0F) = b"
      "b AND 0x0F = AfqAction_to_bits (afq_action x)" "afq_status x < 16 \<Longrightarrow> drop_bit 4 b AND 0x0F = afq_status x"
    by metis
  have "Afq_encode bo x buf = buf @ [b]" for buf by (simp only: Afq_encode_def put_u8 b(1))
  with b(2,3) show ?case by (auto simp: Afq_wf_def AfqAction_bits)
qed (simp add: Afq_LEN_def)

record Sof =
  sof_status :: u8
  sof_last_file :: bool
  sof_sub_directory :: bool
  sof_active :: bool

definition Sof_LEN :: nat where "Sof_LEN = 1"
definition Sof_LFD :: u8 where "Sof_LFD = 0x20"
definition Sof_FOR_BIT :: u8 where "Sof_FOR_BIT = 0x40"
definition Sof_FA :: u8 where "Sof_FA = 0x80"
definition Sof_STATUS_MASK :: u8 where "Sof_STATUS_MASK = 0x1F"

definition Sof_encode :: "bytes_api \<Rightarrow> Sof \<Rightarrow> octets \<Rightarrow> octets" where
  "Sof_encode bo self buf =
     (let b = sof_status self AND Sof_STATUS_MASK;
          b = (if sof_last_file self then b OR Sof_LFD else b);
          b = (if sof_sub_directory self then b OR Sof_FOR_BIT else b);
          b = (if sof_active self then b OR Sof_FA else b)
      in put_u8 bo buf b)"

definition Sof_decode :: "bytes_api \<Rightarrow> octets \<Rightarrow> (Sof \<times> octets) outcome" where
  "Sof_decode bo buf =
     and_then (ensure bo buf Sof_LEN) (\<lambda>_.
     and_then (get_u8 bo buf) (\<lambda>(b, buf).
       Ok (\<lparr> sof_status = b AND Sof_STATUS_MASK,
             sof_last_file = (b AND Sof_LFD \<noteq> 0),
             sof_sub_directory = (b AND Sof_FOR_BIT \<noteq> 0),
             sof_active = (b AND Sof_FA \<noteq> 0) \<rparr>, buf)))"

definition Sof_wf :: "Sof \<Rightarrow> bool" where "Sof_wf x \<longleftrightarrow> sof_status x < 32"

lemmas sof_defs = Sof_LEN_def Sof_LFD_def Sof_FOR_BIT_def Sof_FA_def Sof_STATUS_MASK_def Sof_wf_def

sublocale bytes_crate \<subseteq> sof: codec "Sof_encode bo" "Sof_decode bo" Sof_LEN Sof_wf
proof (rule octet_codecI [OF Sof_decode_def], goal_cases)
  case (2 b) show ?case by (simp add: sof_defs octet_mask_lt)
next
  case (3 x) show ?case
    by (cases x) (auto simp: Sof_encode_def sof_defs put_simps Let_def flag_simps bit_simps
      dest!: octet_bound(4) intro!: octet_eqI)
qed (simp add: Sof_LEN_def)

datatype Checksum = Checksum u8

definition Checksum_LEN :: nat where "Checksum_LEN = 1"

definition Checksum_of :: "octets \<Rightarrow> Checksum" where
  "Checksum_of data = Checksum (foldl (\<lambda>acc b. acc + b) 0 data)"

primrec Checksum_update :: "Checksum \<Rightarrow> u8 \<Rightarrow> Checksum" where
  "Checksum_update (Checksum c) byte = Checksum (c + byte)"

primrec Checksum_update_slice :: "Checksum \<Rightarrow> octets \<Rightarrow> Checksum" where
  "Checksum_update_slice (Checksum c) data = Checksum (foldl (\<lambda>acc b. acc + b) c data)"

definition Checksum_encode :: "bytes_api \<Rightarrow> Checksum \<Rightarrow> octets \<Rightarrow> octets" where
  "Checksum_encode bo self buf = (case self of Checksum v \<Rightarrow> put_u8 bo buf v)"

definition Checksum_decode :: "bytes_api \<Rightarrow> octets \<Rightarrow> (Checksum \<times> octets) outcome" where
  "Checksum_decode bo buf =
     and_then (ensure bo buf Checksum_LEN) (\<lambda>_. and_then (get_u8 bo buf) (\<lambda>(b, buf). Ok (Checksum b, buf)))"

sublocale bytes_crate \<subseteq> chs: codec "Checksum_encode bo" "Checksum_decode bo" Checksum_LEN "\<lambda>_. True"
proof (rule octet_codecI [OF Checksum_decode_def], goal_cases)
  case (3 x) show ?case by (cases x) (simp add: Checksum_encode_def put_simps)
qed (simp_all add: Checksum_LEN_def)

lemma foldl_plus_u8: "foldl (\<lambda>acc b. acc + b) c xs = c + sum_list xs" for c :: u8
  by (induction xs arbitrary: c) (auto simp: add.assoc)

lemma Checksum_incremental: "Checksum_update_slice (Checksum_of xs) ys = Checksum_of (xs @ ys)"
  by (simp add: Checksum_of_def)

lemma Checksum_update_steps: "foldl Checksum_update (Checksum_of xs) ys = Checksum_update_slice (Checksum_of xs) ys"
  by (induction ys rule: rev_induct) (auto simp: Checksum_of_def)

section \<open>The ASDU types\<close>

record F_FR_NA_1 =
  fr_ioa :: Ioa
  fr_nof :: NameOfFile
  fr_lof :: LengthOfFile
  fr_frq :: Frq

definition F_FR_NA_1_impl :: "bytes_api \<Rightarrow> F_FR_NA_1 payload_impl" where
  "F_FR_NA_1_impl bo =
     \<lparr> TYPE_ID = 120,
       encode_information_objects = (\<lambda>self buf _ addressing.
         (let buf = encode_ioa bo buf (fr_ioa self) (ioa_size addressing);
              buf = NameOfFile_encode bo (fr_nof self) buf;
              buf = LengthOfFile_encode bo (fr_lof self) buf;
              buf = Frq_encode bo (fr_frq self) buf
          in buf)),
       decode_information_objects = (\<lambda>buf _ addressing.
         and_then (decode_ioa bo buf (ioa_size addressing)) (\<lambda>(ioa, buf).
         and_then (NameOfFile_decode bo buf) (\<lambda>(nof, buf).
         and_then (LengthOfFile_decode bo buf) (\<lambda>(lof, buf).
         and_then (Frq_decode bo buf) (\<lambda>(frq, buf).
           Ok (\<lparr> fr_ioa = ioa, fr_nof = nof, fr_lof = lof, fr_frq = frq \<rparr>, buf)))))) \<rparr>"

definition F_FR_NA_1_fits :: "IoaSize \<Rightarrow> F_FR_NA_1 \<Rightarrow> bool" where
  "F_FR_NA_1_fits sz x \<longleftrightarrow> ioa_fits sz (fr_ioa x) \<and> LengthOfFile_wf (fr_lof x) \<and> Frq_wf (fr_frq x)"

record F_SR_NA_1 =
  sr_ioa :: Ioa
  sr_nof :: NameOfFile
  sr_nos :: NameOfSection
  sr_los :: LengthOfSection
  sr_srq :: Srq

definition F_SR_NA_1_impl :: "bytes_api \<Rightarrow> F_SR_NA_1 payload_impl" where
  "F_SR_NA_1_impl bo =
     \<lparr> TYPE_ID = 121,
       encode_information_objects = (\<lambda>self buf _ addressing.
         (let buf = encode_ioa bo buf (sr_ioa self) (ioa_size addressing);
              buf = NameOfFile_encode bo (sr_nof self) buf;
              buf = NameOfSection_encode bo (sr_nos self) buf;
              buf = LengthOfSection_encode bo (sr_los self) buf;
              buf = Srq_encode bo (sr_srq self) buf
          in buf)),
       decode_information_objects = (\<lambda>buf _ addressing.
         and_then (decode_ioa bo buf (ioa_size addressing)) (\<lambda>(ioa, buf).
         and_then (NameOfFile_decode bo buf) (\<lambda>(nof, buf).
         and_then (NameOfSection_decode bo buf) (\<lambda>(nos, buf).
         and_then (LengthOfSection_decode bo buf) (\<lambda>(los, buf).
         and_then (Srq_decode bo buf) (\<lambda>(srq, buf).
           Ok (\<lparr> sr_ioa = ioa, sr_nof = nof, sr_nos = nos, sr_los = los, sr_srq = srq \<rparr>, buf))))))) \<rparr>"

definition F_SR_NA_1_fits :: "IoaSize \<Rightarrow> F_SR_NA_1 \<Rightarrow> bool" where
  "F_SR_NA_1_fits sz x \<longleftrightarrow> ioa_fits sz (sr_ioa x) \<and> LengthOfSection_wf (sr_los x) \<and> Srq_wf (sr_srq x)"

record F_SC_NA_1 =
  sc_ioa :: Ioa
  sc_nof :: NameOfFile
  sc_nos :: NameOfSection
  sc_scq :: Scq

definition F_SC_NA_1_impl :: "bytes_api \<Rightarrow> F_SC_NA_1 payload_impl" where
  "F_SC_NA_1_impl bo =
     \<lparr> TYPE_ID = 122,
       encode_information_objects = (\<lambda>self buf _ addressing.
         (let buf = encode_ioa bo buf (sc_ioa self) (ioa_size addressing);
              buf = NameOfFile_encode bo (sc_nof self) buf;
              buf = NameOfSection_encode bo (sc_nos self) buf;
              buf = Scq_encode bo (sc_scq self) buf
          in buf)),
       decode_information_objects = (\<lambda>buf _ addressing.
         and_then (decode_ioa bo buf (ioa_size addressing)) (\<lambda>(ioa, buf).
         and_then (NameOfFile_decode bo buf) (\<lambda>(nof, buf).
         and_then (NameOfSection_decode bo buf) (\<lambda>(nos, buf).
         and_then (Scq_decode bo buf) (\<lambda>(scq, buf).
           Ok (\<lparr> sc_ioa = ioa, sc_nof = nof, sc_nos = nos, sc_scq = scq \<rparr>, buf)))))) \<rparr>"

definition F_SC_NA_1_fits :: "IoaSize \<Rightarrow> F_SC_NA_1 \<Rightarrow> bool" where
  "F_SC_NA_1_fits sz x \<longleftrightarrow> ioa_fits sz (sc_ioa x) \<and> Scq_wf (sc_scq x)"

record F_LS_NA_1 =
  ls_ioa :: Ioa
  ls_nof :: NameOfFile
  ls_nos :: NameOfSection
  ls_lsq :: Lsq
  ls_chs :: Checksum

definition F_LS_NA_1_impl :: "bytes_api \<Rightarrow> F_LS_NA_1 payload_impl" where
  "F_LS_NA_1_impl bo =
     \<lparr> TYPE_ID = 123,
       encode_information_objects = (\<lambda>self buf _ addressing.
         (let buf = encode_ioa bo buf (ls_ioa self) (ioa_size addressing);
              buf = NameOfFile_encode bo (ls_nof self) buf;
              buf = NameOfSection_encode bo (ls_nos self) buf;
              buf = Lsq_encode bo (ls_lsq self) buf;
              buf = Checksum_encode bo (ls_chs self) buf
          in buf)),
       decode_information_objects = (\<lambda>buf _ addressing.
         and_then (decode_ioa bo buf (ioa_size addressing)) (\<lambda>(ioa, buf).
         and_then (NameOfFile_decode bo buf) (\<lambda>(nof, buf).
         and_then (NameOfSection_decode bo buf) (\<lambda>(nos, buf).
         and_then (Lsq_decode bo buf) (\<lambda>(lsq, buf).
         and_then (Checksum_decode bo buf) (\<lambda>(chs, buf).
           Ok (\<lparr> ls_ioa = ioa, ls_nof = nof, ls_nos = nos, ls_lsq = lsq, ls_chs = chs \<rparr>, buf))))))) \<rparr>"

definition F_LS_NA_1_fits :: "IoaSize \<Rightarrow> F_LS_NA_1 \<Rightarrow> bool" where
  "F_LS_NA_1_fits sz x \<longleftrightarrow> ioa_fits sz (ls_ioa x) \<and> Lsq_wf (ls_lsq x)"

record F_AF_NA_1 =
  af_ioa :: Ioa
  af_nof :: NameOfFile
  af_nos :: NameOfSection
  af_afq :: Afq

definition F_AF_NA_1_impl :: "bytes_api \<Rightarrow> F_AF_NA_1 payload_impl" where
  "F_AF_NA_1_impl bo =
     \<lparr> TYPE_ID = 124,
       encode_information_objects = (\<lambda>self buf _ addressing.
         (let buf = encode_ioa bo buf (af_ioa self) (ioa_size addressing);
              buf = NameOfFile_encode bo (af_nof self) buf;
              buf = NameOfSection_encode bo (af_nos self) buf;
              buf = Afq_encode bo (af_afq self) buf
          in buf)),
       decode_information_objects = (\<lambda>buf _ addressing.
         and_then (decode_ioa bo buf (ioa_size addressing)) (\<lambda>(ioa, buf).
         and_then (NameOfFile_decode bo buf) (\<lambda>(nof, buf).
         and_then (NameOfSection_decode bo buf) (\<lambda>(nos, buf).
         and_then (Afq_decode bo buf) (\<lambda>(afq, buf).
           Ok (\<lparr> af_ioa = ioa, af_nof = nof, af_nos = nos, af_afq = afq \<rparr>, buf)))))) \<rparr>"

definition F_AF_NA_1_fits :: "IoaSize \<Rightarrow> F_AF_NA_1 \<Rightarrow> bool" where
  "F_AF_NA_1_fits sz x \<longleftrightarrow> ioa_fits sz (af_ioa x) \<and> Afq_wf (af_afq x)"

definition MAX_SEGMENT_BYTES :: nat where "MAX_SEGMENT_BYTES = 0xFF"

record F_SG_NA_1 =
  sg_ioa :: Ioa
  sg_nof :: NameOfFile
  sg_nos :: NameOfSection
  sg_segment :: octets

definition F_SG_NA_1_impl :: "bytes_api \<Rightarrow> F_SG_NA_1 payload_impl" where
  "F_SG_NA_1_impl bo =
     \<lparr> TYPE_ID = 125,
       encode_information_objects = (\<lambda>self buf _ addressing.
         (let buf = encode_ioa bo buf (sg_ioa self) (ioa_size addressing);
              buf = NameOfFile_encode bo (sg_nof self) buf;
              buf = NameOfSection_encode bo (sg_nos self) buf;
              len = (of_nat (min (length (sg_segment self)) MAX_SEGMENT_BYTES) :: u8);
              buf = put_u8 bo buf len
          in put_slice bo buf (take (unat len) (sg_segment self)))),
       decode_information_objects = (\<lambda>buf _ addressing.
         and_then (decode_ioa bo buf (ioa_size addressing)) (\<lambda>(ioa, buf).
         and_then (NameOfFile_decode bo buf) (\<lambda>(nof, buf).
         and_then (NameOfSection_decode bo buf) (\<lambda>(nos, buf).
         and_then (ensure bo buf 1) (\<lambda>_.
         and_then (get_u8 bo buf) (\<lambda>(len, buf).
         and_then (ensure bo buf (unat len)) (\<lambda>_.
         and_then (copy_to_slice bo buf (unat len)) (\<lambda>(segment, buf).
           Ok (\<lparr> sg_ioa = ioa, sg_nof = nof, sg_nos = nos, sg_segment = segment \<rparr>, buf))))))))) \<rparr>"

definition F_SG_NA_1_fits :: "Vsq \<Rightarrow> AsduAddressing \<Rightarrow> F_SG_NA_1 \<Rightarrow> bool" where
  "F_SG_NA_1_fits vsq a x \<longleftrightarrow> ioa_fits (ioa_size a) (sg_ioa x) \<and> length (sg_segment x) \<le> MAX_SEGMENT_BYTES"

record DirectoryEntry =
  de_nof :: NameOfFile
  de_lof :: LengthOfFile
  de_sof :: Sof
  de_time :: Cp56Time2a

definition DirectoryEntry_LEN :: nat where
  "DirectoryEntry_LEN = NameOfFile_LEN + LengthOfFile_LEN + Sof_LEN + Cp56Time2a_LEN"

definition DirectoryEntry_encode :: "bytes_api \<Rightarrow> DirectoryEntry \<Rightarrow> octets \<Rightarrow> octets" where
  "DirectoryEntry_encode bo self buf =
     (let buf = NameOfFile_encode bo (de_nof self) buf;
          buf = LengthOfFile_encode bo (de_lof self) buf;
          buf = Sof_encode bo (de_sof self) buf
      in Cp56Time2a_encode bo (de_time self) buf)"

definition DirectoryEntry_decode :: "bytes_api \<Rightarrow> octets \<Rightarrow> (DirectoryEntry \<times> octets) outcome" where
  "DirectoryEntry_decode bo buf =
     and_then (ensure bo buf DirectoryEntry_LEN) (\<lambda>_.
     and_then (NameOfFile_decode bo buf) (\<lambda>(nof, buf).
     and_then (LengthOfFile_decode bo buf) (\<lambda>(lof, buf).
     and_then (Sof_decode bo buf) (\<lambda>(sof, buf).
     and_then (Cp56Time2a_decode bo buf) (\<lambda>(time, buf).
       Ok (\<lparr> de_nof = nof, de_lof = lof, de_sof = sof, de_time = time \<rparr>, buf))))))"

definition DirectoryEntry_wf :: "DirectoryEntry \<Rightarrow> bool" where
  "DirectoryEntry_wf x \<longleftrightarrow> LengthOfFile_wf (de_lof x) \<and> Sof_wf (de_sof x) \<and> Cp56Time2a_wf (de_time x)"

record F_DR_TA_1 =
  dr_entries :: "(Ioa \<times> DirectoryEntry) list"

definition F_DR_TA_1_impl :: "bytes_api \<Rightarrow> F_DR_TA_1 payload_impl" where
  "F_DR_TA_1_impl bo =
     \<lparr> TYPE_ID = 126,
       encode_information_objects = (\<lambda>self buf vsq addressing.
         encode_io_list bo buf (dr_entries self) vsq addressing (DirectoryEntry_encode bo)),
       decode_information_objects = (\<lambda>buf vsq addressing.
         and_then (decode_io_list bo buf vsq addressing (DirectoryEntry_decode bo)) (\<lambda>(entries, buf).
           Ok (\<lparr> dr_entries = entries \<rparr>, buf))) \<rparr>"

definition F_DR_TA_1_fits :: "Vsq \<Rightarrow> AsduAddressing \<Rightarrow> F_DR_TA_1 \<Rightarrow> bool" where
  "F_DR_TA_1_fits vsq a x \<longleftrightarrow> objects_fit DirectoryEntry_wf vsq a (dr_entries x) \<and>
     received_objects vsq (dr_entries x) = dr_entries x"

section \<open>Every type meets the contract\<close>

context bytes_crate
begin

lemma F_FR_NA_1_contract: "payload_contract (F_FR_NA_1_impl bo) (\<lambda>_ a. F_FR_NA_1_fits (ioa_size a))"
  by (rule record_payload_contract [OF codec_pair [OF ioa.codec_axioms codec_pair [OF nof.codec_axioms codec_pair [OF lof.codec_axioms frq.codec_axioms]]],
      where g = "\<lambda>(i, a, b, c). \<lparr> fr_ioa = i, fr_nof = a, fr_lof = b, fr_frq = c \<rparr>" and f = "\<lambda>x. (fr_ioa x, fr_nof x, fr_lof x, fr_frq x)"])
    (auto simp: F_FR_NA_1_impl_def F_FR_NA_1_fits_def and_then_assoc split_def Let_def)

lemma F_SR_NA_1_contract: "payload_contract (F_SR_NA_1_impl bo) (\<lambda>_ a. F_SR_NA_1_fits (ioa_size a))"
  by (rule record_payload_contract [OF codec_pair [OF ioa.codec_axioms codec_pair [OF nof.codec_axioms codec_pair [OF nos.codec_axioms codec_pair [OF los.codec_axioms srq.codec_axioms]]]],
      where g = "\<lambda>(i, a, b, c, d). \<lparr> sr_ioa = i, sr_nof = a, sr_nos = b, sr_los = c, sr_srq = d \<rparr>" and f = "\<lambda>x. (sr_ioa x, sr_nof x, sr_nos x, sr_los x, sr_srq x)"])
    (auto simp: F_SR_NA_1_impl_def F_SR_NA_1_fits_def and_then_assoc split_def Let_def)

lemma F_SC_NA_1_contract: "payload_contract (F_SC_NA_1_impl bo) (\<lambda>_ a. F_SC_NA_1_fits (ioa_size a))"
  by (rule record_payload_contract [OF codec_pair [OF ioa.codec_axioms codec_pair [OF nof.codec_axioms codec_pair [OF nos.codec_axioms scq.codec_axioms]]],
      where g = "\<lambda>(i, a, b, c). \<lparr> sc_ioa = i, sc_nof = a, sc_nos = b, sc_scq = c \<rparr>" and f = "\<lambda>x. (sc_ioa x, sc_nof x, sc_nos x, sc_scq x)"])
    (auto simp: F_SC_NA_1_impl_def F_SC_NA_1_fits_def and_then_assoc split_def Let_def)

lemma F_LS_NA_1_contract: "payload_contract (F_LS_NA_1_impl bo) (\<lambda>_ a. F_LS_NA_1_fits (ioa_size a))"
  by (rule record_payload_contract [OF codec_pair [OF ioa.codec_axioms codec_pair [OF nof.codec_axioms codec_pair [OF nos.codec_axioms codec_pair [OF lsq.codec_axioms chs.codec_axioms]]]],
      where g = "\<lambda>(i, a, b, c, d). \<lparr> ls_ioa = i, ls_nof = a, ls_nos = b, ls_lsq = c, ls_chs = d \<rparr>" and f = "\<lambda>x. (ls_ioa x, ls_nof x, ls_nos x, ls_lsq x, ls_chs x)"])
    (auto simp: F_LS_NA_1_impl_def F_LS_NA_1_fits_def and_then_assoc split_def Let_def)

lemma F_AF_NA_1_contract: "payload_contract (F_AF_NA_1_impl bo) (\<lambda>_ a. F_AF_NA_1_fits (ioa_size a))"
  by (rule record_payload_contract [OF codec_pair [OF ioa.codec_axioms codec_pair [OF nof.codec_axioms codec_pair [OF nos.codec_axioms afq.codec_axioms]]],
      where g = "\<lambda>(i, a, b, c). \<lparr> af_ioa = i, af_nof = a, af_nos = b, af_afq = c \<rparr>" and f = "\<lambda>x. (af_ioa x, af_nof x, af_nos x, af_afq x)"])
    (auto simp: F_AF_NA_1_impl_def F_AF_NA_1_fits_def and_then_assoc split_def Let_def)

lemma DirectoryEntry_codec: "codec (DirectoryEntry_encode bo) (DirectoryEntry_decode bo) DirectoryEntry_LEN DirectoryEntry_wf"
proof -
  have c: "codec (DirectoryEntry_encode bo)
      (\<lambda>buf. and_then (NameOfFile_decode bo buf) (\<lambda>(nof, buf). and_then (LengthOfFile_decode bo buf) (\<lambda>(lof, buf).
        and_then (Sof_decode bo buf) (\<lambda>(sof, buf). and_then (Cp56Time2a_decode bo buf) (\<lambda>(time, buf).
          Ok (\<lparr> de_nof = nof, de_lof = lof, de_sof = sof, de_time = time \<rparr>, buf))))))
      (NameOfFile_LEN + (LengthOfFile_LEN + (Sof_LEN + Cp56Time2a_LEN))) DirectoryEntry_wf" (is "codec _ ?d ?n _")
    by (rule codec_iso [OF codec_pair [OF nof.codec_axioms codec_pair [OF lof.codec_axioms
          codec_pair [OF sof.codec_axioms cp56.codec_axioms]]],
        where g = "\<lambda>(a, b, c, d). \<lparr> de_nof = a, de_lof = b, de_sof = c, de_time = d \<rparr>"
          and f = "\<lambda>x. (de_nof x, de_lof x, de_sof x, de_time x)"])
      (auto simp: DirectoryEntry_encode_def DirectoryEntry_wf_def and_then_assoc split_def Let_def)
  have guard: "DirectoryEntry_decode bo buf = and_then (ensure bo buf DirectoryEntry_LEN) (\<lambda>_. ?d buf)" for buf
    by (simp add: DirectoryEntry_decode_def)
  have n: "?n = DirectoryEntry_LEN" by (simp add: DirectoryEntry_LEN_def)
  show ?thesis by (rule guarded_codec [OF c [unfolded n] guard])
qed

lemma F_DR_TA_1_contract: "payload_contract (F_DR_TA_1_impl bo) F_DR_TA_1_fits"
  by (rule io_list_contract [OF DirectoryEntry_codec, where mk = "\<lambda>xs. \<lparr> dr_entries = xs \<rparr>" and objs = dr_entries])
    (simp_all add: F_DR_TA_1_impl_def F_DR_TA_1_fits_def)

lemma unat_le_255: "unat (b :: u8) \<le> 255"
  using unsigned_less [of b, where 'a = nat] by simp

text \<open>A segment is preceded by its length octet.\<close>

lemma F_SG_NA_1_contract: "payload_contract (F_SG_NA_1_impl bo) F_SG_NA_1_fits"
proof -
  let ?hd = "\<lambda>sz x. ioa_wire sz (sg_ioa x) @ nof.wire (sg_nof x) @ nos.wire (sg_nos x)"
  have len: "unat (of_nat (min n MAX_SEGMENT_BYTES) :: u8) = min n MAX_SEGMENT_BYTES" for n
    by (simp add: MAX_SEGMENT_BYTES_def unsigned_of_nat take_bit_nat_eq_self)
  have enc: "encode_information_objects (F_SG_NA_1_impl bo) x buf vsq a = buf @ ?hd (ioa_size a) x @
      of_nat (min (length (sg_segment x)) MAX_SEGMENT_BYTES) #
        take (min (length (sg_segment x)) MAX_SEGMENT_BYTES) (sg_segment x)" for x buf vsq a
    by (simp add: F_SG_NA_1_impl_def Let_def address_wire nof.enc_wire nos.enc_wire put_simps len)
  show ?thesis
  proof (unfold_locales, goal_cases)
    case (1 p buf vsq a) show ?case by (simp add: enc)
  next
    case (2 vsq a p rest)
    then have l: "length (sg_segment p) \<le> 255" "ioa_fits (ioa_size a) (sg_ioa p)"
      by (simp_all add: F_SG_NA_1_fits_def MAX_SEGMENT_BYTES_def)
    with len [of "length (sg_segment p)"] show ?case
      by (simp add: enc) (simp add: F_SG_NA_1_impl_def address_wire nof.dec_wire nos.dec_wire ensure_def get_simps
        MAX_SEGMENT_BYTES_def)
  next
    case (3 buf vsq a)
    show ?case
      by (auto simp: F_SG_NA_1_impl_def and_then_Panic_iff ioa.dec_not_panic nof.dec_not_panic nos.dec_not_panic
        ensure_Ok_iff get_simps Suc_le_length_iff)
  next
    case (4 buf vsq a p rest)
    then show ?case
      by (auto simp: F_SG_NA_1_impl_def and_then_Ok_iff ensure_Ok_iff get_simps Suc_le_length_iff F_SG_NA_1_fits_def
        MAX_SEGMENT_BYTES_def dest!: ioa.dec_Ok_wf intro: order_trans [OF _ unat_le_255])
  qed
qed

lemma segment_length:
  "length (sg_segment x) \<le> MAX_SEGMENT_BYTES \<Longrightarrow>
    length (encode_information_objects (F_SG_NA_1_impl bo) x [] vsq a) = ioa_len (ioa_size a) + 5 + length (sg_segment x)"
  by (simp add: F_SG_NA_1_impl_def Let_def address_wire nof.enc_wire nos.enc_wire put_simps nof.wire_length nos.wire_length
    NameOfFile_LEN_def NameOfSection_LEN_def MAX_SEGMENT_BYTES_def unsigned_of_nat take_bit_nat_eq_self)

end

sublocale bytes_crate \<subseteq> f_fr_na_1: payload_contract "F_FR_NA_1_impl bo" "\<lambda>_ a. F_FR_NA_1_fits (ioa_size a)"
  by (rule F_FR_NA_1_contract)

sublocale bytes_crate \<subseteq> f_sr_na_1: payload_contract "F_SR_NA_1_impl bo" "\<lambda>_ a. F_SR_NA_1_fits (ioa_size a)"
  by (rule F_SR_NA_1_contract)

sublocale bytes_crate \<subseteq> f_sc_na_1: payload_contract "F_SC_NA_1_impl bo" "\<lambda>_ a. F_SC_NA_1_fits (ioa_size a)"
  by (rule F_SC_NA_1_contract)

sublocale bytes_crate \<subseteq> f_ls_na_1: payload_contract "F_LS_NA_1_impl bo" "\<lambda>_ a. F_LS_NA_1_fits (ioa_size a)"
  by (rule F_LS_NA_1_contract)

sublocale bytes_crate \<subseteq> f_af_na_1: payload_contract "F_AF_NA_1_impl bo" "\<lambda>_ a. F_AF_NA_1_fits (ioa_size a)"
  by (rule F_AF_NA_1_contract)

sublocale bytes_crate \<subseteq> f_sg_na_1: payload_contract "F_SG_NA_1_impl bo" F_SG_NA_1_fits
  by (rule F_SG_NA_1_contract)

sublocale bytes_crate \<subseteq> f_dr_ta_1: payload_contract "F_DR_TA_1_impl bo" F_DR_TA_1_fits
  by (rule F_DR_TA_1_contract)

end
