(* ===== verification/Asdu_Properties.thy ===== *)
theory Asdu_Properties
  imports Types_Command Types_System Types_File
begin

text \<open>
  The guarantees of the application layer: the ASDU envelope, the information objects of every
  implemented type, and the elements whose bit layout is not a plain octet.
\<close>

section \<open>The envelope\<close>

text \<open>
  C35. ASDU encoding is a bijection between the ASDUs whose header fields fit the configured widths and
  the octet strings at least as long as the header: every such string decodes, with nothing left over,
  to the one ASDU whose encoding it is; a shorter one is reported as incomplete with its length.
\<close>
theorem asdu_bijection:
  assumes "bytes_crate bo"
  shows "(Asdu_header_len a \<le> length octets \<longrightarrow>
      (\<exists>!x. asdu_fits a x \<and> Asdu_encode bo x [] a = octets) \<and>
      (\<exists>x. Asdu_decode bo octets a = Ok (x, []) \<and> asdu_fits a x \<and> Asdu_encode bo x [] a = octets)) \<and>
    (length octets < Asdu_header_len a \<longrightarrow>
      Asdu_decode bo octets a = Err (Incomplete (Asdu_header_len a) (length octets)))"
proof (intro conjI impI)
  assume len: "Asdu_header_len a \<le> length octets"
  from bytes_crate.Asdu_decode_long [OF assms this] obtain x
    where x: "Asdu_decode bo octets a = Ok (x, [])" "asdu_fits a x" "Asdu_encode bo x [] a = octets" by blast
  then show "\<exists>x. Asdu_decode bo octets a = Ok (x, []) \<and> asdu_fits a x \<and> Asdu_encode bo x [] a = octets" by blast
  have "y = x" if "asdu_fits a y" "Asdu_encode bo y [] a = octets" for y
    using bytes_crate.Asdu_decode_encode [OF assms that(1)] that(2) x(1) by simp
  with x show "\<exists>!x. asdu_fits a x \<and> Asdu_encode bo x [] a = octets" by blast
next
  assume "length octets < Asdu_header_len a"
  then show "Asdu_decode bo octets a = Err (Incomplete (Asdu_header_len a) (length octets))"
    by (rule bytes_crate.Asdu_decode_short [OF assms])
qed

theorem asdu_bijection_witness:
  "(\<exists>x. Asdu_decode slice_api [100, 1, 6, 0, 7, 0, 0, 0, 0, 20] AsduAddressing_IEC104 = Ok (x, []) \<and>
     Asdu_encode slice_api x [] AsduAddressing_IEC104 = [100, 1, 6, 0, 7, 0, 0, 0, 0, 20]) \<and>
   Asdu_decode slice_api [100, 1] AsduAddressing_IEC104 = Err (Incomplete 6 2)"
proof -
  have len: "Asdu_header_len AsduAddressing_IEC104 = 6" by code_simp
  show ?thesis
    using asdu_bijection [OF slice_api_laws, of AsduAddressing_IEC104 "[100, 1, 6, 0, 7, 0, 0, 0, 0, 20]"]
      asdu_bijection [OF slice_api_laws, of AsduAddressing_IEC104 "[100, 1]"]
    by (auto simp: len)
qed

section \<open>Every implemented type\<close>

text \<open>
  What a payload type owes its users.  A payload that fits is recovered from the octets of the ASDU
  built from it, with type, qualifier, cause and address intact; decoding the payload of any ASDU
  whatever never panics; and what it returns fits, so that it can be sent on unchanged.
\<close>

definition travels :: "bytes_api \<Rightarrow> 'p payload_impl \<Rightarrow> (Vsq \<Rightarrow> AsduAddressing \<Rightarrow> 'p \<Rightarrow> bool) \<Rightarrow> bool" where
  "travels bo P fits \<longleftrightarrow>
     (\<forall>vsq a p cot ca. fits vsq a p \<and> header_fits a vsq cot ca \<longrightarrow>
       (\<exists>x. Asdu_decode bo (Asdu_encode bo (Asdu_from_payload P cot ca vsq p a) [] a) a = Ok (x, []) \<and>
         asdu_type_id x = TYPE_ID P \<and> asdu_vsq x = vsq \<and> asdu_cot x = cot \<and> asdu_ca x = ca \<and>
         Asdu_decode_payload P x a = Ok p)) \<and>
     (\<forall>x a. Asdu_decode_payload P x a \<noteq> Panic) \<and>
     (\<forall>x a p. Asdu_decode_payload P x a = Ok p \<longrightarrow> fits (asdu_vsq x) a p)"

lemma travelsI: "bytes_crate bo \<Longrightarrow> payload_contract P fits \<Longrightarrow> travels bo P fits"
  unfolding travels_def
  by (auto intro: payload_contract.asdu_roundtrip payload_contract.payload_canonical
    dest: payload_contract.payload_no_panic)

lemma travels_payload:
  "travels bo P fits \<Longrightarrow> fits vsq a p \<Longrightarrow> header_fits a vsq cot ca \<Longrightarrow>
    \<exists>x. Asdu_decode bo (Asdu_encode bo (Asdu_from_payload P cot ca vsq p a) [] a) a = Ok (x, []) \<and>
      Asdu_decode_payload P x a = Ok p"
  unfolding travels_def by blast

context bytes_crate
begin

lemma monitor_contracts:
  "payload_contract (M_SP_NA_1_impl bo) (io_fits plain)"
  "payload_contract (M_DP_NA_1_impl bo) (io_fits plain)"
  "payload_contract (M_ME_NA_1_impl bo) (io_fits plain)"
  "payload_contract (M_ME_NB_1_impl bo) (io_fits plain)"
  "payload_contract (M_ME_NC_1_impl bo) (io_fits plain)"
  "payload_contract (M_SP_TB_1_impl bo) (io_fits timed)"
  "payload_contract (M_DP_TB_1_impl bo) (io_fits timed)"
  "payload_contract (M_ME_TD_1_impl bo) (io_fits timed_value)"
  "payload_contract (M_ME_TE_1_impl bo) (io_fits timed_value)"
  "payload_contract (M_ME_TF_1_impl bo) (io_fits timed_value)"
  by (rule m_sp_na_1.payload_contract_axioms
    m_dp_na_1.payload_contract_axioms
    m_me_na_1.payload_contract_axioms
    m_me_nb_1.payload_contract_axioms
    m_me_nc_1.payload_contract_axioms
    m_sp_tb_1.payload_contract_axioms
    m_dp_tb_1.payload_contract_axioms
    m_me_td_1.payload_contract_axioms
    m_me_te_1.payload_contract_axioms
    m_me_tf_1.payload_contract_axioms)+

lemma command_contracts:
  "payload_contract (C_SC_NA_1_impl bo) (io_fits Sco_wf)"
  "payload_contract (C_DC_NA_1_impl bo) (io_fits Dco_wf)"
  "payload_contract (C_RC_NA_1_impl bo) (io_fits Rco_wf)"
  "payload_contract (C_SE_NA_1_impl bo) (io_fits set_point)"
  "payload_contract (C_SE_NB_1_impl bo) (io_fits set_point)"
  "payload_contract (C_SE_NC_1_impl bo) (io_fits set_point)"
  "payload_contract (C_SC_TA_1_impl bo) (io_fits timed_command)"
  "payload_contract (C_SE_TA_1_impl bo) (io_fits timed_set_point)"
  "payload_contract (C_SE_TB_1_impl bo) (io_fits timed_set_point)"
  "payload_contract (C_SE_TC_1_impl bo) (io_fits timed_set_point)"
  "payload_contract (C_IC_NA_1_impl bo) (io_fits plain)"
  by (rule c_sc_na_1.payload_contract_axioms
    c_dc_na_1.payload_contract_axioms
    c_rc_na_1.payload_contract_axioms
    c_se_na_1.payload_contract_axioms
    c_se_nb_1.payload_contract_axioms
    c_se_nc_1.payload_contract_axioms
    c_sc_ta_1.payload_contract_axioms
    c_se_ta_1.payload_contract_axioms
    c_se_tb_1.payload_contract_axioms
    c_se_tc_1.payload_contract_axioms
    c_ic_na_1.payload_contract_axioms)+

lemma system_contracts:
  "payload_contract (M_EI_NA_1_impl bo) (\<lambda>_ a. M_EI_NA_1_fits (ioa_size a))"
  "payload_contract (C_CI_NA_1_impl bo) (\<lambda>_ a. C_CI_NA_1_fits (ioa_size a))"
  "payload_contract (C_CS_NA_1_impl bo) (\<lambda>_ a. C_CS_NA_1_fits (ioa_size a))"
  "payload_contract (C_RP_NA_1_impl bo) (\<lambda>_ a. C_RP_NA_1_fits (ioa_size a))"
  "payload_contract (C_RD_NA_1_impl bo) (\<lambda>_ a. C_RD_NA_1_fits (ioa_size a))"
  by (rule m_ei_na_1.payload_contract_axioms
    c_ci_na_1.payload_contract_axioms
    c_cs_na_1.payload_contract_axioms
    c_rp_na_1.payload_contract_axioms
    c_rd_na_1.payload_contract_axioms)+

lemma file_contracts:
  "payload_contract (F_FR_NA_1_impl bo) (\<lambda>_ a. F_FR_NA_1_fits (ioa_size a))"
  "payload_contract (F_SR_NA_1_impl bo) (\<lambda>_ a. F_SR_NA_1_fits (ioa_size a))"
  "payload_contract (F_SC_NA_1_impl bo) (\<lambda>_ a. F_SC_NA_1_fits (ioa_size a))"
  "payload_contract (F_LS_NA_1_impl bo) (\<lambda>_ a. F_LS_NA_1_fits (ioa_size a))"
  "payload_contract (F_AF_NA_1_impl bo) (\<lambda>_ a. F_AF_NA_1_fits (ioa_size a))"
  "payload_contract (F_SG_NA_1_impl bo) F_SG_NA_1_fits"
  "payload_contract (F_DR_TA_1_impl bo) F_DR_TA_1_fits"
  by (rule f_fr_na_1.payload_contract_axioms
    f_sr_na_1.payload_contract_axioms
    f_sc_na_1.payload_contract_axioms
    f_ls_na_1.payload_contract_axioms
    f_af_na_1.payload_contract_axioms
    f_sg_na_1.payload_contract_axioms
    f_dr_ta_1.payload_contract_axioms)+

end

text \<open>
  C36. All types of the process: the ten monitor-direction types (single and double point, normalised,
  scaled and short-float measured values, each with and without a time tag) and the eleven
  control-direction types (single, double and regulating-step commands, set points of all three value
  kinds, their time-tagged variants, the interrogation command) carry any number of objects, as a
  sequence or one by one, through the ASDU and back; none of their decoders panics on foreign octets.
\<close>
theorem process_types_travel:
  assumes "bytes_crate bo"
  shows "travels bo (M_SP_NA_1_impl bo) (io_fits plain) \<and>
    travels bo (M_DP_NA_1_impl bo) (io_fits plain) \<and>
    travels bo (M_ME_NA_1_impl bo) (io_fits plain) \<and>
    travels bo (M_ME_NB_1_impl bo) (io_fits plain) \<and>
    travels bo (M_ME_NC_1_impl bo) (io_fits plain) \<and>
    travels bo (M_SP_TB_1_impl bo) (io_fits timed) \<and>
    travels bo (M_DP_TB_1_impl bo) (io_fits timed) \<and>
    travels bo (M_ME_TD_1_impl bo) (io_fits timed_value) \<and>
    travels bo (M_ME_TE_1_impl bo) (io_fits timed_value) \<and>
    travels bo (M_ME_TF_1_impl bo) (io_fits timed_value) \<and>
    travels bo (C_SC_NA_1_impl bo) (io_fits Sco_wf) \<and>
    travels bo (C_DC_NA_1_impl bo) (io_fits Dco_wf) \<and>
    travels bo (C_RC_NA_1_impl bo) (io_fits Rco_wf) \<and>
    travels bo (C_SE_NA_1_impl bo) (io_fits set_point) \<and>
    travels bo (C_SE_NB_1_impl bo) (io_fits set_point) \<and>
    travels bo (C_SE_NC_1_impl bo) (io_fits set_point) \<and>
    travels bo (C_SC_TA_1_impl bo) (io_fits timed_command) \<and>
    travels bo (C_SE_TA_1_impl bo) (io_fits timed_set_point) \<and>
    travels bo (C_SE_TB_1_impl bo) (io_fits timed_set_point) \<and>
    travels bo (C_SE_TC_1_impl bo) (io_fits timed_set_point) \<and>
    travels bo (C_IC_NA_1_impl bo) (io_fits plain)"
  using bytes_crate.monitor_contracts [OF assms] bytes_crate.command_contracts [OF assms] by (simp add: travelsI [OF assms])

definition demo_quality :: Quality where
  "demo_quality = \<lparr> blocked = False, substituted = True, not_topical = False, quality_invalid = True \<rparr>"

definition demo_scaled :: "(Sva \<times> Qds) io_objects" where
  "demo_scaled = \<lparr> objects = [(Ioa 10, Sva 5, \<lparr> qds_overflow = True, qds_quality = demo_quality \<rparr>),
     (Ioa 11, Sva 65535, \<lparr> qds_overflow = False, qds_quality = demo_quality \<rparr>)] \<rparr>"

theorem process_types_travel_witness:
  "\<exists>x. Asdu_decode slice_api (Asdu_encode slice_api
       (Asdu_from_payload (M_ME_NB_1_impl slice_api) Cot_act (CommonAddress 7) (Vsq_sequence 2) demo_scaled AsduAddressing_IEC104)
       [] AsduAddressing_IEC104) AsduAddressing_IEC104 = Ok (x, []) \<and>
     Asdu_decode_payload (M_ME_NB_1_impl slice_api) x AsduAddressing_IEC104 = Ok demo_scaled"
proof -
  have "header_fits AsduAddressing_IEC104 (Vsq_sequence 2) Cot_act (CommonAddress 7)"
    "io_fits plain (Vsq_sequence 2) AsduAddressing_IEC104 demo_scaled"
    by code_simp+
  with process_types_travel [OF slice_api_laws] show ?thesis by (intro travels_payload [where fits = "io_fits plain"]) simp_all
qed

text \<open>
  C37. The same for the system types (end of initialisation, counter interrogation, read, clock
  synchronisation, reset process) and the file-transfer types (file ready, section ready, call, last
  section, acknowledgement, segment, directory).
\<close>
theorem service_types_travel:
  assumes "bytes_crate bo"
  shows "travels bo (M_EI_NA_1_impl bo) (\<lambda>_ a. M_EI_NA_1_fits (ioa_size a)) \<and>
    travels bo (C_CI_NA_1_impl bo) (\<lambda>_ a. C_CI_NA_1_fits (ioa_size a)) \<and>
    travels bo (C_CS_NA_1_impl bo) (\<lambda>_ a. C_CS_NA_1_fits (ioa_size a)) \<and>
    travels bo (C_RP_NA_1_impl bo) (\<lambda>_ a. C_RP_NA_1_fits (ioa_size a)) \<and>
    travels bo (C_RD_NA_1_impl bo) (\<lambda>_ a. C_RD_NA_1_fits (ioa_size a)) \<and>
    travels bo (F_FR_NA_1_impl bo) (\<lambda>_ a. F_FR_NA_1_fits (ioa_size a)) \<and>
    travels bo (F_SR_NA_1_impl bo) (\<lambda>_ a. F_SR_NA_1_fits (ioa_size a)) \<and>
    travels bo (F_SC_NA_1_impl bo) (\<lambda>_ a. F_SC_NA_1_fits (ioa_size a)) \<and>
    travels bo (F_LS_NA_1_impl bo) (\<lambda>_ a. F_LS_NA_1_fits (ioa_size a)) \<and>
    travels bo (F_AF_NA_1_impl bo) (\<lambda>_ a. F_AF_NA_1_fits (ioa_size a)) \<and>
    travels bo (F_SG_NA_1_impl bo) F_SG_NA_1_fits \<and>
    travels bo (F_DR_TA_1_impl bo) F_DR_TA_1_fits"
  using bytes_crate.system_contracts [OF assms] bytes_crate.file_contracts [OF assms] by (simp add: travelsI [OF assms])

definition demo_segment :: F_SG_NA_1 where
  "demo_segment = \<lparr> sg_ioa = Ioa 65536, sg_nof = NameOfFile 7, sg_nos = NameOfSection 1, sg_segment = [1, 2, 3] \<rparr>"

theorem service_types_travel_witness:
  "\<exists>x. Asdu_decode slice_api (Asdu_encode slice_api
       (Asdu_from_payload (F_SG_NA_1_impl slice_api) Cot_act (CommonAddress 7) (Vsq_single 1) demo_segment AsduAddressing_IEC104)
       [] AsduAddressing_IEC104) AsduAddressing_IEC104 = Ok (x, []) \<and>
     Asdu_decode_payload (F_SG_NA_1_impl slice_api) x AsduAddressing_IEC104 = Ok demo_segment"
proof -
  have "header_fits AsduAddressing_IEC104 (Vsq_single 1) Cot_act (CommonAddress 7)"
    "F_SG_NA_1_fits (Vsq_single 1) AsduAddressing_IEC104 demo_segment"
    by code_simp+
  with service_types_travel [OF slice_api_laws] show ?thesis by (intro travels_payload [where fits = "F_SG_NA_1_fits"]) simp_all
qed

section \<open>Information objects and elements\<close>

text \<open>
  C38. A sequence of information objects sends one address: whatever addresses the sender attached to
  the elements, the receiver sees the elements in order at consecutive addresses, modulo 2^32, from the
  first one. Without the sequence flag every object keeps its own address. Both consume exactly their
  own octets.
\<close>
theorem sequence_addressing:
  assumes "bytes_crate bo" and "codec enc dec len ok" and "objects_fit ok vsq a xs"
  shows "\<exists>ys. decode_io_list bo (encode_io_list bo [] xs vsq a enc @ rest) vsq a dec = Ok (ys, rest) \<and>
    map snd ys = map snd xs \<and>
    map fst ys = (if vsq_sequence vsq then map (\<lambda>i. case fst (xs ! 0) of Ioa b \<Rightarrow> Ioa (b + of_nat i)) [0..<length xs]
                  else map fst xs)"
proof (intro exI conjI)
  show "decode_io_list bo (encode_io_list bo [] xs vsq a enc @ rest) vsq a dec = Ok (received_objects vsq xs, rest)"
    by (rule bytes_crate.decode_encode_io_list [OF assms])
  show "map snd (received_objects vsq xs) = map snd xs"
    by (cases xs; cases "fst (hd xs)") (auto intro!: nth_equalityI simp: renumber_nth nth_Cons' simp del: renumber.simps)
  show "map fst (received_objects vsq xs) =
      (if vsq_sequence vsq then map (\<lambda>i. case fst (xs ! 0) of Ioa b \<Rightarrow> Ioa (b + of_nat i)) [0..<length xs] else map fst xs)"
    by (cases xs; cases "fst (hd xs)")
      (auto intro!: nth_equalityI simp: renumber_nth simp del: renumber.simps upt_Suc)
qed

theorem sequence_addressing_witness:
  "\<exists>ys. decode_io_list slice_api (encode_io_list slice_api [] [(Ioa 10, Sva 5, \<lparr> qds_overflow = True, qds_quality = demo_quality \<rparr>),
        (Ioa 99, Sva 6, \<lparr> qds_overflow = True, qds_quality = demo_quality \<rparr>)] (Vsq_sequence 2) AsduAddressing_IEC104 (Sva_Qds_write slice_api) @ [1])
      (Vsq_sequence 2) AsduAddressing_IEC104 (Sva_Qds_read slice_api) = Ok (ys, [1]) \<and> map fst ys = [Ioa 10, Ioa 11]"
proof -
  let ?xs = "[(Ioa 10, Sva 5, \<lparr> qds_overflow = True, qds_quality = demo_quality \<rparr>),
        (Ioa 99, Sva 6, \<lparr> qds_overflow = True, qds_quality = demo_quality \<rparr>)]"
  have "objects_fit plain (Vsq_sequence 2) AsduAddressing_IEC104 ?xs" "vsq_sequence (Vsq_sequence 2)" by code_simp+
  with sequence_addressing [OF slice_api_laws bytes_crate.Sva_Qds_io_codec [OF slice_api_laws], of "Vsq_sequence 2" AsduAddressing_IEC104 ?xs "[1]"]
  show ?thesis by (auto simp: upt_rec)
qed

text \<open>
  The section checksum is the octet sum modulo 256 of everything summed so far: it does not depend on
  how the octets are cut into segments, and replacing any one octet by a different one changes it.
\<close>
theorem checksum_detects:
  assumes "i < length xs" and "b \<noteq> xs ! i"
  shows "foldl Checksum_update_slice (Checksum_of []) segs = Checksum_of (concat segs) \<and>
    Checksum_of xs = Checksum (sum_list xs) \<and> Checksum_of (xs[i := b]) \<noteq> Checksum_of xs"
proof -
  have of: "Checksum_of ys = Checksum (sum_list ys)" for ys by (simp add: Checksum_of_def foldl_plus_u8)
  have cut: "foldl Checksum_update_slice (Checksum_of ys) segs = Checksum_of (ys @ concat segs)" for ys
    by (induction segs arbitrary: ys) (simp_all add: Checksum_incremental)
  have "sum_list (xs[i := b]) = sum_list xs + (b - xs ! i)"
  proof -
    have "sum_list (take i xs) + (xs ! i + sum_list (drop (Suc i) xs)) = sum_list xs"
      using assms(1) by (metis id_take_nth_drop sum_list.Cons sum_list_append)
    then show ?thesis using assms(1) by (simp add: upd_conv_take_nth_drop algebra_simps)
  qed
  with assms(2) cut [of "[]"] show ?thesis by (simp add: of)
qed

theorem checksum_detects_witness:
  "Checksum_of ([1, 2, 255] [1 := 3]) \<noteq> Checksum_of [1, 2, 255] \<and>
   foldl Checksum_update_slice (Checksum_of []) [[1], [2, 255]] = Checksum_of [1, 2, 255]"
  using checksum_detects [of 1 "[1, 2, 255]" 3 "[[1], [2, 255]]"] by auto

end
