(* ===== verification/Frame104.thy ===== *)
theory Frame104
  imports Iec_Prelude
begin

text \<open>
  IEC 60870-5-104 framing, \<^verbatim>\<open>crates/iec60870-proto/src/frame104\<close>: the 15-bit sequence numbers
  (\<^verbatim>\<open>seq.rs\<close>), the APDU value type (\<^verbatim>\<open>apdu.rs\<close>) and the APDU codec (\<^verbatim>\<open>codec.rs\<close>).
  \<^verbatim>\<open>Codec::encode\<close> and \<^verbatim>\<open>Codec::decode\<close> return the buffer with every result, errors included, so
  that what an error leaves in the buffer can be stated.
\<close>

section \<open>Sequence numbers\<close>

datatype SeqNo = SeqNo u16

definition SeqNo_MAX :: u16 where "SeqNo_MAX = push_bit 15 1 - 1"
definition SeqNo_MODULUS :: u32 where "SeqNo_MODULUS = push_bit 15 1"

definition SeqNo_new :: "u16 \<Rightarrow> SeqNo" where
  "SeqNo_new v = SeqNo (v AND SeqNo_MAX)"

primrec SeqNo_value :: "SeqNo \<Rightarrow> u16" where
  "SeqNo_value (SeqNo v) = v"

definition SeqNo_add :: "SeqNo \<Rightarrow> u16 \<Rightarrow> SeqNo" where
  "SeqNo_add self n = SeqNo ((SeqNo_value self + n) AND SeqNo_MAX)"

definition SeqNo_next :: "SeqNo \<Rightarrow> SeqNo" where
  "SeqNo_next self = SeqNo_add self 1"

definition SeqNo_distance :: "SeqNo \<Rightarrow> SeqNo \<Rightarrow> u16" where
  "SeqNo_distance self later =
     (SeqNo_value later + ucast SeqNo_MODULUS - SeqNo_value self) AND SeqNo_MAX"

definition SeqNo_to_wire :: "SeqNo \<Rightarrow> u16" where
  "SeqNo_to_wire self = push_bit 1 (SeqNo_value self)"

definition SeqNo_from_wire :: "u16 \<Rightarrow> SeqNo" where
  "SeqNo_from_wire w = SeqNo (drop_bit 1 w AND SeqNo_MAX)"

text \<open>The range every constructor of the type stays in, and the number as a natural.\<close>

definition SeqNo_wf :: "SeqNo \<Rightarrow> bool" where
  "SeqNo_wf s \<longleftrightarrow> SeqNo_value s \<le> SeqNo_MAX"

definition seq_nat :: "SeqNo \<Rightarrow> nat" where
  "seq_nat s = unat (SeqNo_value s)"

lemma seq_consts: "SeqNo_MAX = 32767" "SeqNo_MODULUS = 32768" "ucast SeqNo_MODULUS = (32768 :: u16)"
  by (simp_all add: SeqNo_MAX_def SeqNo_MODULUS_def)

lemma and_MAX: "unat (v AND SeqNo_MAX) = unat v mod 2 ^ 15"
proof -
  have "v AND SeqNo_MAX = take_bit 15 v"
    by (simp add: seq_consts take_bit_eq_mask mask_eq_exp_minus_1)
  then show ?thesis by (simp add: unsigned_take_bit_eq take_bit_nat_def)
qed

lemma SeqNo_wf_nat: "SeqNo_wf s \<longleftrightarrow> seq_nat s < 2 ^ 15"
  by (auto simp: SeqNo_wf_def seq_nat_def seq_consts word_le_nat_alt)

lemma seq_nat_inj: "seq_nat s = seq_nat t \<longleftrightarrow> s = t"
  by (cases s; cases t) (simp add: seq_nat_def word_unat_eq_iff)

lemma seq_nat_add: "seq_nat (SeqNo_add s n) = (seq_nat s + unat n) mod 2 ^ 15"
proof -
  have "unat (SeqNo_value s + n) mod 2 ^ 15 = (unat (SeqNo_value s) + unat n) mod 2 ^ 15"
    by (simp add: unat_word_ariths mod_mod_cancel)
  then show ?thesis by (simp add: seq_nat_def SeqNo_add_def and_MAX)
qed

lemma seq_nat_next: "seq_nat (SeqNo_next s) = Suc (seq_nat s) mod 2 ^ 15"
  by (simp add: SeqNo_next_def seq_nat_add)

lemma seq_nat_distance:
  assumes "SeqNo_wf s"
  shows "unat (SeqNo_distance s t) = (seq_nat t + 2 ^ 15 - seq_nat s) mod 2 ^ 15"
proof -
  let ?a = "SeqNo_value t" and ?b = "SeqNo_value s"
  have b: "unat ?b \<le> 32767" using assms by (simp add: SeqNo_wf_def seq_consts word_le_nat_alt)
  have c: "unat (32768 - ?b) = 32768 - unat ?b" using b by (subst unat_sub) (simp_all add: word_le_nat_alt)
  have "?a + 32768 - ?b = ?a + (32768 - ?b)" by simp
  then have "unat (?a + 32768 - ?b) mod 2 ^ 15 = (unat ?a + unat (32768 - ?b)) mod 2 ^ 15"
    by (simp only:) (simp add: unat_word_ariths mod_mod_cancel)
  then have "unat (?a + 32768 - ?b) mod 2 ^ 15 = (unat ?a + 2 ^ 15 - unat ?b) mod 2 ^ 15"
    using b by (simp add: c)
  then show ?thesis by (simp add: SeqNo_distance_def seq_consts(3) and_MAX seq_nat_def)
qed

lemma SeqNo_wf_simps [simp]:
  "SeqNo_wf (SeqNo_new v)" "SeqNo_wf (SeqNo_add s n)" "SeqNo_wf (SeqNo_next s)" "SeqNo_wf (SeqNo_from_wire w)"
proof -
  have "SeqNo_wf (SeqNo (v AND SeqNo_MAX))" for v
    by (simp add: SeqNo_wf_nat seq_nat_def and_MAX)
  then show "SeqNo_wf (SeqNo_new v)" "SeqNo_wf (SeqNo_add s n)" "SeqNo_wf (SeqNo_next s)" "SeqNo_wf (SeqNo_from_wire w)"
    by (simp_all add: SeqNo_new_def SeqNo_add_def SeqNo_next_def SeqNo_from_wire_def)
qed

lemma seq_nat_new: "seq_nat (SeqNo_new v) = unat v mod 2 ^ 15"
  by (simp add: seq_nat_def SeqNo_new_def and_MAX)

lemma distance_add:
  assumes "SeqNo_wf s" and "unat n < 2 ^ 15"
  shows "SeqNo_distance s (SeqNo_add s n) = n"
proof -
  from assms(1) have s: "seq_nat s < 2 ^ 15" by (simp add: SeqNo_wf_nat)
  have "unat (SeqNo_distance s (SeqNo_add s n)) = unat n"
  proof (cases "seq_nat s + unat n < 2 ^ 15")
    case True
    with assms show ?thesis by (simp add: seq_nat_distance seq_nat_add)
  next
    case False
    with s assms(2) have "(seq_nat s + unat n) mod 2 ^ 15 = seq_nat s + unat n - 2 ^ 15"
      by (simp add: mod_if)
    with False assms show ?thesis by (simp add: seq_nat_distance seq_nat_add)
  qed
  then show ?thesis by (simp add: word_unat_eq_iff)
qed

lemma add_distance:
  assumes "SeqNo_wf s" and "SeqNo_wf t"
  shows "SeqNo_add s (SeqNo_distance s t) = t"
proof -
  from assms have "seq_nat s < 2 ^ 15" "seq_nat t < 2 ^ 15" by (simp_all add: SeqNo_wf_nat)
  then have "seq_nat (SeqNo_add s (SeqNo_distance s t)) = seq_nat t"
    using assms by (simp add: seq_nat_add seq_nat_distance mod_add_right_eq)
  then show ?thesis by (simp add: seq_nat_inj)
qed

lemma distance_zero: "SeqNo_wf s \<Longrightarrow> SeqNo_wf t \<Longrightarrow> SeqNo_distance s t = 0 \<longleftrightarrow> s = t"
proof
  assume *: "SeqNo_wf s" "SeqNo_wf t" and "SeqNo_distance s t = 0"
  with add_distance [OF *] have "SeqNo_add s 0 = t" by simp
  then have "seq_nat t = seq_nat s" using * seq_nat_add [of s 0] by (simp add: SeqNo_wf_nat)
  then show "s = t" by (simp add: seq_nat_inj)
next
  assume *: "SeqNo_wf s" "s = t"
  then have "unat (SeqNo_distance s t) = 0" by (simp add: seq_nat_distance)
  then show "SeqNo_distance s t = 0" by (simp add: word_unat_eq_iff)
qed

text \<open>The additions and the subtraction in \<^verbatim>\<open>distance\<close> stay within \<^verbatim>\<open>u16\<close>.\<close>

lemma distance_no_overflow:
  assumes "SeqNo_wf s" and "SeqNo_wf t"
  shows "seq_nat t + 2 ^ 15 < 2 ^ 16" and "seq_nat s \<le> seq_nat t + 2 ^ 15"
  using assms by (simp_all add: SeqNo_wf_nat)

lemma wire_roundtrip: "SeqNo_wf s \<Longrightarrow> SeqNo_from_wire (SeqNo_to_wire s) = s"
proof -
  assume wf: "SeqNo_wf s"
  then have "unat (SeqNo_value s) < 2 ^ 15" by (simp add: SeqNo_wf_nat seq_nat_def)
  then have v: "SeqNo_value s < 2 ^ 15" by (simp add: word_less_nat_alt)
  have "drop_bit 1 (push_bit 1 (SeqNo_value s)) = SeqNo_value s"
    by (rule bit_word_eqI) (auto simp: bit_simps simp del: push_bit_Suc drop_bit_Suc One_nat_def dest: word_lt_bit_index [OF v])
  moreover have "SeqNo_value s AND SeqNo_MAX = SeqNo_value s"
    using wf by (simp add: word_unat_eq_iff and_MAX SeqNo_wf_nat seq_nat_def)
  ultimately show ?thesis
    by (cases s) (simp add: SeqNo_from_wire_def SeqNo_to_wire_def)
qed

lemma to_wire_even: "\<not> bit (SeqNo_to_wire s) 0"
  by (simp add: SeqNo_to_wire_def bit_simps del: push_bit_Suc One_nat_def)

section \<open>APDUs\<close>

definition MAX_ASDU_LEN :: nat where "MAX_ASDU_LEN = 249"
definition MAX_APDU_LEN :: nat where "MAX_APDU_LEN = 255"

datatype UFunction = StartDtAct | StartDtCon | StopDtAct | StopDtCon | TestFrAct | TestFrCon

definition UFunction_first_octet :: "UFunction \<Rightarrow> u8" where
  "UFunction_first_octet self =
     (case self of
        StartDtAct \<Rightarrow> 0x07
      | StartDtCon \<Rightarrow> 0x0B
      | StopDtAct \<Rightarrow> 0x13
      | StopDtCon \<Rightarrow> 0x23
      | TestFrAct \<Rightarrow> 0x43
      | TestFrCon \<Rightarrow> 0x83)"

definition UFunction_from_first_octet :: "u8 \<Rightarrow> UFunction option" where
  "UFunction_from_first_octet b =
     (if b = 0x07 then Some StartDtAct
      else if b = 0x0B then Some StartDtCon
      else if b = 0x13 then Some StopDtAct
      else if b = 0x23 then Some StopDtCon
      else if b = 0x43 then Some TestFrAct
      else if b = 0x83 then Some TestFrCon
      else None)"

datatype Apdu =
    I SeqNo SeqNo octets
  | S SeqNo
  | U UFunction

definition Apdu_wf :: "Apdu \<Rightarrow> bool" where
  "Apdu_wf apdu \<longleftrightarrow>
     (case apdu of
        I send recv asdu \<Rightarrow> SeqNo_wf send \<and> SeqNo_wf recv \<and> length asdu \<le> MAX_ASDU_LEN
      | S recv \<Rightarrow> SeqNo_wf recv
      | U _ \<Rightarrow> True)"

section \<open>The codec\<close>

definition START :: u8 where "START = 0x68"

text \<open>A value and what the call leaves in the buffer.\<close>

type_synonym 'a buffered = "'a outcome \<times> octets"

fun with_read :: "('a \<times> octets) outcome \<Rightarrow> octets \<Rightarrow> ('a \<Rightarrow> octets \<Rightarrow> 'b buffered) \<Rightarrow> 'b buffered" where
  "with_read Panic buf k = (Panic, buf)"
| "with_read (Err e) buf k = (Err e, buf)"
| "with_read (Ok (x, buf')) buf k = k x buf'"

definition Codec_write :: "bytes_api \<Rightarrow> Apdu \<Rightarrow> octets \<Rightarrow> octets" where
  "Codec_write bo apdu buf =
     (case apdu of
        I send recv asdu \<Rightarrow>
          (let len = 4 + of_nat (length asdu);
               buf = put_u8 bo buf START;
               buf = put_u8 bo buf len;
               buf = put_u16_le bo buf (SeqNo_to_wire send);
               buf = put_u16_le bo buf (SeqNo_to_wire recv)
           in put_slice bo buf asdu)
      | S recv \<Rightarrow>
          (let buf = put_u8 bo buf START;
               buf = put_u8 bo buf 4;
               buf = put_u8 bo buf 0x01;
               buf = put_u8 bo buf 0x00
           in put_u16_le bo buf (SeqNo_to_wire recv))
      | U function \<Rightarrow>
          (let buf = put_u8 bo buf START;
               buf = put_u8 bo buf 4;
               buf = put_u8 bo buf (UFunction_first_octet function);
               buf = put_u8 bo buf 0x00;
               buf = put_u8 bo buf 0x00
           in put_u8 bo buf 0x00))"

definition Codec_encode :: "bytes_api \<Rightarrow> Apdu \<Rightarrow> octets \<Rightarrow> nat buffered" where
  "Codec_encode bo apdu buf =
     (let asdu_len = (case apdu of I _ _ asdu \<Rightarrow> length asdu | _ \<Rightarrow> 0)
      in if asdu_len > MAX_ASDU_LEN then (Err (AsduTooLong asdu_len MAX_ASDU_LEN), buf)
         else
           (let start = remaining_mut bo buf;
                buf = Codec_write bo apdu buf
            in if start < remaining_mut bo buf then (Panic, buf)
               else (Ok (start - remaining_mut bo buf), buf)))"

text \<open>The control field, shared by the two decoders (\<^verbatim>\<open>decode\<close> has it inline).\<close>

definition Codec_decode_payload :: "bytes_api \<Rightarrow> octets \<Rightarrow> nat \<Rightarrow> Apdu buffered" where
  "Codec_decode_payload bo buf len =
     with_read (get_u8 bo buf) buf (\<lambda>c1 buf.
     with_read (get_u8 bo buf) buf (\<lambda>c2 buf.
     with_read (get_u8 bo buf) buf (\<lambda>c3 buf.
     with_read (get_u8 bo buf) buf (\<lambda>c4 buf.
       if c1 AND 0x01 = 0 then
         (let send = SeqNo_from_wire (u16_from_le_bytes c1 c2);
              recv = SeqNo_from_wire (u16_from_le_bytes c3 c4)
          in if len < 4 then (Panic, buf)
             else with_read (copy_to_slice bo buf (len - 4)) buf (\<lambda>asdu buf. (Ok (I send recv asdu), buf)))
       else if c1 AND 0x03 = 0x01 then
         (if len \<noteq> 4 then (Err (LengthMismatch len 4), buf)
          else (Ok (S (SeqNo_from_wire (u16_from_le_bytes c3 c4))), buf))
       else
         (if len \<noteq> 4 then (Err (LengthMismatch len 4), buf)
          else (case UFunction_from_first_octet c1 of
                  None \<Rightarrow> (Err UnsupportedFormat, buf)
                | Some function \<Rightarrow> (Ok (U function), buf)))))))"

definition Codec_decode :: "bytes_api \<Rightarrow> octets \<Rightarrow> Apdu option buffered" where
  "Codec_decode bo buf =
     (if remaining bo buf < 2 then (Ok None, buf)
      else with_read (copy_to_slice bo buf 2) buf (\<lambda>header buf.
        if header ! 0 \<noteq> START then (Err (InvalidStartByte START (header ! 0)), buf)
        else
          (let len = unat (header ! 1)
           in if len < 4 then (Err (LengthMismatch len 4), buf)
              else if remaining bo buf < len then (Err (Incomplete len (remaining bo buf)), buf)
              else (case Codec_decode_payload bo buf len of
                      (Ok apdu, buf) \<Rightarrow> (Ok (Some apdu), buf)
                    | (Err e, buf) \<Rightarrow> (Err e, buf)
                    | (Panic, buf) \<Rightarrow> (Panic, buf)))))"

definition Codec_decode_slice :: "bytes_api \<Rightarrow> octets \<Rightarrow> (Apdu \<times> nat) option outcome" where
  "Codec_decode_slice bo buf =
     (if length buf < 2 then Ok None
      else if buf ! 0 \<noteq> START then Err (InvalidStartByte START (buf ! 0))
      else
        (let len = unat (buf ! 1)
         in if len < 4 then Err (LengthMismatch len 4)
            else
              (let total = 2 + len
               in if length buf < total then Ok None
                  else
                    (let slice = take len (drop 2 buf)
                     in and_then (fst (Codec_decode_payload bo slice len)) (\<lambda>apdu.
                          Ok (Some (apdu, total)))))))"

section \<open>What the codec guarantees\<close>

definition apdu_wire :: "Apdu \<Rightarrow> octets" where
  "apdu_wire apdu =
     (case apdu of
        I send recv asdu \<Rightarrow>
          [START, 4 + of_nat (length asdu)] @ u16_to_le_bytes (SeqNo_to_wire send) @ u16_to_le_bytes (SeqNo_to_wire recv) @ asdu
      | S recv \<Rightarrow> [START, 4, 1, 0] @ u16_to_le_bytes (SeqNo_to_wire recv)
      | U function \<Rightarrow> [START, 4, UFunction_first_octet function, 0, 0, 0])"

lemma apdu_wire_length: "length (apdu_wire apdu) = (case apdu of I _ _ asdu \<Rightarrow> 6 + length asdu | _ \<Rightarrow> 6)"
  by (simp add: apdu_wire_def u16_to_le_bytes_def split: Apdu.split)

lemma apdu_wire_bound: "Apdu_wf apdu \<Longrightarrow> length (apdu_wire apdu) \<le> MAX_APDU_LEN"
  by (simp add: apdu_wire_length Apdu_wf_def MAX_ASDU_LEN_def MAX_APDU_LEN_def split: Apdu.splits)

lemma apdu_wire_header:
  assumes "Apdu_wf apdu"
  shows "\<exists>body. apdu_wire apdu = START # of_nat (length body) # body \<and> 4 \<le> length body \<and> length body \<le> 253 \<and>
    unat (of_nat (length body) :: u8) = length body"
proof -
  have n: "unat (of_nat n :: u8) = n" if "n \<le> 253" for n
    using that by (simp add: unsigned_of_nat take_bit_nat_eq_self)
  show ?thesis
  proof (cases apdu)
    case (I send recv asdu)
    let ?body = "u16_to_le_bytes (SeqNo_to_wire send) @ u16_to_le_bytes (SeqNo_to_wire recv) @ asdu"
    from I assms have "length ?body \<le> 253"
      by (simp add: Apdu_wf_def MAX_ASDU_LEN_def u16_to_le_bytes_def)
    moreover have "4 + of_nat (length asdu) = (of_nat (length ?body) :: u8)"
      by (simp add: u16_to_le_bytes_def)
    ultimately show ?thesis using I n [of "length ?body"]
      by (intro exI [of _ ?body]) (simp add: apdu_wire_def u16_to_le_bytes_def)
  qed (auto simp: apdu_wire_def u16_to_le_bytes_def)
qed

lemma four_octets:
  assumes "length buf = len" and "4 \<le> len"
  obtains c1 c2 c3 c4 bs where "buf = c1 # c2 # c3 # c4 # bs" "length bs = len - 4"
proof -
  from assms have "buf = buf ! 0 # buf ! 1 # buf ! 2 # buf ! 3 # drop 4 buf"
    by (intro nth_equalityI) (auto simp: nth_Cons numeral_eq_Suc split: nat.split)
  moreover from assms have "length (drop 4 buf) = len - 4" by simp
  ultimately show thesis using that by blast
qed

lemma to_wire_octet: "ucast (SeqNo_to_wire s) AND (1 :: u8) = 0"
  using to_wire_even [of s] by (simp add: flag_simps bit_simps)

context bytes_crate
begin

lemma Codec_write_wire: "Codec_write bo apdu buf = buf @ apdu_wire apdu"
  by (simp add: Codec_write_def apdu_wire_def put_simps Let_def split: Apdu.split)

lemma Codec_encode_ok:
  assumes "Apdu_wf apdu" and "MAX_APDU_LEN \<le> remaining_mut bo buf"
  shows "Codec_encode bo apdu buf = (Ok (length (apdu_wire apdu)), buf @ apdu_wire apdu)"
proof -
  have "length (apdu_wire apdu) \<le> remaining_mut bo buf"
    using apdu_wire_bound [OF assms(1)] assms(2) by simp
  with assms(1) show ?thesis
    by (auto simp: Codec_encode_def Codec_write_wire remaining_mut Apdu_wf_def Let_def split: Apdu.splits)
qed

lemma Codec_encode_too_long:
  "MAX_ASDU_LEN < length asdu \<Longrightarrow>
    Codec_encode bo (I send recv asdu) buf = (Err (AsduTooLong (length asdu) MAX_ASDU_LEN), buf)"
  by (simp add: Codec_encode_def)

text \<open>The control field is read back, whatever follows the frame.\<close>

lemma decode_payload_wire:
  assumes "Apdu_wf apdu"
  shows "Codec_decode_payload bo (drop 2 (apdu_wire apdu) @ rest) (length (apdu_wire apdu) - 2) = (Ok apdu, rest)"
proof (cases apdu)
  case (I send recv asdu)
  with assms show ?thesis
    by (simp add: Codec_decode_payload_def apdu_wire_def u16_to_le_bytes_def get_simps to_wire_octet bytes_simps
      Apdu_wf_def wire_roundtrip)
next
  case (S recv)
  with assms show ?thesis
    by (simp add: Codec_decode_payload_def apdu_wire_def u16_to_le_bytes_def get_simps bytes_simps Apdu_wf_def wire_roundtrip)
next
  case (U f)
  then show ?thesis
    by (cases f) (simp_all add: Codec_decode_payload_def apdu_wire_def get_simps UFunction_first_octet_def
      UFunction_from_first_octet_def)
qed

lemma decode_slice_wire:
  assumes "Apdu_wf apdu"
  shows "Codec_decode_slice bo (apdu_wire apdu @ rest) = Ok (Some (apdu, length (apdu_wire apdu)))"
proof -
  from apdu_wire_header [OF assms] obtain body where
    b: "apdu_wire apdu = START # of_nat (length body) # body" "4 \<le> length body"
      "unat (of_nat (length body) :: u8) = length body" by blast
  with decode_payload_wire [OF assms, of "[]"] show ?thesis
    by (simp add: Codec_decode_slice_def)
qed

lemma decode_slice_prefix:
  assumes "Apdu_wf apdu" and "n < length (apdu_wire apdu)"
  shows "Codec_decode_slice bo (take n (apdu_wire apdu)) = Ok None"
proof -
  from apdu_wire_header [OF assms(1)] obtain body where
    b: "apdu_wire apdu = START # of_nat (length body) # body" "4 \<le> length body"
      "unat (of_nat (length body) :: u8) = length body" by blast
  consider "n = 0" | "n = 1" | m where "n = Suc (Suc m)" by (metis One_nat_def not0_implies_Suc)
  with b assms(2) show ?thesis
    by cases (auto simp: Codec_decode_slice_def)
qed

lemma decode_wire:
  assumes "Apdu_wf apdu"
  shows "Codec_decode bo (apdu_wire apdu @ rest) = (Ok (Some apdu), rest)"
proof -
  from apdu_wire_header [OF assms] obtain body where
    b: "apdu_wire apdu = START # of_nat (length body) # body" "4 \<le> length body"
      "unat (of_nat (length body) :: u8) = length body" by blast
  with decode_payload_wire [OF assms, of rest] show ?thesis
    by (simp add: Codec_decode_def get_simps)
qed

text \<open>Arbitrary input: four control octets are there whenever the length field says so.\<close>

lemma decode_payload_total:
  assumes "length buf = len" and "4 \<le> len" and "len \<le> 255"
  shows "fst (Codec_decode_payload bo buf len) \<noteq> Panic"
    and "fst (Codec_decode_payload bo buf len) = Ok apdu \<Longrightarrow>
      (case apdu of I s r asdu \<Rightarrow> SeqNo_wf s \<and> SeqNo_wf r \<and> length asdu = len - 4 | S r \<Rightarrow> SeqNo_wf r \<and> len = 4 | U _ \<Rightarrow> len = 4)"
proof -
  from assms obtain c1 c2 c3 c4 bs where "buf = c1 # c2 # c3 # c4 # bs" "length bs = len - 4"
    by (metis four_octets)
  then show "fst (Codec_decode_payload bo buf len) \<noteq> Panic"
    and "fst (Codec_decode_payload bo buf len) = Ok apdu \<Longrightarrow>
      (case apdu of I s r asdu \<Rightarrow> SeqNo_wf s \<and> SeqNo_wf r \<and> length asdu = len - 4 | S r \<Rightarrow> SeqNo_wf r \<and> len = 4 | U _ \<Rightarrow> len = 4)"
    using assms by (auto simp: Codec_decode_payload_def get_simps split: if_splits option.splits)
qed

lemma decode_slice_not_panic: "Codec_decode_slice bo buf \<noteq> Panic"
  using decode_payload_total(1) [of "take (unat (buf ! 1)) (drop 2 buf)" "unat (buf ! 1)"] unsigned_less [of "buf ! 1", where 'a = nat]
  by (auto simp: Codec_decode_slice_def Let_def and_then_Panic_iff)

lemma decode_slice_Some:
  assumes "Codec_decode_slice bo buf = Ok (Some (apdu, n))"
  shows "6 \<le> n \<and> n \<le> length buf \<and> n = length (apdu_wire apdu) \<and>
    (case apdu of I s r _ \<Rightarrow> SeqNo_wf s \<and> SeqNo_wf r | S r \<Rightarrow> SeqNo_wf r | U _ \<Rightarrow> True)"
  using assms decode_payload_total(2) [of "take (unat (buf ! 1)) (drop 2 buf)" "unat (buf ! 1)" apdu]
    unsigned_less [of "buf ! 1", where 'a = nat]
  by (auto simp: Codec_decode_slice_def Let_def and_then_Ok_iff apdu_wire_length split: if_splits Apdu.splits)

end

end
