(* ===== verification/State104.thy ===== *)
theory State104
  imports Frame104
begin

text \<open>
  The IEC 60870-5-104 connection state machine, \<^verbatim>\<open>crates/iec60870-proto/src/frame104/state.rs\<close>.
  The struct \<^verbatim>\<open>Connection\<close> is a record, every \<^verbatim>\<open>&mut self\<close> method a function from the old to the
  new record, and \<open>conn_handle\<close> returns the drained actions with the new state.  Time is a natural
  number handed to every call, as in the sources.
\<close>

section \<open>Data\<close>

datatype Role = Client | Server

record Config =
  cfg_k :: u16
  cfg_w :: u16
  cfg_t1 :: Duration
  cfg_t2 :: Duration
  cfg_t3 :: Duration

definition Config_default :: Config where
  "Config_default =
     \<lparr> cfg_k = 12, cfg_w = 8, cfg_t1 = Duration_from_secs 15, cfg_t2 = Duration_from_secs 10,
       cfg_t3 = Duration_from_secs 20 \<rparr>"

datatype State = Stopped | Starting | Active | Stopping | Closed

datatype Input =
    Input_Apdu Apdu
  | StartDt
  | StopDt
  | SendAsdu octets
  | Tick

datatype DisconnectReason = AckTimeout | ProtocolError | StoppedCleanly

datatype Action =
    SendApdu Apdu
  | DeliverAsdu octets
  | StateChanged State
  | Disconnect DisconnectReason

record Connection =
  conn_role :: Role
  conn_config :: Config
  conn_state :: State
  send_next :: SeqNo
  recv_next :: SeqNo
  sent :: "(SeqNo \<times> Instant) list"
  unacked_recv :: u16
  last_recv_iframe :: "Instant option"
  last_send_any :: "Instant option"
  last_recv_any :: "Instant option"
  test_sent :: "Instant option"
  pending :: "octets list"
  actions :: "Action list"

definition conn_new :: "Role \<Rightarrow> Config \<Rightarrow> Connection" where
  "conn_new role config =
     \<lparr> conn_role = role, conn_config = config, conn_state = Stopped,
       send_next = SeqNo_new 0, recv_next = SeqNo_new 0, sent = [], unacked_recv = 0,
       last_recv_iframe = None, last_send_any = None, last_recv_any = None, test_sent = None,
       pending = [], actions = [] \<rparr>"

section \<open>Emitting\<close>

definition push_action :: "Action \<Rightarrow> Connection \<Rightarrow> Connection" where
  "push_action a self = self\<lparr> actions := actions self @ [a] \<rparr>"

definition transition :: "State \<Rightarrow> Connection \<Rightarrow> Connection" where
  "transition to self =
     (if conn_state self \<noteq> to then push_action (StateChanged to) (self\<lparr> conn_state := to \<rparr>) else self)"

definition emit_apdu :: "Apdu \<Rightarrow> Connection \<Rightarrow> Connection" where
  "emit_apdu apdu self = push_action (SendApdu apdu) self"

definition emit_supervisory :: "Instant \<Rightarrow> Connection \<Rightarrow> Connection" where
  "emit_supervisory now self =
     (push_action (SendApdu (S (recv_next self))) self)\<lparr> unacked_recv := 0, last_send_any := Some now \<rparr>"

definition send_iframe :: "octets \<Rightarrow> Instant \<Rightarrow> Connection \<Rightarrow> Connection" where
  "send_iframe asdu now self =
     (let send = send_next self;
          self = self\<lparr> send_next := SeqNo_next (send_next self) \<rparr>;
          self = self\<lparr> sent := sent self @ [(send, now)] \<rparr>;
          self = self\<lparr> unacked_recv := 0, last_send_any := Some now \<rparr>
      in push_action (SendApdu (I send (recv_next self) asdu)) self)"

section \<open>Acknowledgement and the send window\<close>

function flush_pending :: "Instant \<Rightarrow> Connection \<Rightarrow> Connection" where
  "flush_pending now self =
     (if pending self \<noteq> [] \<and> length (sent self) < unat (cfg_k (conn_config self)) then
        (let asdu = hd (pending self);
             self = self\<lparr> pending := tl (pending self) \<rparr>
         in flush_pending now (send_iframe asdu now self))
      else self)"
  by pat_completeness auto
termination
  by (relation "measure (\<lambda>(now, self). length (pending self))") (auto simp: send_iframe_def push_action_def Let_def)

declare flush_pending.simps [simp del]

text \<open>The \<^verbatim>\<open>while let\<close> loop popping acknowledged entries.\<close>

fun acknowledge_loop :: "SeqNo \<Rightarrow> (SeqNo \<times> Instant) list \<Rightarrow> (SeqNo \<times> Instant) list" where
  "acknowledge_loop nr [] = []"
| "acknowledge_loop nr ((seq, t) # queue) =
     (let d = SeqNo_distance seq nr
      in if d = 0 \<or> d > SeqNo_MAX div 2 then (seq, t) # queue else acknowledge_loop nr queue)"

definition acknowledge :: "SeqNo \<Rightarrow> Instant \<Rightarrow> Connection \<Rightarrow> Connection" where
  "acknowledge nr now self = flush_pending now (self\<lparr> sent := acknowledge_loop nr (sent self) \<rparr>)"

section \<open>Frames from the peer\<close>

definition protocol_error :: "Connection \<Rightarrow> Connection" where
  "protocol_error self = transition Closed (push_action (Disconnect ProtocolError) self)"

definition on_u_frame :: "UFunction \<Rightarrow> Instant \<Rightarrow> Connection \<Rightarrow> Connection" where
  "on_u_frame function now self =
     (case (function, conn_role self, conn_state self) of
        (StartDtCon, Client, Starting) \<Rightarrow> flush_pending now (transition Active self)
      | (StartDtAct, Server, Stopped) \<Rightarrow>
          flush_pending now (transition Active ((emit_apdu (U StartDtCon) self)\<lparr> last_send_any := Some now \<rparr>))
      | (StopDtAct, Server, _) \<Rightarrow>
          transition Stopped ((emit_apdu (U StopDtCon) self)\<lparr> last_send_any := Some now \<rparr>)
      | (StopDtCon, Client, Stopping) \<Rightarrow>
          (if sent self = [] then push_action (Disconnect StoppedCleanly) (transition Stopped self) else self)
      | (TestFrAct, _, _) \<Rightarrow> (emit_apdu (U TestFrCon) self)\<lparr> last_send_any := Some now \<rparr>
      | (TestFrCon, _, _) \<Rightarrow> self\<lparr> test_sent := None \<rparr>
      | _ \<Rightarrow> protocol_error self)"

definition on_i_frame :: "SeqNo \<Rightarrow> SeqNo \<Rightarrow> octets \<Rightarrow> Instant \<Rightarrow> Connection \<Rightarrow> Connection" where
  "on_i_frame send recv asdu now self =
     (if conn_state self \<notin> {Active, Stopping} then protocol_error self
      else if send \<noteq> recv_next self then protocol_error self
      else
        (let self = self\<lparr> recv_next := SeqNo_next (recv_next self) \<rparr>;
             self = self\<lparr> unacked_recv := (if unacked_recv self = 0xFFFF then 0xFFFF else unacked_recv self + 1) \<rparr>;
             self = self\<lparr> last_recv_iframe := Some now \<rparr>;
             self = acknowledge recv now self;
             self = push_action (DeliverAsdu asdu) self
         in if unacked_recv self \<ge> cfg_w (conn_config self) then emit_supervisory now self else self))"

definition on_apdu :: "Apdu \<Rightarrow> Instant \<Rightarrow> Connection \<Rightarrow> Connection" where
  "on_apdu apdu now self =
     (let self = self\<lparr> last_recv_any := Some now \<rparr>
      in case apdu of
           U function \<Rightarrow> on_u_frame function now self
         | S recv \<Rightarrow> if conn_state self \<in> {Active, Stopping} then acknowledge recv now self else self
         | I send recv asdu \<Rightarrow> on_i_frame send recv asdu now self)"

section \<open>User requests\<close>

definition on_user_startdt :: "Instant \<Rightarrow> Connection \<Rightarrow> Connection" where
  "on_user_startdt now self =
     (if conn_role self = Client \<and> conn_state self = Stopped then
        transition Starting ((emit_apdu (U StartDtAct) self)\<lparr> last_send_any := Some now \<rparr>)
      else self)"

definition on_user_stopdt :: "Instant \<Rightarrow> Connection \<Rightarrow> Connection" where
  "on_user_stopdt now self =
     (if conn_state self = Active then
        (if conn_role self = Client then
           transition Stopping ((emit_apdu (U StopDtAct) self)\<lparr> last_send_any := Some now \<rparr>)
         else transition Stopped self)
      else self)"

definition on_user_send :: "octets \<Rightarrow> Instant \<Rightarrow> Connection \<Rightarrow> Connection" where
  "on_user_send asdu now self =
     (if conn_state self \<noteq> Active then self\<lparr> pending := pending self @ [asdu] \<rparr>
      else if length (sent self) \<ge> unat (cfg_k (conn_config self)) then self\<lparr> pending := pending self @ [asdu] \<rparr>
      else send_iframe asdu now self)"

section \<open>Timers\<close>

definition ack_timeout :: "Connection \<Rightarrow> Connection" where
  "ack_timeout self = transition Closed (push_action (Disconnect AckTimeout) self)"

definition elapsed :: "Instant \<Rightarrow> Instant option \<Rightarrow> Duration \<Rightarrow> bool" where
  "elapsed now since d = (case since of None \<Rightarrow> False | Some t \<Rightarrow> saturating_duration_since now t \<ge> d)"

definition last_io :: "Connection \<Rightarrow> Instant option" where
  "last_io self =
     (case (last_send_any self, last_recv_any self) of
        (Some a, Some b) \<Rightarrow> Some (max a b)
      | (Some a, None) \<Rightarrow> Some a
      | (None, Some b) \<Rightarrow> Some b
      | (None, None) \<Rightarrow> None)"

definition run_timers :: "Instant \<Rightarrow> Connection \<Rightarrow> Connection" where
  "run_timers now self =
     (if sent self \<noteq> [] \<and> elapsed now (Some (snd (hd (sent self)))) (cfg_t1 (conn_config self)) then ack_timeout self
      else if elapsed now (test_sent self) (cfg_t1 (conn_config self)) then ack_timeout self
      else
        (let self = (if unacked_recv self > 0 \<and> elapsed now (last_recv_iframe self) (cfg_t2 (conn_config self))
                     then emit_supervisory now self else self);
             self = (if conn_state self \<in> {Active, Stopping} \<and> test_sent self = None \<and>
                        elapsed now (last_io self) (cfg_t3 (conn_config self))
                     then (emit_apdu (U TestFrAct) self)\<lparr> last_send_any := Some now, test_sent := Some now \<rparr>
                     else self)
         in if conn_state self = Stopping \<and> sent self = [] \<and> pending self = []
            then push_action (Disconnect StoppedCleanly) (transition Stopped self)
            else self))"

section \<open>The entry point\<close>

definition conn_dispatch :: "Input \<Rightarrow> Instant \<Rightarrow> Connection \<Rightarrow> Connection" where
  "conn_dispatch input now self =
     (case input of
        Input_Apdu apdu \<Rightarrow> on_apdu apdu now self
      | StartDt \<Rightarrow> on_user_startdt now self
      | StopDt \<Rightarrow> on_user_stopdt now self
      | SendAsdu asdu \<Rightarrow> on_user_send asdu now self
      | Tick \<Rightarrow> self)"

definition conn_handle :: "Input \<Rightarrow> Instant \<Rightarrow> Connection \<Rightarrow> Connection \<times> Action list" where
  "conn_handle input now self =
     (let self = run_timers now (conn_dispatch input now self)
      in (self\<lparr> actions := [] \<rparr>, actions self))"

section \<open>Closed forms of the two loops\<close>

text \<open>\<open>n\<close> consecutive sequence numbers from \<open>s\<close>, and the one that follows them.\<close>

primrec seq_run :: "SeqNo \<Rightarrow> nat \<Rightarrow> SeqNo list" where
  "seq_run s 0 = []"
| "seq_run s (Suc n) = s # seq_run (SeqNo_next s) n"

primrec seq_after :: "SeqNo \<Rightarrow> nat \<Rightarrow> SeqNo" where
  "seq_after s 0 = s"
| "seq_after s (Suc n) = seq_after (SeqNo_next s) n"

lemma length_seq_run [simp]: "length (seq_run s n) = n"
  by (induction n arbitrary: s) auto

lemma seq_run_add: "seq_run s (m + n) = seq_run s m @ seq_run (seq_after s m) n"
  by (induction m arbitrary: s) auto

lemma seq_after_add: "seq_after s (m + n) = seq_after (seq_after s m) n"
  by (induction m arbitrary: s) auto

lemma seq_after_Suc: "seq_after s (Suc n) = SeqNo_next (seq_after s n)"
  using seq_after_add [of s n 1] by simp

lemma seq_run_Suc: "seq_run s (Suc n) = seq_run s n @ [seq_after s n]"
  using seq_run_add [of s n 1] by simp

lemma seq_after_wf: "SeqNo_wf s \<Longrightarrow> SeqNo_wf (seq_after s n)"
  by (induction n arbitrary: s) auto

lemma seq_run_drop: "drop m (seq_run s n) = seq_run (seq_after s m) (n - m)"
proof (cases "m \<le> n")
  case True
  then show ?thesis using seq_run_add [of s m "n - m"] by simp
qed simp

lemma seq_run_nth: "i < n \<Longrightarrow> seq_run s n ! i = seq_after s i"
  by (induction n arbitrary: s i) (auto simp: nth_Cons split: nat.split)

lemma seq_after_nat: "SeqNo_wf s \<Longrightarrow> seq_nat (seq_after s n) = (seq_nat s + n) mod 2 ^ 15"
proof (induction n arbitrary: s)
  case (Suc n)
  have "seq_nat (seq_after s (Suc n)) = (seq_nat (SeqNo_next s) + n) mod 2 ^ 15"
    using Suc.IH [of "SeqNo_next s"] by simp
  then show ?case by (simp add: seq_nat_next mod_add_left_eq)
qed (simp add: SeqNo_wf_nat)

lemma distance_next:
  assumes "SeqNo_wf s" and "SeqNo_wf t" and "SeqNo_distance s t \<noteq> 0"
  shows "unat (SeqNo_distance (SeqNo_next s) t) = unat (SeqNo_distance s t) - 1"
proof -
  from assms have st: "s \<noteq> t" using distance_zero by blast
  then have "seq_nat s \<noteq> seq_nat t" by (simp add: seq_nat_inj)
  moreover from assms(1,2) have "seq_nat s < 32768" "seq_nat t < 32768" by (simp_all add: SeqNo_wf_nat)
  ultimately show ?thesis
    using assms(1) by (simp add: seq_nat_distance seq_nat_next mod_if) arith
qed

text \<open>The acknowledged prefix: as many entries as the peer's number is ahead of the oldest one.\<close>

definition acked :: "SeqNo \<Rightarrow> SeqNo \<Rightarrow> nat" where
  "acked s nr = (let d = unat (SeqNo_distance s nr) in if d \<le> 16383 then d else 0)"

lemma acknowledge_loop_run:
  assumes "map fst q = seq_run s (length q)" and "SeqNo_wf s" and "SeqNo_wf nr"
  shows "acknowledge_loop nr q = drop (acked s nr) q"
  using assms
proof (induction q arbitrary: s)
  case (Cons e q)
  obtain t where e: "e = (s, t)" and q: "map fst q = seq_run (SeqNo_next s) (length q)"
    using Cons.prems(1) by (cases e) auto
  let ?d = "SeqNo_distance s nr"
  have div: "SeqNo_MAX div 2 = 16383" by (simp add: seq_consts)
  show ?case
  proof (cases "?d = 0 \<or> ?d > SeqNo_MAX div 2")
    case True
    then have "acked s nr = 0" unfolding div by (auto simp: acked_def Let_def word_less_nat_alt)
    with True show ?thesis by (simp add: e)
  next
    case False
    then have d: "?d \<noteq> 0" "unat ?d \<le> 16383" unfolding div by (auto simp: word_less_nat_alt not_less)
    then have "0 < unat ?d" by (simp add: word_neq_0_conv unat_gt_0)
    with d distance_next [OF Cons.prems(2,3) d(1)] have "acked s nr = Suc (acked (SeqNo_next s) nr)"
      by (simp add: acked_def Let_def) arith
    moreover have "acknowledge_loop nr (e # q) = acknowledge_loop nr q"
      using False by (simp add: e)
    ultimately show ?thesis using Cons.IH [OF q _ Cons.prems(3)] by simp
  qed
qed simp

text \<open>Flushing sends as many queued ASDUs as the window has room for.\<close>

definition flush_count :: "Connection \<Rightarrow> nat" where
  "flush_count c = min (length (pending c)) (unat (cfg_k (conn_config c)) - length (sent c))"

definition sent_frames :: "SeqNo \<Rightarrow> SeqNo \<Rightarrow> octets list \<Rightarrow> Action list" where
  "sent_frames s recv xs = map (\<lambda>(s, x). SendApdu (I s recv x)) (zip (seq_run s (length xs)) xs)"

lemma flush_pending_closed:
  "flush_pending now c =
     (let n = flush_count c
      in c\<lparr> pending := drop n (pending c),
            sent := sent c @ map (\<lambda>s. (s, now)) (seq_run (send_next c) n),
            send_next := seq_after (send_next c) n,
            unacked_recv := (if n = 0 then unacked_recv c else 0),
            last_send_any := (if n = 0 then last_send_any c else Some now),
            actions := actions c @ sent_frames (send_next c) (recv_next c) (take n (pending c)) \<rparr>)"
proof (induction now c rule: flush_pending.induct)
  case (1 now c)
  let ?k = "unat (cfg_k (conn_config c))"
  show ?case
  proof (cases "pending c \<noteq> [] \<and> length (sent c) < ?k")
    case False
    then have "flush_count c = 0" by (auto simp: flush_count_def)
    with False show ?thesis by (subst flush_pending.simps) (auto simp: sent_frames_def)
  next
    case True
    then obtain x xs where p: "pending c = x # xs" by (cases "pending c") auto
    let ?c = "send_iframe x now (c\<lparr> pending := xs \<rparr>)"
    have n: "flush_count c = Suc (flush_count ?c)"
      using True p by (auto simp: flush_count_def send_iframe_def push_action_def Let_def min_def)
    have "flush_pending now c = flush_pending now ?c"
      using True p by (subst flush_pending.simps) simp
    with 1 [OF True refl refl] p n show ?thesis
      by (simp add: Let_def) (simp add: send_iframe_def push_action_def Let_def sent_frames_def)
  qed
qed

section \<open>The invariant\<close>

text \<open>
  The send window holds at most \<open>k\<close> entries, numbered consecutively up to the last number used.  While
  data transfer is active, ASDUs wait only because the window is full.  Fewer than \<open>w\<close> received frames
  are unacknowledged between two calls.  A server is never half-started or half-stopped.
\<close>

definition window_ok :: "Connection \<Rightarrow> bool" where
  "window_ok c \<longleftrightarrow> SeqNo_wf (send_next c) \<and> SeqNo_wf (recv_next c) \<and>
     length (sent c) \<le> unat (cfg_k (conn_config c)) \<and>
     (\<exists>s. SeqNo_wf s \<and> map fst (sent c) = seq_run s (length (sent c)) \<and> send_next c = seq_after s (length (sent c)))"

definition acks_ok :: "Connection \<Rightarrow> bool" where
  "acks_ok c \<longleftrightarrow> unacked_recv c = 0 \<or> unacked_recv c < cfg_w (conn_config c)"

definition conn_ok :: "Connection \<Rightarrow> bool" where
  "conn_ok c \<longleftrightarrow> window_ok c \<and> acks_ok c \<and>
     (conn_state c = Active \<longrightarrow> flush_count c = 0) \<and>
     (conn_role c = Server \<longrightarrow> conn_state c \<noteq> Starting \<and> conn_state c \<noteq> Stopping)"

definition conn_inv :: "Connection \<Rightarrow> bool" where
  "conn_inv c \<longleftrightarrow> conn_ok c \<and> actions c = []"

definition Input_wf :: "Input \<Rightarrow> bool" where
  "Input_wf i \<longleftrightarrow>
     (case i of Input_Apdu (I s r _) \<Rightarrow> SeqNo_wf s \<and> SeqNo_wf r | Input_Apdu (S r) \<Rightarrow> SeqNo_wf r | _ \<Rightarrow> True)"

lemmas conn_ops = push_action_def transition_def emit_apdu_def emit_supervisory_def protocol_error_def ack_timeout_def

lemma conn_new_inv: "conn_inv (conn_new role config)"
  by (auto simp: conn_inv_def conn_ok_def window_ok_def acks_ok_def conn_new_def flush_count_def intro!: exI [of _ "SeqNo_new 0"])

lemma window_flush: "window_ok c \<Longrightarrow> window_ok (flush_pending now c)"
  by (auto simp: window_ok_def flush_pending_closed Let_def flush_count_def seq_after_wf comp_def seq_run_add seq_after_add)

lemma flush_pending_frame [simp]:
  "conn_role (flush_pending now c) = conn_role c" "conn_config (flush_pending now c) = conn_config c"
  "conn_state (flush_pending now c) = conn_state c" "recv_next (flush_pending now c) = recv_next c"
  "last_recv_iframe (flush_pending now c) = last_recv_iframe c" "test_sent (flush_pending now c) = test_sent c"
  "last_recv_any (flush_pending now c) = last_recv_any c"
  by (simp_all add: flush_pending_closed Let_def)

lemma flush_pending_done [simp]: "flush_count (flush_pending now c) = 0"
  by (auto simp: flush_pending_closed Let_def flush_count_def)

lemma acks_flush: "acks_ok c \<Longrightarrow> acks_ok (flush_pending now c)"
  by (simp add: flush_pending_closed Let_def acks_ok_def)

lemma window_ack:
  assumes "window_ok c" and "SeqNo_wf nr"
  shows "window_ok (c\<lparr> sent := acknowledge_loop nr (sent c) \<rparr>)"
proof -
  from assms(1) obtain s where s: "SeqNo_wf s" "map fst (sent c) = seq_run s (length (sent c))"
      "send_next c = seq_after s (length (sent c))"
    by (auto simp: window_ok_def)
  let ?n = "min (acked s nr) (length (sent c))"
  have q: "acknowledge_loop nr (sent c) = drop ?n (sent c)"
    using acknowledge_loop_run [OF s(2,1) assms(2)] by (simp add: min_def)
  have "map fst (drop ?n (sent c)) = seq_run (seq_after s ?n) (length (sent c) - ?n)"
    by (simp add: drop_map [symmetric] s(2) seq_run_drop)
  moreover have "send_next c = seq_after (seq_after s ?n) (length (sent c) - ?n)"
    using s(3) seq_after_add [of s ?n "length (sent c) - ?n"] by simp
  ultimately show ?thesis
    using assms(1) s(1) q seq_after_wf by (auto simp: window_ok_def)
qed

lemma window_send:
  "window_ok c \<Longrightarrow> length (sent c) < unat (cfg_k (conn_config c)) \<Longrightarrow> window_ok (send_iframe asdu now c)"
  by (auto simp: window_ok_def send_iframe_def push_action_def Let_def seq_run_Suc seq_after_Suc simp del: seq_run.simps seq_after.simps)

text \<open>The parts of the invariant depend on few fields.\<close>

lemma window_frame [simp]:
  "window_ok (actions_update f c) = window_ok c" "window_ok (conn_state_update g c) = window_ok c"
  "window_ok (last_send_any_update h c) = window_ok c" "window_ok (last_recv_any_update h c) = window_ok c"
  "window_ok (last_recv_iframe_update h c) = window_ok c" "window_ok (test_sent_update h c) = window_ok c"
  "window_ok (unacked_recv_update u c) = window_ok c" "window_ok (pending_update p c) = window_ok c"
  by (simp_all add: window_ok_def)

lemma acks_frame [simp]:
  "acks_ok (actions_update f c) = acks_ok c" "acks_ok (conn_state_update g c) = acks_ok c"
  "acks_ok (last_send_any_update h c) = acks_ok c" "acks_ok (last_recv_any_update h c) = acks_ok c"
  "acks_ok (last_recv_iframe_update h c) = acks_ok c" "acks_ok (test_sent_update h c) = acks_ok c"
  "acks_ok (sent_update q c) = acks_ok c" "acks_ok (pending_update p c) = acks_ok c"
  "acks_ok (recv_next_update r c) = acks_ok c" "acks_ok (send_next_update r c) = acks_ok c"
  "acks_ok (c\<lparr> unacked_recv := 0 \<rparr>)"
  by (simp_all add: acks_ok_def)

lemma flush_count_frame [simp]:
  "flush_count (actions_update f c) = flush_count c" "flush_count (conn_state_update g c) = flush_count c"
  "flush_count (last_send_any_update h c) = flush_count c" "flush_count (last_recv_any_update h c) = flush_count c"
  "flush_count (last_recv_iframe_update h c) = flush_count c" "flush_count (test_sent_update h c) = flush_count c"
  "flush_count (unacked_recv_update u c) = flush_count c" "flush_count (recv_next_update r c) = flush_count c"
  by (simp_all add: flush_count_def)

lemma ok_on_u_frame:
  assumes "conn_ok c"
  shows "conn_ok (on_u_frame f now c)"
  using assms
  by (cases f; cases "conn_role c"; cases "conn_state c")
    (simp_all add: on_u_frame_def conn_ok_def conn_ops window_flush acks_flush)

lemma window_acknowledge: "window_ok c \<Longrightarrow> SeqNo_wf nr \<Longrightarrow> window_ok (acknowledge nr now c)"
  unfolding acknowledge_def by (rule window_flush [OF window_ack])

lemma ok_acknowledge:
  assumes "conn_ok c" and "SeqNo_wf nr"
  shows "conn_ok (acknowledge nr now c)"
  using assms by (simp add: conn_ok_def acknowledge_def window_flush window_ack acks_flush)

text \<open>An in-sequence I-frame, before its acknowledgement is processed.\<close>

definition accept :: "Instant \<Rightarrow> Connection \<Rightarrow> Connection" where
  "accept now c = c\<lparr> recv_next := SeqNo_next (recv_next c),
     unacked_recv := (if unacked_recv c = 0xFFFF then 0xFFFF else unacked_recv c + 1),
     last_recv_iframe := Some now \<rparr>"

lemma accept_frame [simp]:
  "conn_role (accept now c) = conn_role c" "conn_config (accept now c) = conn_config c"
  "conn_state (accept now c) = conn_state c" "recv_next (accept now c) = SeqNo_next (recv_next c)"
  "last_recv_iframe (accept now c) = Some now" "test_sent (accept now c) = test_sent c"
  "send_next (accept now c) = send_next c" "sent (accept now c) = sent c" "pending (accept now c) = pending c"
  "actions (accept now c) = actions c" "last_recv_any (accept now c) = last_recv_any c"
  "last_send_any (accept now c) = last_send_any c"
  by (simp_all add: accept_def)

lemma on_i_frame_accept:
  "on_i_frame send recv asdu now c =
     (if conn_state c \<notin> {Active, Stopping} \<or> send \<noteq> recv_next c then protocol_error c
      else
        (let d = push_action (DeliverAsdu asdu) (acknowledge recv now (accept now c))
         in if cfg_w (conn_config d) \<le> unacked_recv d then emit_supervisory now d else d))"
  by (simp add: on_i_frame_def accept_def Let_def)

lemma acknowledge_frame [simp]:
  "conn_role (acknowledge nr now c) = conn_role c" "conn_config (acknowledge nr now c) = conn_config c"
  "conn_state (acknowledge nr now c) = conn_state c" "recv_next (acknowledge nr now c) = recv_next c"
  "last_recv_iframe (acknowledge nr now c) = last_recv_iframe c" "test_sent (acknowledge nr now c) = test_sent c"
  "last_recv_any (acknowledge nr now c) = last_recv_any c" "flush_count (acknowledge nr now c) = 0"
  by (simp_all add: acknowledge_def)

lemma ok_on_i_frame:
  assumes "conn_ok c" and "SeqNo_wf recv"
  shows "conn_ok (on_i_frame send recv asdu now c)"
proof -
  have "window_ok (accept now c)" using assms(1) by (simp add: conn_ok_def window_ok_def)
  then have "window_ok (acknowledge recv now (accept now c))" by (rule window_acknowledge [OF _ assms(2)])
  with assms(1) show ?thesis
    by (auto simp: on_i_frame_accept Let_def conn_ok_def conn_ops acks_ok_def)
qed

lemma ok_dispatch:
  assumes "conn_ok c" and "Input_wf i"
  shows "conn_ok (conn_dispatch i now c)"
proof (cases i)
  case (Input_Apdu apdu)
  have c: "conn_ok (c\<lparr> last_recv_any := Some now \<rparr>)" using assms(1) by (simp add: conn_ok_def)
  from assms(2) Input_Apdu show ?thesis
    by (cases apdu) (simp_all add: conn_dispatch_def on_apdu_def Input_wf_def ok_on_u_frame [OF c] ok_on_i_frame [OF c]
      ok_acknowledge [OF c] c Let_def)
next
  case StopDt
  with assms show ?thesis by (cases "conn_role c") (auto simp: conn_dispatch_def on_user_stopdt_def conn_ok_def conn_ops)
next
  case (SendAsdu x)
  have "flush_count (send_iframe x now c) = 0" "acks_ok (send_iframe x now c)" if "flush_count c = 0"
    using that by (auto simp: send_iframe_def push_action_def Let_def flush_count_def)
  moreover have "flush_count (c\<lparr> pending := pending c @ [x] \<rparr>) = 0" if "unat (cfg_k (conn_config c)) \<le> length (sent c)"
    using that by (simp add: flush_count_def)
  moreover have "conn_role (send_iframe x now c) = conn_role c" "conn_state (send_iframe x now c) = conn_state c"
    by (simp_all add: send_iframe_def push_action_def Let_def)
  ultimately show ?thesis
    using assms(1) SendAsdu by (auto simp: conn_dispatch_def on_user_send_def conn_ok_def window_send)
qed (use assms in \<open>auto simp: conn_dispatch_def on_user_startdt_def conn_ok_def conn_ops\<close>)

lemma ok_run_timers: "conn_ok c \<Longrightarrow> conn_ok (run_timers now c)"
  by (auto simp: run_timers_def conn_ok_def conn_ops Let_def)

lemma conn_handle_inv: "conn_inv c \<Longrightarrow> Input_wf i \<Longrightarrow> conn_inv (fst (conn_handle i now c))"
  using ok_run_timers [OF ok_dispatch] by (simp add: conn_inv_def conn_handle_def Let_def conn_ok_def)

end
