(* ===== verification/Conn_Runs.thy ===== *)
theory Conn_Runs
  imports State104 "HOL-Library.Sublist"
begin

text \<open>
  Whole runs of the -104 connection: what a sequence of inputs makes a connection send and deliver.
  The sending side is a FIFO queue whose frames are numbered consecutively; the receiving side
  delivers exactly the frames that carry the next expected number, in order.  The timers bound how
  long a frame may stay unacknowledged.
\<close>

section \<open>Observations\<close>

definition iframe_of :: "Action \<Rightarrow> (SeqNo \<times> octets) list" where
  "iframe_of a = (case a of SendApdu (I s _ x) \<Rightarrow> [(s, x)] | _ \<Rightarrow> [])"

definition iframes_out :: "Action list \<Rightarrow> (SeqNo \<times> octets) list" where
  "iframes_out acts = concat (map iframe_of acts)"

definition delivered :: "Action list \<Rightarrow> octets list" where
  "delivered acts = concat (map (\<lambda>a. case a of DeliverAsdu x \<Rightarrow> [x] | _ \<Rightarrow> []) acts)"

definition iframe_in :: "Input \<Rightarrow> (SeqNo \<times> octets) list" where
  "iframe_in i = (case i of Input_Apdu (I s _ x) \<Rightarrow> [(s, x)] | _ \<Rightarrow> [])"

definition iframes_in :: "(Input \<times> Instant) list \<Rightarrow> (SeqNo \<times> octets) list" where
  "iframes_in inputs = concat (map (\<lambda>(i, _). iframe_in i) inputs)"

definition submitted :: "(Input \<times> Instant) list \<Rightarrow> octets list" where
  "submitted inputs = concat (map (\<lambda>(i, _). case i of SendAsdu x \<Rightarrow> [x] | _ \<Rightarrow> []) inputs)"

primrec conn_run :: "(Input \<times> Instant) list \<Rightarrow> Connection \<Rightarrow> Connection \<times> Action list" where
  "conn_run [] c = (c, [])"
| "conn_run (x # xs) c =
     (let (c1, acts1) = conn_handle (fst x) (snd x) c; (c2, acts2) = conn_run xs c1 in (c2, acts1 @ acts2))"

lemma observation_simps [simp]:
  "iframes_out [] = []" "iframes_out (a # xs) = iframe_of a @ iframes_out xs"
  "iframes_out (xs @ ys) = iframes_out xs @ iframes_out ys"
  "delivered [] = []" "delivered (xs @ ys) = delivered xs @ delivered ys"
  "iframe_of (SendApdu (I s r x)) = [(s, x)]" "iframe_of (SendApdu (S r)) = []" "iframe_of (SendApdu (U f)) = []"
  "iframe_of (DeliverAsdu x) = []" "iframe_of (StateChanged st) = []" "iframe_of (Disconnect d) = []"
  by (simp_all add: iframes_out_def delivered_def iframe_of_def)

lemma delivered_simps [simp]:
  "delivered (SendApdu p # xs) = delivered xs" "delivered (DeliverAsdu x # xs) = x # delivered xs"
  "delivered (StateChanged s # xs) = delivered xs" "delivered (Disconnect d # xs) = delivered xs"
  by (simp_all add: delivered_def)

lemma sent_frames_out [simp]:
  "iframes_out (sent_frames s r xs) = zip (seq_run s (length xs)) xs" "delivered (sent_frames s r xs) = []"
proof -
  have "iframes_out (map (\<lambda>(s, x). SendApdu (I s r x)) zs) = zs"
    and "delivered (map (\<lambda>(s, x). SendApdu (I s r x)) zs) = []" for zs
    by (induction zs) auto
  then show "iframes_out (sent_frames s r xs) = zip (seq_run s (length xs)) xs" "delivered (sent_frames s r xs) = []"
    by (simp_all add: sent_frames_def)
qed

lemma run_observations:
  "iframes_in [] = []" "iframes_in ((i, t) # xs) = iframe_in i @ iframes_in xs"
  "submitted [] = []" "submitted ((i, t) # xs) = (case i of SendAsdu x \<Rightarrow> [x] | _ \<Rightarrow> []) @ submitted xs"
  by (simp_all add: iframes_in_def submitted_def)

lemma conn_run_inv: "conn_inv c \<Longrightarrow> \<forall>(i, t) \<in> set xs. Input_wf i \<Longrightarrow> conn_inv (fst (conn_run xs c))"
proof (induction xs arbitrary: c)
  case (Cons x xs)
  then show ?case using conn_handle_inv [of c "fst x" "snd x"]
    by (cases x) (auto simp: split_def Let_def)
qed simp

section \<open>The sending side is a numbered FIFO queue\<close>

text \<open>Relative to the queue \<open>q\<close> and the number \<open>s\<close> at the start of a call.\<close>

definition fifo :: "SeqNo \<Rightarrow> octets list \<Rightarrow> Connection \<Rightarrow> bool" where
  "fifo s q c \<longleftrightarrow> map snd (iframes_out (actions c)) @ pending c = q \<and>
     map fst (iframes_out (actions c)) = seq_run s (length (iframes_out (actions c))) \<and>
     send_next c = seq_after s (length (iframes_out (actions c)))"

lemma fifo_frame [simp]:
  "fifo s q (conn_state_update g c) = fifo s q c" "fifo s q (last_send_any_update h c) = fifo s q c"
  "fifo s q (last_recv_any_update h c) = fifo s q c" "fifo s q (last_recv_iframe_update h c) = fifo s q c"
  "fifo s q (test_sent_update h c) = fifo s q c" "fifo s q (unacked_recv_update u c) = fifo s q c"
  "fifo s q (recv_next_update r c) = fifo s q c" "fifo s q (sent_update p c) = fifo s q c"
  by (simp_all add: fifo_def)

lemma fifo_flush: "fifo s q c \<Longrightarrow> fifo s q (flush_pending now c)"
  by (auto simp: fifo_def flush_pending_closed Let_def flush_count_def seq_run_add seq_after_add min_def)

lemma fifo_acknowledge: "fifo s q c \<Longrightarrow> fifo s q (acknowledge nr now c)"
  unfolding acknowledge_def by (rule fifo_flush) simp

lemma fifo_send: "fifo s q c \<Longrightarrow> pending c = [] \<Longrightarrow> fifo s (q @ [x]) (send_iframe x now c)"
  by (auto simp: fifo_def send_iframe_def push_action_def Let_def seq_run_Suc seq_after_Suc
    simp del: seq_run.simps seq_after.simps)

lemma fifo_ops [simp]:
  "fifo s q (transition st c) = fifo s q c" "fifo s q (emit_supervisory now c) = fifo s q c"
  "fifo s q (emit_apdu (U f) c) = fifo s q c" "fifo s q (protocol_error c) = fifo s q c"
  "fifo s q (ack_timeout c) = fifo s q c" "iframe_of a = [] \<Longrightarrow> fifo s q (push_action a c) = fifo s q c"
  by (simp_all add: conn_ops fifo_def)

lemma fifo_accept [simp]: "fifo s q (accept now c) = fifo s q c"
  by (simp add: accept_def)

lemma fifo_on_u_frame: "fifo s q c \<Longrightarrow> fifo s q (on_u_frame f now c)"
  by (cases f; cases "conn_role c"; cases "conn_state c") (simp_all add: on_u_frame_def fifo_flush)

lemma fifo_on_i_frame: "fifo s q c \<Longrightarrow> fifo s q (on_i_frame send recv asdu now c)"
  by (simp add: on_i_frame_accept Let_def fifo_acknowledge)

lemma fifo_run_timers: "fifo s q (run_timers now c) = fifo s q c"
  by (simp add: run_timers_def Let_def)

lemma fifo_dispatch:
  assumes "fifo s q c" and "conn_ok c"
  shows "fifo s (q @ (case i of SendAsdu x \<Rightarrow> [x] | _ \<Rightarrow> [])) (conn_dispatch i now c)"
proof (cases i)
  case (Input_Apdu apdu)
  with assms(1) show ?thesis
    by (cases apdu) (simp_all add: conn_dispatch_def on_apdu_def Let_def fifo_on_u_frame fifo_on_i_frame fifo_acknowledge)
next
  case (SendAsdu x)
  have "fifo s (q @ [x]) (c\<lparr> pending := pending c @ [x] \<rparr>)" using assms(1) by (auto simp: fifo_def)
  moreover have "pending c = []" if "conn_state c = Active" "length (sent c) < unat (cfg_k (conn_config c))"
    using that assms(2) by (auto simp: conn_ok_def flush_count_def min_def split: if_splits)
  ultimately show ?thesis
    using SendAsdu fifo_send [OF assms(1)] by (simp add: conn_dispatch_def on_user_send_def)
qed (use assms in \<open>simp_all add: conn_dispatch_def on_user_startdt_def on_user_stopdt_def\<close>)

lemma handle_fifo:
  assumes "conn_inv c"
  shows "fifo (send_next c) (pending c @ (case i of SendAsdu x \<Rightarrow> [x] | _ \<Rightarrow> []))
    (run_timers now (conn_dispatch i now c))"
proof -
  from assms have "fifo (send_next c) (pending c) c" by (simp add: fifo_def conn_inv_def)
  from fifo_dispatch [OF this] assms show ?thesis by (simp add: fifo_run_timers conn_inv_def)
qed

lemma run_fifo:
  assumes "conn_inv c" and "\<forall>(i, t) \<in> set xs. Input_wf i"
  shows "map snd (iframes_out (snd (conn_run xs c))) @ pending (fst (conn_run xs c)) = pending c @ submitted xs \<and>
    map fst (iframes_out (snd (conn_run xs c))) = seq_run (send_next c) (length (iframes_out (snd (conn_run xs c)))) \<and>
    send_next (fst (conn_run xs c)) = seq_after (send_next c) (length (iframes_out (snd (conn_run xs c))))"
  using assms
proof (induction xs arbitrary: c)
  case (Cons x xs)
  obtain i t where x: "x = (i, t)" by force
  let ?d = "run_timers t (conn_dispatch i t c)"
  let ?c = "?d\<lparr> actions := [] \<rparr>"
  have h: "conn_handle i t c = (?c, actions ?d)" by (simp add: conn_handle_def Let_def)
  from Cons.prems x have "conn_inv ?c" using conn_handle_inv [of c i t] by (simp add: h)
  with Cons x have IH: "map snd (iframes_out (snd (conn_run xs ?c))) @ pending (fst (conn_run xs ?c)) = pending ?c @ submitted xs"
    "map fst (iframes_out (snd (conn_run xs ?c))) = seq_run (send_next ?c) (length (iframes_out (snd (conn_run xs ?c))))"
    "send_next (fst (conn_run xs ?c)) = seq_after (send_next ?c) (length (iframes_out (snd (conn_run xs ?c))))"
    by auto
  from handle_fifo [OF Cons.prems(1), of i t]
  have *: "map snd (iframes_out (actions ?d)) @ pending ?d = pending c @ (case i of SendAsdu x \<Rightarrow> [x] | _ \<Rightarrow> [])"
    "map fst (iframes_out (actions ?d)) = seq_run (send_next c) (length (iframes_out (actions ?d)))"
    "send_next ?d = seq_after (send_next c) (length (iframes_out (actions ?d)))"
    by (simp_all add: fifo_def)
  have run: "conn_run (x # xs) c = (fst (conn_run xs ?c), actions ?d @ snd (conn_run xs ?c))"
    by (simp add: x h split_def Let_def)
  show ?case
    unfolding run using IH * by (simp add: run_observations x seq_run_add seq_after_add)
qed (simp add: run_observations)

section \<open>The receiving side\<close>

text \<open>
  Relative to the number \<open>r\<close> expected before the call: what has been delivered so far is \<open>ds\<close>, and
  the expected number has moved on by as many.
\<close>

definition taken :: "SeqNo \<Rightarrow> octets list \<Rightarrow> Connection \<Rightarrow> bool" where
  "taken r ds c \<longleftrightarrow> delivered (actions c) = ds \<and> recv_next c = seq_after r (length ds)"

lemma taken_frame [simp]:
  "taken r ds (conn_state_update g c) = taken r ds c" "taken r ds (last_send_any_update h c) = taken r ds c"
  "taken r ds (last_recv_any_update h c) = taken r ds c" "taken r ds (last_recv_iframe_update h c) = taken r ds c"
  "taken r ds (test_sent_update h c) = taken r ds c" "taken r ds (unacked_recv_update u c) = taken r ds c"
  "taken r ds (pending_update p c) = taken r ds c" "taken r ds (sent_update q c) = taken r ds c"
  by (simp_all add: taken_def)

lemma taken_ops [simp]:
  "taken r ds (transition st c) = taken r ds c" "taken r ds (emit_supervisory now c) = taken r ds c"
  "taken r ds (emit_apdu p c) = taken r ds c" "taken r ds (protocol_error c) = taken r ds c"
  "taken r ds (ack_timeout c) = taken r ds c" "taken r ds (push_action (Disconnect d) c) = taken r ds c"
  "taken r ds (flush_pending now c) = taken r ds c" "taken r ds (send_iframe x now c) = taken r ds c"
  by (simp_all add: conn_ops taken_def flush_pending_closed send_iframe_def Let_def)

lemma taken_acknowledge [simp]: "taken r ds (acknowledge nr now c) = taken r ds c"
  by (simp add: acknowledge_def)

lemma taken_on_u_frame: "taken r ds (on_u_frame f now c) = taken r ds c"
  by (cases f; cases "conn_role c"; cases "conn_state c") (simp_all add: on_u_frame_def)

lemma taken_run_timers [simp]: "taken r ds (run_timers now c) = taken r ds c"
  by (simp add: run_timers_def Let_def)

lemma delivered_acknowledge [simp]: "delivered (actions (acknowledge nr now c)) = delivered (actions c)"
  by (simp add: acknowledge_def flush_pending_closed Let_def)

definition accepts :: "Input \<Rightarrow> Connection \<Rightarrow> bool" where
  "accepts i c \<longleftrightarrow> conn_state c \<in> {Active, Stopping} \<and> (\<exists>x. iframe_in i = [(recv_next c, x)])"

lemma taken_dispatch:
  assumes "actions c = []"
  shows "taken (recv_next c) (if accepts i c then map snd (iframe_in i) else []) (conn_dispatch i now c)"
proof -
  have c: "taken (recv_next c) [] c" using assms by (simp add: taken_def)
  show ?thesis
  proof (cases i)
    case (Input_Apdu apdu)
    then show ?thesis
    proof (cases apdu)
      case (I s r x)
      with Input_Apdu c show ?thesis
        by (auto simp: conn_dispatch_def on_apdu_def on_i_frame_accept accepts_def iframe_in_def Let_def)
          (simp_all add: taken_def conn_ops)
    qed (use Input_Apdu c in \<open>simp_all add: conn_dispatch_def on_apdu_def Let_def taken_on_u_frame accepts_def iframe_in_def\<close>)
  qed (use c in \<open>simp_all add: conn_dispatch_def on_user_startdt_def on_user_stopdt_def on_user_send_def accepts_def iframe_in_def\<close>)
qed

lemma handle_delivers:
  assumes "conn_inv c"
  shows "delivered (snd (conn_handle i now c)) = (if accepts i c then map snd (iframe_in i) else [])"
    and "recv_next (fst (conn_handle i now c)) = (if accepts i c then SeqNo_next (recv_next c) else recv_next c)"
proof -
  have "actions c = []" using assms by (simp add: conn_inv_def)
  from taken_dispatch [OF this, of i now] have
    "taken (recv_next c) (if accepts i c then map snd (iframe_in i) else []) (run_timers now (conn_dispatch i now c))"
    by simp
  then show "delivered (snd (conn_handle i now c)) = (if accepts i c then map snd (iframe_in i) else [])"
    and "recv_next (fst (conn_handle i now c)) = (if accepts i c then SeqNo_next (recv_next c) else recv_next c)"
    by (auto simp: conn_handle_def Let_def taken_def accepts_def)
qed

text \<open>A frame that is not accepted closes the connection.\<close>

lemma closed_run_timers: "conn_state c = Closed \<Longrightarrow> conn_state (run_timers now c) = Closed"
  by (simp add: run_timers_def conn_ops Let_def)

lemma reject_closes:
  assumes "iframe_in i \<noteq> []" and "\<not> accepts i c"
  shows "conn_state (fst (conn_handle i now c)) = Closed"
proof -
  from assms(1) obtain s r x where i: "i = Input_Apdu (I s r x)"
    by (auto simp: iframe_in_def split: Input.splits Apdu.splits)
  with assms(2) have "conn_state (conn_dispatch i now c) = Closed"
    by (auto simp: conn_dispatch_def on_apdu_def on_i_frame_def accepts_def iframe_in_def protocol_error_def transition_def
      push_action_def Let_def)
  from closed_run_timers [OF this] show ?thesis by (simp add: conn_handle_def Let_def)
qed

lemma client_closed_absorbing:
  assumes "conn_role c = Client" and "conn_state c = Closed"
  shows "conn_state (fst (conn_handle i now c)) = Closed" and "conn_role (fst (conn_handle i now c)) = Client"
proof -
  have d: "conn_state (conn_dispatch i now c) = Closed \<and> conn_role (conn_dispatch i now c) = Client"
  proof (cases i)
    case (Input_Apdu apdu)
    then show ?thesis
    proof (cases apdu)
      case (U f)
      with Input_Apdu assms show ?thesis
        by (cases f) (simp_all add: conn_dispatch_def on_apdu_def on_u_frame_def conn_ops Let_def)
    qed (use Input_Apdu assms in \<open>simp_all add: conn_dispatch_def on_apdu_def on_i_frame_def conn_ops Let_def\<close>)
  qed (use assms in \<open>simp_all add: conn_dispatch_def on_user_startdt_def on_user_stopdt_def on_user_send_def\<close>)
  then show "conn_state (fst (conn_handle i now c)) = Closed"
    using closed_run_timers [of "conn_dispatch i now c" now] by (simp add: conn_handle_def Let_def)
  from d show "conn_role (fst (conn_handle i now c)) = Client"
    by (simp add: conn_handle_def Let_def run_timers_def conn_ops)
qed

lemma u_frame_fixed: "conn_role (on_u_frame f now c) = conn_role c" "conn_config (on_u_frame f now c) = conn_config c"
  by (cases f; cases "conn_role c"; cases "conn_state c"; simp add: on_u_frame_def conn_ops)+

lemma dispatch_fixed: "conn_role (conn_dispatch i now c) = conn_role c" "conn_config (conn_dispatch i now c) = conn_config c"
proof -
  have "conn_role (conn_dispatch i now c) = conn_role c \<and> conn_config (conn_dispatch i now c) = conn_config c"
  proof (cases i)
    case (Input_Apdu apdu)
    then show ?thesis
      by (cases apdu) (simp_all add: conn_dispatch_def on_apdu_def u_frame_fixed on_i_frame_accept conn_ops Let_def)
  qed (simp_all add: conn_dispatch_def on_user_startdt_def on_user_stopdt_def on_user_send_def conn_ops send_iframe_def Let_def)
  then show "conn_role (conn_dispatch i now c) = conn_role c" "conn_config (conn_dispatch i now c) = conn_config c"
    by simp_all
qed

lemma handle_fixed [simp]:
  "conn_role (fst (conn_handle i now c)) = conn_role c" "conn_config (fst (conn_handle i now c)) = conn_config c"
  by (simp_all add: dispatch_fixed conn_handle_def Let_def run_timers_def conn_ops)

lemma conn_run_Cons: "conn_run (x # xs) c =
    (fst (conn_run xs (fst (conn_handle (fst x) (snd x) c))),
     snd (conn_handle (fst x) (snd x) c) @ snd (conn_run xs (fst (conn_handle (fst x) (snd x) c))))"
  by (simp add: split_def Let_def)

lemma accepts_iframe: "accepts i c \<Longrightarrow> \<exists>x. iframe_in i = [(recv_next c, x)]"
  by (simp add: accepts_def)

text \<open>What is delivered over a run is a subsequence of the received frames, consecutively numbered.\<close>

lemma run_delivers:
  assumes "conn_inv c" and "\<forall>(i, t) \<in> set xs. Input_wf i"
  shows "subseq (zip (seq_run (recv_next c) (length (delivered (snd (conn_run xs c))))) (delivered (snd (conn_run xs c))))
    (iframes_in xs)"
  using assms
proof (induction xs arbitrary: c)
  case (Cons x xs)
  obtain i t where x: "x = (i, t)" by force
  let ?c = "fst (conn_handle i t c)"
  from Cons.prems x have inv: "conn_inv ?c" using conn_handle_inv by auto
  note IH = Cons.IH [OF inv] and d = handle_delivers [OF Cons.prems(1), of i t]
  show ?case
  proof (cases "accepts i c")
    case True
    then obtain y where "iframe_in i = [(recv_next c, y)]" using accepts_iframe by blast
    with True IH d Cons.prems(2) show ?thesis
      by (simp add: x conn_run_Cons run_observations del: conn_run.simps)
  next
    case False
    with IH d Cons.prems(2) show ?thesis
      by (auto simp add: x conn_run_Cons run_observations list_emb_append2 simp del: conn_run.simps)
  qed
qed simp

lemma client_closed_run:
  assumes "conn_inv c" and "conn_role c = Client" and "conn_state c = Closed" and "\<forall>(i, t) \<in> set xs. Input_wf i"
  shows "delivered (snd (conn_run xs c)) = []"
  using assms
proof (induction xs arbitrary: c)
  case (Cons x xs)
  then have "conn_inv (fst (conn_handle (fst x) (snd x) c))" using conn_handle_inv by (auto simp: split_def)
  moreover have "\<not> accepts (fst x) c" using Cons.prems(3) by (simp add: accepts_def)
  ultimately show ?case
    using Cons client_closed_absorbing(1) [OF Cons.prems(2,3)] handle_delivers(1) [OF Cons.prems(1)]
    by (simp add: conn_run_Cons del: conn_run.simps)
qed simp

lemma client_run_prefix:
  assumes "conn_inv c" and "conn_role c = Client" and "\<forall>(i, t) \<in> set xs. Input_wf i"
  shows "prefix (zip (seq_run (recv_next c) (length (delivered (snd (conn_run xs c))))) (delivered (snd (conn_run xs c))))
    (iframes_in xs)"
  using assms
proof (induction xs arbitrary: c)
  case (Cons x xs)
  obtain i t where x: "x = (i, t)" by force
  let ?c = "fst (conn_handle i t c)"
  from Cons.prems x have inv: "conn_inv ?c" using conn_handle_inv by auto
  note IH = Cons.IH [OF inv] and d = handle_delivers [OF Cons.prems(1), of i t]
  consider y where "accepts i c" "iframe_in i = [(recv_next c, y)]" | "\<not> accepts i c" "iframe_in i = []"
    | "\<not> accepts i c" "iframe_in i \<noteq> []"
    using accepts_iframe by blast
  then show ?case
  proof cases
    case 3
    have "delivered (snd (conn_run xs ?c)) = []"
      using client_closed_run [OF inv _ reject_closes [OF 3(2,1)]] Cons.prems x by simp
    with 3 d show ?thesis by (simp add: x conn_run_Cons del: conn_run.simps)
  qed (use IH d Cons.prems x in \<open>simp_all add: conn_run_Cons run_observations del: conn_run.simps\<close>)
qed simp

section \<open>Two connections over an ordered channel\<close>

lemma map_snd_zip_run [simp]: "map snd (zip (seq_run s (length xs)) xs) = xs"
  by simp

lemma fifo_prefix_submitted:
  assumes "\<forall>(i, t) \<in> set xs. Input_wf i"
  shows "prefix (map snd (iframes_out (snd (conn_run xs (conn_new role cfg))))) (submitted xs)"
  using run_fifo [OF conn_new_inv assms, of role cfg] by (metis append_Nil conn_new_def prefixI Connection.select_convs(12))

lemma end_to_end_client:
  assumes "\<forall>(i, t) \<in> set xs. Input_wf i" and "\<forall>(i, t) \<in> set ys. Input_wf i"
    and "prefix (iframes_in ys) (iframes_out (snd (conn_run xs (conn_new role cfg))))"
  shows "prefix (delivered (snd (conn_run ys (conn_new Client cfg')))) (submitted xs)"
proof -
  let ?ds = "delivered (snd (conn_run ys (conn_new Client cfg')))"
  have "prefix (zip (seq_run (recv_next (conn_new Client cfg')) (length ?ds)) ?ds) (iframes_in ys)"
    by (rule client_run_prefix [OF conn_new_inv _ assms(2)]) (simp add: conn_new_def)
  then have "prefix ?ds (map snd (iframes_in ys))"
    using map_mono_prefix [of _ _ snd] by fastforce
  moreover have "prefix (map snd (iframes_in ys)) (map snd (iframes_out (snd (conn_run xs (conn_new role cfg)))))"
    by (rule map_mono_prefix [OF assms(3)])
  ultimately show ?thesis using fifo_prefix_submitted [OF assms(1)] prefix_order.trans by blast
qed

text \<open>
  A server may be revived after an error, and then numbers may be reused; below \<open>2\<^sup>15\<close> frames a number
  still identifies its frame.
\<close>

lemma seq_after_inj:
  assumes "SeqNo_wf s" and "i < 2 ^ 15" and "j < 2 ^ 15" and "seq_after s i = seq_after s j"
  shows "i = j"
proof -
  from assms(1,4) have "(seq_nat s + i) mod 2 ^ 15 = (seq_nat s + j) mod 2 ^ 15"
    by (metis seq_after_nat)
  moreover from assms(1) have "seq_nat s < 2 ^ 15" by (simp add: SeqNo_wf_nat)
  ultimately show ?thesis using assms(2,3) by (simp add: mod_if split: if_splits)
qed

lemma numbered_prefix:
  assumes "SeqNo_wf s" and "length xs \<le> 2 ^ 15" and "length ds \<le> length xs"
    and "set (zip (seq_run s (length ds)) ds) \<subseteq> set (zip (seq_run s (length xs)) xs)"
  shows "prefix ds xs"
proof -
  have "ds ! i = xs ! i" if "i < length ds" for i
  proof -
    from that have "(seq_after s i, ds ! i) \<in> set (zip (seq_run s (length ds)) ds)"
      by (auto simp: set_zip seq_run_nth intro!: exI [of _ i])
    with assms(4) obtain j where "j < length xs" "seq_after s i = seq_after s j" "ds ! i = xs ! j"
      by (auto simp: set_zip seq_run_nth)
    with that assms show ?thesis using seq_after_inj [of s i j] by simp
  qed
  then have "ds = take (length ds) xs" using assms(3) by (intro nth_equalityI) auto
  then show ?thesis by (metis take_is_prefix)
qed

lemma end_to_end_bounded:
  assumes "\<forall>(i, t) \<in> set xs. Input_wf i" and "\<forall>(i, t) \<in> set ys. Input_wf i"
    and "prefix (iframes_in ys) (iframes_out (snd (conn_run xs (conn_new role cfg))))"
    and "length (iframes_out (snd (conn_run xs (conn_new role cfg)))) \<le> 2 ^ 15"
  shows "prefix (delivered (snd (conn_run ys (conn_new role' cfg')))) (submitted xs)"
proof -
  let ?ds = "delivered (snd (conn_run ys (conn_new role' cfg')))"
    and ?out = "iframes_out (snd (conn_run xs (conn_new role cfg)))"
  let ?s = "SeqNo_new 0"
  have sub: "subseq (zip (seq_run ?s (length ?ds)) ?ds) (iframes_in ys)"
    using run_delivers [OF conn_new_inv assms(2), of role' cfg'] by (simp add: conn_new_def)
  have out: "?out = zip (seq_run ?s (length (map snd ?out))) (map snd ?out)"
  proof -
    have "map fst ?out = seq_run ?s (length ?out)"
      using run_fifo [OF conn_new_inv assms(1), of role cfg] by (simp add: conn_new_def)
    then show ?thesis by (metis length_map zip_map_fst_snd)
  qed
  have "length ?ds \<le> length (iframes_in ys)" using list_emb_length [OF sub] by simp
  then have "length ?ds \<le> length (map snd ?out)" using prefix_length_le [OF assms(3)] by simp
  moreover have "set (zip (seq_run ?s (length ?ds)) ?ds) \<subseteq> set ?out"
    using list_emb_set [OF sub] set_mono_prefix [OF assms(3)] by blast
  ultimately have "prefix ?ds (map snd ?out)"
    using numbered_prefix [of ?s "map snd ?out" ?ds] assms(4) out by simp
  then show ?thesis using fifo_prefix_submitted [OF assms(1)] prefix_order.trans by blast
qed

section \<open>Timers\<close>

text \<open>The last call of a run leaves no overdue frame, acknowledgement or idle line behind.\<close>

lemma run_timers_t1:
  assumes "conn_state (run_timers now c) \<noteq> Closed"
  shows "sent (run_timers now c) = sent c"
    and "sent c \<noteq> [] \<Longrightarrow> saturating_duration_since now (snd (hd (sent c))) < cfg_t1 (conn_config c)"
    and "test_sent c = Some t \<Longrightarrow> saturating_duration_since now t < cfg_t1 (conn_config c)"
  using assms by (auto simp: run_timers_def conn_ops elapsed_def Let_def not_le split: if_splits)

lemma run_timers_t2:
  assumes "conn_state (run_timers now c) \<noteq> Closed" and "unacked_recv (run_timers now c) > 0"
    and "last_recv_iframe (run_timers now c) = Some t"
  shows "saturating_duration_since now t < cfg_t2 (conn_config c)"
  using assms by (auto simp: run_timers_def conn_ops elapsed_def Let_def not_le split: if_splits)

lemma run_timers_t3:
  assumes "conn_state (run_timers now c) \<in> {Active, Stopping}" and "test_sent (run_timers now c) = None"
    and "last_io (run_timers now c) = Some t"
  shows "saturating_duration_since now t < cfg_t3 (conn_config c)"
  using assms
  by (auto simp: run_timers_def conn_ops elapsed_def Let_def not_le last_io_def saturating_duration_since_def
    split: if_splits option.splits)

text \<open>With a clock that does not run backwards the oldest entry is the first one.\<close>

definition stamps_ok :: "Instant \<Rightarrow> Connection \<Rightarrow> bool" where
  "stamps_ok now c \<longleftrightarrow> sorted (map snd (sent c)) \<and> (\<forall>t \<in> set (map snd (sent c)). t \<le> now)"

lemma stamps_frame [simp]:
  "stamps_ok t (conn_state_update g c) = stamps_ok t c" "stamps_ok t (last_send_any_update h c) = stamps_ok t c"
  "stamps_ok t (last_recv_any_update h c) = stamps_ok t c" "stamps_ok t (last_recv_iframe_update h c) = stamps_ok t c"
  "stamps_ok t (test_sent_update h c) = stamps_ok t c" "stamps_ok t (unacked_recv_update u c) = stamps_ok t c"
  "stamps_ok t (pending_update p c) = stamps_ok t c" "stamps_ok t (recv_next_update r c) = stamps_ok t c"
  "stamps_ok t (actions_update a c) = stamps_ok t c"
  by (simp_all add: stamps_ok_def)

lemma stamps_ops [simp]:
  "stamps_ok t (transition st c) = stamps_ok t c" "stamps_ok t (emit_supervisory now c) = stamps_ok t c"
  "stamps_ok t (emit_apdu p c) = stamps_ok t c" "stamps_ok t (protocol_error c) = stamps_ok t c"
  "stamps_ok t (ack_timeout c) = stamps_ok t c" "stamps_ok t (push_action a c) = stamps_ok t c"
  "stamps_ok t (accept now c) = stamps_ok t c"
  by (simp_all add: conn_ops accept_def)

lemma stamps_flush: "stamps_ok now c \<Longrightarrow> stamps_ok now (flush_pending now c)"
  by (auto simp: stamps_ok_def flush_pending_closed Let_def sorted_append comp_def map_replicate_const)

lemma acknowledge_loop_suffix: "\<exists>n. acknowledge_loop nr q = drop n q"
proof (induction nr q rule: acknowledge_loop.induct)
  case (2 nr s t q)
  then obtain n where "SeqNo_distance s nr \<noteq> 0 \<and> \<not> SeqNo_MAX div 2 < SeqNo_distance s nr \<Longrightarrow> acknowledge_loop nr q = drop n q"
    by auto
  then show ?case by (cases "SeqNo_distance s nr = 0 \<or> SeqNo_MAX div 2 < SeqNo_distance s nr")
    (auto simp: Let_def intro: exI [of _ 0] exI [of _ "Suc n"])
qed simp

lemma stamps_acknowledge:
  assumes "stamps_ok now c"
  shows "stamps_ok now (acknowledge nr now c)"
proof -
  obtain n where n: "acknowledge_loop nr (sent c) = drop n (sent c)" using acknowledge_loop_suffix by blast
  have "stamps_ok now (c\<lparr> sent := drop n (sent c) \<rparr>)"
    using assms set_drop_subset [of n "map snd (sent c)"]
    by (simp add: stamps_ok_def drop_map [symmetric] sorted_wrt_drop del: set_map) blast
  then show ?thesis unfolding acknowledge_def n by (rule stamps_flush)
qed

lemma stamps_send: "stamps_ok now c \<Longrightarrow> stamps_ok now (send_iframe x now c)"
  by (auto simp: stamps_ok_def send_iframe_def push_action_def Let_def sorted_append)

lemma stamps_handle:
  assumes "stamps_ok t c" and "t \<le> now"
  shows "stamps_ok now (run_timers now (conn_dispatch i now c))"
proof -
  have c: "stamps_ok now c" using assms by (auto simp: stamps_ok_def)
  have u: "stamps_ok now (on_u_frame f now d)" if "stamps_ok now d" for f d
    using that by (cases f; cases "conn_role d"; cases "conn_state d") (simp_all add: on_u_frame_def stamps_flush)
  have "stamps_ok now (conn_dispatch i now c)"
  proof (cases i)
    case (Input_Apdu apdu)
    with c u show ?thesis
      by (cases apdu) (simp_all add: conn_dispatch_def on_apdu_def on_i_frame_accept Let_def stamps_acknowledge)
  qed (use c stamps_send in \<open>simp_all add: conn_dispatch_def on_user_startdt_def on_user_stopdt_def on_user_send_def\<close>)
  then show ?thesis by (simp add: run_timers_def Let_def)
qed

lemma run_stamps:
  assumes "stamps_ok t c" and "sorted (t # map snd xs)"
  shows "stamps_ok (last (t # map snd xs)) (fst (conn_run xs c))"
  using assms
proof (induction xs arbitrary: t c)
  case (Cons x xs)
  have "stamps_ok (snd x) (fst (conn_handle (fst x) (snd x) c))"
    using stamps_handle [of t c "snd x" "fst x"] Cons.prems by (simp add: conn_handle_def Let_def)
  from Cons.IH [OF this] Cons.prems show ?case by (simp add: conn_run_Cons del: conn_run.simps)
qed simp

lemma handle_no_overdue:
  assumes "stamps_ok t c" and "t \<le> now" and "conn_state (fst (conn_handle i now c)) \<noteq> Closed"
    and "(s, sent_at) \<in> set (sent (fst (conn_handle i now c)))"
  shows "now - sent_at < cfg_t1 (conn_config c)"
proof -
  let ?d = "conn_dispatch i now c"
  have st: "conn_state (run_timers now ?d) \<noteq> Closed" using assms(3) by (simp add: conn_handle_def Let_def)
  have "sent (fst (conn_handle i now c)) = sent ?d"
    using run_timers_t1(1) [OF st] by (simp add: conn_handle_def Let_def)
  with assms(4) have in_sent: "(s, sent_at) \<in> set (sent ?d)" by simp
  then have ne: "sent ?d \<noteq> []" by auto
  have "stamps_ok now (run_timers now ?d)" by (rule stamps_handle [OF assms(1,2)])
  then have "sorted (map snd (sent ?d))" using run_timers_t1(1) [OF st] by (simp add: stamps_ok_def)
  with in_sent ne have "snd (hd (sent ?d)) \<le> sent_at" by (cases "sent ?d") auto
  with run_timers_t1(2) [OF st ne] show ?thesis by (simp add: saturating_duration_since_def dispatch_fixed)
qed

end
