(* ===== verification/Conn_Properties.thy ===== *)
theory Conn_Properties
  imports Conn_Runs
begin

text \<open>
  The guarantees of the -104 transport: sequence numbers, the APDU codec, and the connection state
  machine over whole runs.
\<close>

section \<open>Delivery\<close>


definition demo_config :: Config where
  "demo_config = \<lparr> cfg_k = 12, cfg_w = 8, cfg_t1 = 15, cfg_t2 = 10, cfg_t3 = 20 \<rparr>"

definition demo_server :: "(Input \<times> Instant) list" where
  "demo_server = [(Input_Apdu (U StartDtAct), 1), (SendAsdu [1], 2), (SendAsdu [2], 3), (SendAsdu [3], 4)]"

definition demo_client :: "(Input \<times> Instant) list" where
  "demo_client = [(StartDt, 1), (Input_Apdu (U StartDtCon), 2), (Input_Apdu (I (SeqNo 0) (SeqNo 0) [1]), 3),
     (Input_Apdu (I (SeqNo 1) (SeqNo 0) [2]), 4)]"

lemma demo_runs:
  "\<forall>(i, t) \<in> set demo_server. Input_wf i" "\<forall>(i, t) \<in> set demo_client. Input_wf i"
  "iframes_in demo_client = [(SeqNo 0, [1]), (SeqNo 1, [2])]" "submitted demo_server = [[1], [2], [3]]"
  "iframes_out (snd (conn_run demo_server (conn_new Server demo_config))) = [(SeqNo 0, [1]), (SeqNo 1, [2]), (SeqNo 2, [3])]"
  "delivered (snd (conn_run demo_client (conn_new Client demo_config))) = [[1], [2]]"
  by code_simp+


text \<open>
  The same for a receiver of either role, for up to 2^15 frames: a server may be revived after an
  error and then expects the numbers it expected before, but below the modulus a number still
  identifies its frame.
\<close>
theorem end_to_end_any_role:
  assumes "\<forall>(i, t) \<in> set xs. Input_wf i" and "\<forall>(i, t) \<in> set ys. Input_wf i"
    and "prefix (iframes_in ys) (iframes_out (snd (conn_run xs (conn_new role cfg))))"
    and "length (iframes_out (snd (conn_run xs (conn_new role cfg)))) \<le> 2 ^ 15"
  shows "prefix (delivered (snd (conn_run ys (conn_new role' cfg')))) (submitted xs)"
  by (rule end_to_end_bounded [OF assms])

theorem end_to_end_any_role_witness:
  "prefix (delivered (snd (conn_run demo_client (conn_new Server demo_config)))) (submitted demo_server)"
  using end_to_end_any_role [of demo_server demo_client Server demo_config Server demo_config] by (simp add: demo_runs)

text \<open>
  C6. The sending side refines a numbered FIFO queue: at every point of every run the ASDUs sent so far
  followed by those still pending are exactly those submitted, in order; the frames carry consecutive
  sequence numbers from 0 modulo 2^15, and the next number to use continues them.
\<close>
theorem send_side_refines_fifo:
  assumes "\<forall>(i, t) \<in> set xs. Input_wf i" and "conn_run xs (conn_new role cfg) = (c, acts)"
  shows "map snd (iframes_out acts) @ pending c = submitted xs \<and>
    map (seq_nat \<circ> fst) (iframes_out acts) = map (\<lambda>n. n mod 2 ^ 15) [0..<length (iframes_out acts)] \<and>
    seq_nat (send_next c) = length (iframes_out acts) mod 2 ^ 15"
proof -
  have nat: "seq_nat (seq_after (SeqNo_new 0) n) = n mod 2 ^ 15" for n
    using seq_after_nat [of "SeqNo_new 0" n] seq_nat_new [of 0] by simp
  have new: "send_next (conn_new role cfg) = SeqNo_new 0" "pending (conn_new role cfg) = []" by (simp_all add: conn_new_def)
  note run = run_fifo [OF conn_new_inv assms(1), of role cfg, unfolded assms(2) fst_conv snd_conv new append_Nil]
  have "map seq_nat (seq_run (SeqNo_new 0) n) = map (\<lambda>n. n mod 2 ^ 15) [0..<n]" for n
    by (rule nth_equalityI) (simp_all add: seq_run_nth nat)
  then have "map (seq_nat \<circ> fst) (iframes_out acts) = map (\<lambda>n. n mod 2 ^ 15) [0..<length (iframes_out acts)]"
    using run by (metis map_map)
  moreover have "seq_nat (send_next c) = length (iframes_out acts) mod 2 ^ 15" using run nat by metis
  ultimately show ?thesis using run by blast
qed

theorem send_side_refines_fifo_witness:
  "\<exists>c acts. conn_run demo_server (conn_new Server demo_config) = (c, acts) \<and>
     map snd (iframes_out acts) @ pending c = [[1], [2], [3]] \<and> map (seq_nat \<circ> fst) (iframes_out acts) = [0, 1, 2]"
proof -
  obtain c acts where run: "conn_run demo_server (conn_new Server demo_config) = (c, acts)" by fastforce
  with demo_runs have out: "iframes_out acts = [(SeqNo 0, [1]), (SeqNo 1, [2]), (SeqNo 2, [3])]" by simp
  with send_side_refines_fifo [OF demo_runs(1) run] run show ?thesis by (simp add: demo_runs upt_rec)
qed

section \<open>The invariant of the connection\<close>

text \<open>
  C7. After any run of well-formed inputs the connection satisfies its invariant: at most k frames are
  unacknowledged and they carry the last consecutive numbers, fewer than w received frames are
  unacknowledged, in the active state ASDUs wait only when the window is full, and a server is never
  in the client-only states Starting and Stopping.
\<close>
theorem connection_invariant:
  assumes "\<forall>(i, t) \<in> set xs. Input_wf i" and "conn_run xs (conn_new role cfg) = (c, acts)"
  shows "length (sent c) \<le> unat (cfg_k (conn_config c)) \<and>
    (\<exists>s. map fst (sent c) = seq_run s (length (sent c)) \<and> send_next c = seq_after s (length (sent c))) \<and>
    (unacked_recv c = 0 \<or> unacked_recv c < cfg_w (conn_config c)) \<and>
    (conn_state c = Active \<and> pending c \<noteq> [] \<longrightarrow> unat (cfg_k (conn_config c)) \<le> length (sent c)) \<and>
    (conn_role c = Server \<longrightarrow> conn_state c \<notin> {Starting, Stopping})"
proof -
  have "conn_inv c" using conn_run_inv [OF conn_new_inv assms(1), of role cfg] assms(2) by simp
  then show ?thesis
    by (auto simp: conn_inv_def conn_ok_def window_ok_def acks_ok_def flush_count_def min_def split: if_splits)
qed

theorem connection_invariant_witness:
  "\<exists>c acts. conn_run demo_server (conn_new Server demo_config) = (c, acts) \<and> length (sent c) \<le> unat (cfg_k (conn_config c))"
proof -
  obtain c acts where run: "conn_run demo_server (conn_new Server demo_config) = (c, acts)" by fastforce
  with connection_invariant [OF demo_runs(1) run] show ?thesis by blast
qed

text \<open>
  C9. An acknowledgement removes exactly the acknowledged prefix of the window: with the oldest
  unacknowledged frame numbered s, a received N(R) that is d steps ahead of s drops the first d entries
  if d is at most 16383 and none otherwise; the window is then refilled from the pending queue up to k
  frames.
\<close>
theorem acknowledge_drops_prefix:
  assumes "map fst (sent c) = seq_run s (length (sent c))" and "SeqNo_wf s" and "SeqNo_wf nr"
  shows "let d = unat (SeqNo_distance s nr);
             kept = drop (if d \<le> 16383 then d else 0) (sent c);
             n = min (length (pending c)) (unat (cfg_k (conn_config c)) - length kept);
             c' = acknowledge nr now c
         in sent c' = kept @ map (\<lambda>s. (s, now)) (seq_run (send_next c) n) \<and> pending c' = drop n (pending c) \<and>
            send_next c' = seq_after (send_next c) n \<and>
            actions c' = actions c @ sent_frames (send_next c) (recv_next c) (take n (pending c))"
  by (simp add: acknowledge_def acknowledge_loop_run [OF assms] acked_def flush_pending_closed flush_count_def Let_def)

definition demo_window :: Connection where
  "demo_window = (conn_new Server demo_config)\<lparr> conn_state := Active, send_next := SeqNo 1, sent := [(SeqNo 32767, 5), (SeqNo 0, 6)] \<rparr>"

theorem acknowledge_drops_prefix_witness:
  "sent (acknowledge (SeqNo 0) 9 demo_window) = [(SeqNo 0, 6)]"
proof -
  have "map fst (sent demo_window) = seq_run (SeqNo 32767) (length (sent demo_window))" "SeqNo_wf (SeqNo 32767)" "SeqNo_wf (SeqNo 0)"
    "unat (SeqNo_distance (SeqNo 32767) (SeqNo 0)) = 1" "pending demo_window = []" "sent demo_window = [(SeqNo 32767, 5), (SeqNo 0, 6)]"
    by code_simp+
  with acknowledge_drops_prefix [of demo_window "SeqNo 32767" "SeqNo 0" 9] show ?thesis by (simp add: Let_def)
qed

text \<open>
  C10. An I-frame is delivered exactly when data transfer is enabled and it carries the expected number;
  then the expected number advances by one. Any other I-frame closes the connection and delivers
  nothing, and a client that is closed stays closed and delivers nothing, whatever it is fed.
\<close>
theorem iframe_acceptance:
  assumes "conn_inv c" and "Input_wf (Input_Apdu (I s r x))" and "conn_handle (Input_Apdu (I s r x)) now c = (c', acts)"
  shows "if conn_state c \<in> {Active, Stopping} \<and> s = recv_next c
         then delivered acts = [x] \<and> recv_next c' = SeqNo_next s
         else delivered acts = [] \<and> recv_next c' = recv_next c \<and> conn_state c' = Closed \<and>
           (conn_role c = Client \<longrightarrow> (\<forall>xs. (\<forall>(i, t) \<in> set xs. Input_wf i) \<longrightarrow> delivered (snd (conn_run xs c')) = []))"
proof -
  let ?i = "Input_Apdu (I s r x)"
  have in1: "iframe_in ?i = [(s, x)]" by (simp add: iframe_in_def)
  have acc: "accepts ?i c \<longleftrightarrow> conn_state c \<in> {Active, Stopping} \<and> s = recv_next c" by (auto simp: accepts_def in1)
  note d = handle_delivers [OF assms(1), of ?i now, unfolded assms(3) fst_conv snd_conv]
  have closed: "conn_state c' = Closed" if "\<not> accepts ?i c"
    using reject_closes [OF _ that, of now] in1 assms(3) by simp
  have "delivered (snd (conn_run xs c')) = []"
    if "\<not> accepts ?i c" "conn_role c = Client" "\<forall>(i, t) \<in> set xs. Input_wf i" for xs
    using client_closed_run [of c' xs] conn_handle_inv [OF assms(1,2), of now] handle_fixed [of ?i now c] closed that assms(3) by simp
  with d acc in1 closed show ?thesis by auto
qed

theorem iframe_acceptance_witness:
  "\<exists>c' acts. conn_handle (Input_Apdu (I (SeqNo 3) (SeqNo 0) [7])) 5 (conn_new Client demo_config) = (c', acts) \<and>
     delivered acts = [] \<and> conn_state c' = Closed"
proof -
  obtain c' acts where h: "conn_handle (Input_Apdu (I (SeqNo 3) (SeqNo 0) [7])) 5 (conn_new Client demo_config) = (c', acts)" by fastforce
  have "Input_wf (Input_Apdu (I (SeqNo 3) (SeqNo 0) [7]))" by code_simp
  from iframe_acceptance [OF conn_new_inv this h] h show ?thesis by (auto simp: conn_new_def)
qed



section \<open>The APDU codec\<close>

text \<open>
  C15. Encoding a well-formed APDU appends a frame of at most 255 octets and reports its length; the
  stream decoder and the slice decoder both recover the APDU from it and leave what follows; any proper
  prefix of the frame makes the slice decoder ask for more without consuming anything.
\<close>
theorem apdu_roundtrip:
  assumes "bytes_crate bo" and "Apdu_wf apdu" and "MAX_APDU_LEN \<le> remaining_mut bo buf"
  shows "\<exists>w. length w \<le> 255 \<and> Codec_encode bo apdu buf = (Ok (length w), buf @ w) \<and>
    Codec_decode bo (w @ rest) = (Ok (Some apdu), rest) \<and>
    Codec_decode_slice bo (w @ rest) = Ok (Some (apdu, length w)) \<and>
    (\<forall>n < length w. Codec_decode_slice bo (take n w) = Ok None)"
  using bytes_crate.Codec_encode_ok [OF assms] bytes_crate.decode_wire [OF assms(1,2)] bytes_crate.decode_slice_wire [OF assms(1,2)]
    bytes_crate.decode_slice_prefix [OF assms(1,2)] apdu_wire_bound [OF assms(2)]
  by (intro exI [of _ "apdu_wire apdu"]) (simp add: MAX_APDU_LEN_def)

theorem apdu_roundtrip_witness:
  "\<exists>w. Codec_encode slice_api (I (SeqNo 32767) (SeqNo 5) [100, 1]) [] = (Ok (length w), w) \<and>
    Codec_decode_slice slice_api (w @ [9]) = Ok (Some (I (SeqNo 32767) (SeqNo 5) [100, 1], length w))"
proof -
  have "Apdu_wf (I (SeqNo 32767) (SeqNo 5) [100, 1])" by code_simp
  moreover have "MAX_APDU_LEN \<le> remaining_mut slice_api []" by (simp add: MAX_APDU_LEN_def slice_api_def)
  ultimately show ?thesis using apdu_roundtrip [OF slice_api_laws, of "I (SeqNo 32767) (SeqNo 5) [100, 1]" "[]" "[9]"] by auto
qed

text \<open>
  The slice decoder is total on arbitrary input: it never panics, and a frame it accepts lies within
  the buffer, has the length its length octet declares and carries 15-bit sequence numbers.
\<close>
theorem apdu_decode_total:
  assumes "bytes_crate bo"
  shows "Codec_decode_slice bo buf \<noteq> Panic \<and>
    (\<forall>apdu n. Codec_decode_slice bo buf = Ok (Some (apdu, n)) \<longrightarrow>
      6 \<le> n \<and> n \<le> length buf \<and> n = length (apdu_wire apdu) \<and> Input_wf (Input_Apdu apdu))"
  using bytes_crate.decode_slice_not_panic [OF assms, of buf] bytes_crate.decode_slice_Some [OF assms, of buf]
  by (fastforce simp: Input_wf_def split: Apdu.splits)

theorem apdu_decode_total_witness: "Codec_decode_slice slice_api [0x68, 4, 0xFF, 0, 0, 0, 1] \<noteq> Panic"
  using apdu_decode_total [OF slice_api_laws, of "[0x68, 4, 0xFF, 0, 0, 0, 1]"] by blast

text \<open>
  An I-frame whose ASDU exceeds 249 octets is rejected with AsduTooLong and the buffer is left as it
  was; no other APDU is ever rejected.
\<close>
theorem apdu_too_long:
  "case apdu of
     I s r x \<Rightarrow> (if 249 < length x then Codec_encode bo apdu buf = (Err (AsduTooLong (length x) 249), buf)
                else (\<forall>e. fst (Codec_encode bo apdu buf) \<noteq> Err e))
   | _ \<Rightarrow> (\<forall>e. fst (Codec_encode bo apdu buf) \<noteq> Err e)"
  by (auto simp: Codec_encode_def MAX_ASDU_LEN_def Let_def split: Apdu.split)

text \<open>
  Sequence numbers are the integers modulo 2^15: next and add are addition, distance is subtraction,
  it inverts add, it is zero only between equal numbers, and the wire form is a 16-bit even number from
  which the number is recovered.
\<close>
theorem seqno_laws:
  assumes "SeqNo_wf s" and "SeqNo_wf t"
  shows "seq_nat (SeqNo_add s n) = (seq_nat s + unat n) mod 2 ^ 15 \<and>
    unat (SeqNo_distance s t) = (seq_nat t + 2 ^ 15 - seq_nat s) mod 2 ^ 15 \<and>
    SeqNo_add s (SeqNo_distance s t) = t \<and> (SeqNo_distance s t = 0 \<longleftrightarrow> s = t) \<and>
    unat (SeqNo_to_wire s) = 2 * seq_nat s \<and> SeqNo_from_wire (SeqNo_to_wire s) = s"
proof -
  have lt: "seq_nat s < 2 ^ 15" "seq_nat t < 2 ^ 15" using assms by (simp_all add: SeqNo_wf_nat)
  have "unat (SeqNo_to_wire s) = 2 * seq_nat s"
    using lt(1) by (cases s) (simp add: SeqNo_to_wire_def seq_nat_def push_bit_eq_mult unat_word_ariths)
  then show ?thesis
    using seq_nat_add seq_nat_distance [OF assms(1)] add_distance [OF assms] distance_zero [OF assms] wire_roundtrip [OF assms(1)] by simp
qed

theorem seqno_laws_witness: "SeqNo_add (SeqNo 32765) (SeqNo_distance (SeqNo 32765) (SeqNo 3)) = SeqNo 3"
proof -
  have "SeqNo_wf (SeqNo 32765)" "SeqNo_wf (SeqNo 3)" by code_simp+
  from seqno_laws [OF this] show ?thesis by blast
qed

end
