(* ===== verification/Frame101.thy ===== *)
theory Frame101
  imports Iec_Prelude
begin

text \<open>
  FT 1.2 framing for IEC 60870-5-101, \<^verbatim>\<open>crates/iec60870-proto/src/frame101\<close>: frames and link
  addresses (\<^verbatim>\<open>frame.rs\<close>), the control field (\<^verbatim>\<open>control.rs\<close>) and the codec (\<^verbatim>\<open>codec.rs\<close>).  Additions
  that panic on overflow in a checked build are modelled as such.
\<close>

section \<open>Control field\<close>

datatype Direction = Dir_Primary | Dir_Secondary

datatype FuncCodePrimary =
    ResetRemoteLink | ResetUserProcess | UserDataConfirmed | UserDataUnconfirmed
  | RequestStatus | RequestUserDataClass1 | RequestUserDataClass2

definition FuncCodePrimary_as_u8 :: "FuncCodePrimary \<Rightarrow> u8" where
  "FuncCodePrimary_as_u8 f =
     (case f of
        ResetRemoteLink \<Rightarrow> 0 | ResetUserProcess \<Rightarrow> 1 | UserDataConfirmed \<Rightarrow> 3 | UserDataUnconfirmed \<Rightarrow> 4
      | RequestStatus \<Rightarrow> 9 | RequestUserDataClass1 \<Rightarrow> 10 | RequestUserDataClass2 \<Rightarrow> 11)"

definition FuncCodePrimary_from_nibble :: "u8 \<Rightarrow> FuncCodePrimary option" where
  "FuncCodePrimary_from_nibble nibble =
     (let n = nibble AND 0x0F
      in if n = 0 then Some ResetRemoteLink
         else if n = 1 then Some ResetUserProcess
         else if n = 3 then Some UserDataConfirmed
         else if n = 4 then Some UserDataUnconfirmed
         else if n = 9 then Some RequestStatus
         else if n = 10 then Some RequestUserDataClass1
         else if n = 11 then Some RequestUserDataClass2
         else None)"

datatype FuncCodeSecondary = Sec_Ack | Sec_Nack | RespondUserData | NackNoData | StatusOfLink

definition FuncCodeSecondary_as_u8 :: "FuncCodeSecondary \<Rightarrow> u8" where
  "FuncCodeSecondary_as_u8 f =
     (case f of Sec_Ack \<Rightarrow> 0 | Sec_Nack \<Rightarrow> 1 | RespondUserData \<Rightarrow> 8 | NackNoData \<Rightarrow> 9 | StatusOfLink \<Rightarrow> 11)"

definition FuncCodeSecondary_from_nibble :: "u8 \<Rightarrow> FuncCodeSecondary option" where
  "FuncCodeSecondary_from_nibble nibble =
     (let n = nibble AND 0x0F
      in if n = 0 then Some Sec_Ack
         else if n = 1 then Some Sec_Nack
         else if n = 8 then Some RespondUserData
         else if n = 9 then Some NackNoData
         else if n = 11 then Some StatusOfLink
         else None)"

datatype ControlField =
    Primary bool bool FuncCodePrimary
  | Secondary bool bool FuncCodeSecondary

definition PRM_BIT :: u8 where "PRM_BIT = 0x40"
definition FCB_ACD_BIT :: u8 where "FCB_ACD_BIT = 0x20"
definition FCV_DFC_BIT :: u8 where "FCV_DFC_BIT = 0x10"
definition FUNC_MASK :: u8 where "FUNC_MASK = 0x0F"

definition ControlField_encode :: "ControlField \<Rightarrow> u8" where
  "ControlField_encode self =
     (case self of
        Primary fcb fcv func \<Rightarrow>
          (let b = PRM_BIT OR (FuncCodePrimary_as_u8 func AND FUNC_MASK);
               b = (if fcb then b OR FCB_ACD_BIT else b);
               b = (if fcv then b OR FCV_DFC_BIT else b)
           in b)
      | Secondary acd dfc func \<Rightarrow>
          (let b = FuncCodeSecondary_as_u8 func AND FUNC_MASK;
               b = (if acd then b OR FCB_ACD_BIT else b);
               b = (if dfc then b OR FCV_DFC_BIT else b)
           in b))"

definition ControlField_decode :: "u8 \<Rightarrow> Direction \<Rightarrow> ControlField option" where
  "ControlField_decode byte direction =
     (let fcb_acd = (byte AND FCB_ACD_BIT \<noteq> 0);
          fcv_dfc = (byte AND FCV_DFC_BIT \<noteq> 0);
          nibble = byte AND FUNC_MASK
      in case direction of
           Dir_Primary \<Rightarrow>
             (case FuncCodePrimary_from_nibble nibble of
                None \<Rightarrow> None | Some func \<Rightarrow> Some (Primary fcb_acd fcv_dfc func))
         | Dir_Secondary \<Rightarrow>
             (case FuncCodeSecondary_from_nibble nibble of
                None \<Rightarrow> None | Some func \<Rightarrow> Some (Secondary fcb_acd fcv_dfc func)))"

definition control_direction :: "ControlField \<Rightarrow> Direction" where
  "control_direction c = (case c of Primary _ _ _ \<Rightarrow> Dir_Primary | Secondary _ _ _ \<Rightarrow> Dir_Secondary)"

lemmas control_defs = PRM_BIT_def FCB_ACD_BIT_def FCV_DFC_BIT_def FUNC_MASK_def

lemma control_roundtrip: "ControlField_decode (ControlField_encode c) (control_direction c) = Some c"
proof (cases c)
  case (Primary fcb fcv f)
  then show ?thesis
    by (cases f; cases fcb; cases fcv) (simp_all add: ControlField_decode_def ControlField_encode_def control_direction_def
      control_defs FuncCodePrimary_as_u8_def FuncCodePrimary_from_nibble_def)
next
  case (Secondary acd dfc f)
  then show ?thesis
    by (cases f; cases acd; cases dfc) (simp_all add: ControlField_decode_def ControlField_encode_def control_direction_def
      control_defs FuncCodeSecondary_as_u8_def FuncCodeSecondary_from_nibble_def)
qed

text \<open>The direction bit tells the two apart on the wire.\<close>

lemma control_prm: "ControlField_encode c AND PRM_BIT \<noteq> 0 \<longleftrightarrow> control_direction c = Dir_Primary"
proof (cases c)
  case (Primary fcb fcv f)
  then show ?thesis
    by (cases f; cases fcb; cases fcv) (simp_all add: ControlField_encode_def control_direction_def control_defs
      FuncCodePrimary_as_u8_def)
next
  case (Secondary acd dfc f)
  then show ?thesis
    by (cases f; cases acd; cases dfc) (simp_all add: ControlField_encode_def control_direction_def control_defs
      FuncCodeSecondary_as_u8_def)
qed

section \<open>Frames\<close>

datatype SingleChar = Ack | Nack

definition SingleChar_from_byte :: "u8 \<Rightarrow> SingleChar option" where
  "SingleChar_from_byte b = (if b = 0xE5 then Some Ack else if b = 0xA2 then Some Nack else None)"

definition SingleChar_as_byte :: "SingleChar \<Rightarrow> u8" where
  "SingleChar_as_byte self = (case self of Ack \<Rightarrow> 0xE5 | Nack \<Rightarrow> 0xA2)"

datatype LinkAddressSize = LA_One | LA_Two

definition LinkAddressSize_len :: "LinkAddressSize \<Rightarrow> nat" where
  "LinkAddressSize_len self = (case self of LA_One \<Rightarrow> 1 | LA_Two \<Rightarrow> 2)"

datatype LinkAddress = LinkAddress u16

definition LinkAddress_encode_to :: "bytes_api \<Rightarrow> LinkAddress \<Rightarrow> octets \<Rightarrow> LinkAddressSize \<Rightarrow> octets" where
  "LinkAddress_encode_to bo self buf sz =
     (case self of LinkAddress v \<Rightarrow>
       (case sz of LA_One \<Rightarrow> put_u8 bo buf (ucast v) | LA_Two \<Rightarrow> put_u16_le bo buf v))"

definition LinkAddress_decode_from :: "octets \<Rightarrow> LinkAddressSize \<Rightarrow> LinkAddress option" where
  "LinkAddress_decode_from buf sz =
     (case sz of
        LA_One \<Rightarrow> (case buf of [] \<Rightarrow> None | b # _ \<Rightarrow> Some (LinkAddress (ucast b)))
      | LA_Two \<Rightarrow> (if length buf < 2 then None else Some (LinkAddress (u16_from_le_bytes (buf ! 0) (buf ! 1)))))"

datatype Frame101 =
    Single SingleChar
  | Fixed u8 LinkAddress
  | Variable u8 LinkAddress octets

section \<open>Checksums\<close>

definition u16_add :: "u16 \<Rightarrow> u16 \<Rightarrow> u16 outcome" where
  "u16_add a b = (if unat a + unat b < 2 ^ 16 then Ok (a + b) else Panic)"

definition checksum_fixed :: "u8 \<Rightarrow> LinkAddress \<Rightarrow> LinkAddressSize \<Rightarrow> u8 outcome" where
  "checksum_fixed control address sz =
     (case address of LinkAddress a \<Rightarrow>
       (let acc = (ucast control :: u16)
        in and_then
             (case sz of
                LA_One \<Rightarrow> u16_add acc a
              | LA_Two \<Rightarrow>
                  and_then (u16_add acc (ucast (u16_to_le_bytes a ! 0))) (\<lambda>acc.
                    u16_add acc (ucast (u16_to_le_bytes a ! 1))))
             (\<lambda>acc. Ok (ucast (acc AND 0xFF)))))"

text \<open>The loop over the ASDU masks its acc in every round, so it cannot overflow.\<close>

primrec checksum_loop :: "octets \<Rightarrow> u16 \<Rightarrow> u16 outcome" where
  "checksum_loop [] acc = Ok acc"
| "checksum_loop (b # asdu) acc = and_then (u16_add acc (ucast b)) (\<lambda>s. checksum_loop asdu (s AND 0xFF))"

definition checksum_variable :: "u8 \<Rightarrow> LinkAddress \<Rightarrow> LinkAddressSize \<Rightarrow> octets \<Rightarrow> u8 outcome" where
  "checksum_variable control address sz asdu =
     and_then (checksum_fixed control address sz) (\<lambda>c.
     and_then (checksum_loop asdu (ucast c)) (\<lambda>acc. Ok (ucast acc)))"

section \<open>The codec\<close>

definition START_FIXED :: u8 where "START_FIXED = 0x10"
definition START_VAR :: u8 where "START_VAR = 0x68"
definition FT12_END :: u8 where "FT12_END = 0x16"

definition Codec101_encode :: "bytes_api \<Rightarrow> Frame101 \<Rightarrow> octets \<Rightarrow> LinkAddressSize \<Rightarrow> (nat \<times> octets) outcome" where
  "Codec101_encode bo frame buf addr_size =
     (case frame of
        Single sc \<Rightarrow> Ok (1, put_u8 bo buf (SingleChar_as_byte sc))
      | Fixed control address \<Rightarrow>
          and_then (checksum_fixed control address addr_size) (\<lambda>cs.
            let buf = put_u8 bo buf START_FIXED;
                buf = put_u8 bo buf control;
                buf = LinkAddress_encode_to bo address buf addr_size;
                buf = put_u8 bo buf cs;
                buf = put_u8 bo buf FT12_END
            in Ok (2 + LinkAddressSize_len addr_size + 2, buf))
      | Variable control address asdu \<Rightarrow>
          (let len = (of_nat (1 + LinkAddressSize_len addr_size + length asdu) :: u8)
           in and_then (checksum_variable control address addr_size asdu) (\<lambda>cs.
             let buf = put_u8 bo buf START_VAR;
                 buf = put_u8 bo buf len;
                 buf = put_u8 bo buf len;
                 buf = put_u8 bo buf START_VAR;
                 buf = put_u8 bo buf control;
                 buf = LinkAddress_encode_to bo address buf addr_size;
                 buf = put_slice bo buf asdu;
                 buf = put_u8 bo buf cs;
                 buf = put_u8 bo buf FT12_END
             in Ok (4 + 1 + LinkAddressSize_len addr_size + length asdu + 1 + 1, buf))))"

text \<open>\<^verbatim>\<open>&buf[a..b]\<close> within bounds.\<close>

definition subslice :: "'a list \<Rightarrow> nat \<Rightarrow> nat \<Rightarrow> 'a list" where
  "subslice buf a b = take (b - a) (drop a buf)"

definition decode_fixed :: "octets \<Rightarrow> LinkAddressSize \<Rightarrow> (Frame101 \<times> nat) option outcome" where
  "decode_fixed buf addr_size =
     (let total = 1 + 1 + LinkAddressSize_len addr_size + 1 + 1
      in if length buf < total then Ok None
         else
           (let control = buf ! 1;
                la_start = 2;
                la_end = la_start + LinkAddressSize_len addr_size
            in case LinkAddress_decode_from (subslice buf la_start la_end) addr_size of
                 None \<Rightarrow> Panic
               | Some address \<Rightarrow>
                   (let cs_wire = buf ! la_end; end_b = buf ! (la_end + 1)
                    in if end_b \<noteq> FT12_END then Err (InvalidEndByte FT12_END end_b)
                       else and_then (checksum_fixed control address addr_size) (\<lambda>cs_calc.
                         if cs_calc \<noteq> cs_wire then Err (ChecksumMismatch cs_calc cs_wire)
                         else Ok (Some (Fixed control address, total))))))"

definition decode_variable :: "octets \<Rightarrow> LinkAddressSize \<Rightarrow> (Frame101 \<times> nat) option outcome" where
  "decode_variable buf addr_size =
     (if length buf < 6 then Ok None
      else
        (let l1 = buf ! 1; l2 = buf ! 2
         in if l1 \<noteq> l2 then Err (LengthOctetsDiffer l1 l2)
            else
              (let len = unat l1; min_length = 1 + LinkAddressSize_len addr_size
               in if len < min_length then Err (LengthMismatch len min_length)
                  else if length buf < 4 then Ok None
                  else
                    (let total = 4 + len + 2
                     in if length buf < total then Ok None
                        else if buf ! 3 \<noteq> START_VAR then Err (InvalidStartByte START_VAR (buf ! 3))
                        else
                          (let control = buf ! 4;
                               la_start = 5;
                               la_end = la_start + LinkAddressSize_len addr_size
                           in case LinkAddress_decode_from (subslice buf la_start la_end) addr_size of
                                None \<Rightarrow> Panic
                              | Some address \<Rightarrow>
                                  (let asdu_end = 4 + len;
                                       asdu = subslice buf la_end asdu_end;
                                       cs_wire = buf ! asdu_end;
                                       end_b = buf ! (asdu_end + 1)
                                   in if end_b \<noteq> FT12_END then Err (InvalidEndByte FT12_END end_b)
                                      else and_then (checksum_variable control address addr_size asdu) (\<lambda>cs_calc.
                                        if cs_calc \<noteq> cs_wire then Err (ChecksumMismatch cs_calc cs_wire)
                                        else Ok (Some (Variable control address asdu, total)))))))))"

definition Codec101_decode_slice :: "octets \<Rightarrow> LinkAddressSize \<Rightarrow> (Frame101 \<times> nat) option outcome" where
  "Codec101_decode_slice buf addr_size =
     (if buf = [] then Ok None
      else
        (case SingleChar_from_byte (buf ! 0) of
           Some sc \<Rightarrow> Ok (Some (Single sc, 1))
         | None \<Rightarrow>
             (if buf ! 0 = START_FIXED then decode_fixed buf addr_size
              else if buf ! 0 = START_VAR then decode_variable buf addr_size
              else Err (InvalidStartByte START_FIXED (buf ! 0)))))"

section \<open>The checksum is the sum of the protected octets\<close>

primrec la_bytes :: "LinkAddressSize \<Rightarrow> LinkAddress \<Rightarrow> octets" where
  "la_bytes sz (LinkAddress v) = (case sz of LA_One \<Rightarrow> [ucast v] | LA_Two \<Rightarrow> u16_to_le_bytes v)"

primrec la_fits :: "LinkAddressSize \<Rightarrow> LinkAddress \<Rightarrow> bool" where
  "la_fits sz (LinkAddress v) \<longleftrightarrow> sz = LA_One \<longrightarrow> v < 256"

lemma low_octet: "ucast (w AND 0xFF) = (ucast w :: u8)" for w :: u16
  by (rule octet_eqI) (simp_all add: bit_simps)

lemma unat_low: "unat (ucast w :: u8) = unat w mod 256" for w :: u16
  by (simp add: unsigned_ucast_eq take_bit_nat_def)

lemma ucast_plus: "ucast (a + b) = (ucast a + ucast b :: u8)" for a b :: u16
  by (simp add: word_unat_eq_iff unat_low unat_word_ariths mod_mod_cancel mod_add_eq)

lemma unat_wide: "unat (ucast b :: u16) = unat b" for b :: u8
proof -
  have "unat b < 2 ^ 8" using unsigned_less [of b, where 'a = nat] by simp
  then show ?thesis by (simp add: unsigned_ucast_eq take_bit_nat_eq_self)
qed

lemma unat_octet: "unat (b :: u8) < 256"
  using unsigned_less [of b, where 'a = nat] by simp

lemma wide_octet: "ucast (ucast b :: u16) = b" for b :: u8
  by (simp add: word_unat_eq_iff unat_low unat_wide unat_octet)

lemma masked_sum: "(ucast a + ucast b :: u16) AND 0xFF = ucast (a + b)" for a b :: u8
proof -
  have "(w :: u16) AND 0xFF = ucast (ucast w :: u8)" for w
  proof -
    have "w AND 0xFF = take_bit 8 w" by (simp add: take_bit_eq_mask mask_eq_exp_minus_1)
    then show ?thesis by (simp add: word_unat_eq_iff unat_wide unat_low unsigned_take_bit_eq take_bit_nat_def)
  qed
  then show ?thesis by (simp add: ucast_plus wide_octet)
qed

lemma octets_add: "u16_add (ucast a) (ucast b) = Ok (ucast a + ucast b)" for a b :: u8
  using unat_octet [of a] unat_octet [of b] by (simp add: u16_add_def unat_wide)

lemma checksum_loop_sum: "checksum_loop asdu (ucast c) = Ok (ucast (c + sum_list asdu))" for c :: u8
  by (induction asdu arbitrary: c) (simp_all add: octets_add masked_sum add.assoc)

lemma checksum_fixed_sum:
  assumes "sz = LA_One \<Longrightarrow> unat control + unat v < 2 ^ 16"
  shows "checksum_fixed control (LinkAddress v) sz = Ok (control + sum_list (la_bytes sz (LinkAddress v)))"
proof (cases sz)
  case LA_One
  with assms show ?thesis
    by (simp add: checksum_fixed_def u16_add_def unat_wide low_octet ucast_plus wide_octet)
next
  case LA_Two
  have "u16_add (ucast a + ucast b) (ucast c) = Ok (ucast a + ucast b + ucast c)" for a b c :: u8
    using unat_octet [of a] unat_octet [of b] unat_octet [of c]
    by (simp add: u16_add_def unat_wide unat_word_ariths)
  with LA_Two show ?thesis
    by (simp add: checksum_fixed_def octets_add u16_to_le_bytes_def low_octet ucast_plus wide_octet add.assoc)
qed

lemma checksum_variable_sum:
  assumes "sz = LA_One \<Longrightarrow> unat control + unat v < 2 ^ 16"
  shows "checksum_variable control (LinkAddress v) sz asdu =
    Ok (control + sum_list (la_bytes sz (LinkAddress v)) + sum_list asdu)"
  by (simp add: checksum_variable_def checksum_fixed_sum [OF assms] checksum_loop_sum wide_octet)

lemma checksum_fits:
  assumes "la_fits sz a"
  shows "checksum_fixed control a sz = Ok (control + sum_list (la_bytes sz a))"
    and "checksum_variable control a sz asdu = Ok (control + (sum_list (la_bytes sz a) + sum_list asdu))"
proof -
  obtain v where a: "a = LinkAddress v" by (cases a)
  have "unat control + unat v < 2 ^ 16" if "sz = LA_One"
    using that assms a unat_octet [of control] by (simp add: word_less_nat_alt)
  then show "checksum_fixed control a sz = Ok (control + sum_list (la_bytes sz a))"
    and "checksum_variable control a sz asdu = Ok (control + (sum_list (la_bytes sz a) + sum_list asdu))"
    using checksum_fixed_sum checksum_variable_sum by (simp_all only: a add.assoc)
qed

section \<open>The wire form\<close>

fun ft12_wire :: "LinkAddressSize \<Rightarrow> Frame101 \<Rightarrow> octets" where
  "ft12_wire sz (Single sc) = [SingleChar_as_byte sc]"
| "ft12_wire sz (Fixed c a) = [START_FIXED, c] @ la_bytes sz a @ [c + sum_list (la_bytes sz a), FT12_END]"
| "ft12_wire sz (Variable c a asdu) =
     (let body = c # la_bytes sz a @ asdu; l = of_nat (length body)
      in [START_VAR, l, l, START_VAR] @ body @ [sum_list body, FT12_END])"

fun frame_fits :: "LinkAddressSize \<Rightarrow> Frame101 \<Rightarrow> bool" where
  "frame_fits sz (Single sc) \<longleftrightarrow> True"
| "frame_fits sz (Fixed c a) \<longleftrightarrow> la_fits sz a"
| "frame_fits sz (Variable c a asdu) \<longleftrightarrow> la_fits sz a \<and> 1 + LinkAddressSize_len sz + length asdu \<le> 255"

lemma la_bytes_length [simp]: "length (la_bytes sz a) = LinkAddressSize_len sz"
  by (cases a; cases sz) (simp_all add: LinkAddressSize_len_def u16_to_le_bytes_def)

context bytes_crate
begin

lemma encode_to_bytes: "LinkAddress_encode_to bo a buf sz = buf @ la_bytes sz a"
  by (cases a; cases sz) (simp_all add: LinkAddress_encode_to_def put_simps)

lemma encode_wire:
  assumes "frame_fits sz frame"
  shows "Codec101_encode bo frame buf sz = Ok (length (ft12_wire sz frame), buf @ ft12_wire sz frame)"
  using assms
  by (cases frame) (simp_all add: Codec101_encode_def checksum_fits encode_to_bytes put_simps Let_def)

end

section \<open>Decoding\<close>

lemma two_octets: "length bs = 2 \<Longrightarrow> \<exists>a b. bs = [a, b]"
  by (auto simp: numeral_2_eq_2 length_Suc_conv)

lemma u16_octets: "u16_to_le_bytes (u16_from_le_bytes a b) = [a, b]"
  by (simp add: u16_to_le_bytes_def bytes_simps)

lemma wide_small: "(ucast (b :: u8) :: u16) < 256"
  by (simp add: word_less_nat_alt unat_wide unat_octet)

lemma decode_la:
  assumes "length bs = LinkAddressSize_len sz"
  obtains a where "LinkAddress_decode_from bs sz = Some a" "la_fits sz a" "la_bytes sz a = bs"
proof (cases sz)
  case LA_One
  with assms obtain b where "bs = [b]" by (auto simp: LinkAddressSize_len_def length_Suc_conv)
  with LA_One that [of "LinkAddress (ucast b)"] show thesis
    by (simp add: LinkAddress_decode_from_def wide_octet wide_small)
next
  case LA_Two
  with assms obtain a b where "bs = [a, b]" using two_octets [of bs] by (auto simp: LinkAddressSize_len_def)
  with LA_Two that [of "LinkAddress (u16_from_le_bytes a b)"] show thesis
    by (simp add: LinkAddress_decode_from_def u16_octets)
qed

lemma la_decode:
  assumes "la_fits sz a"
  shows "LinkAddress_decode_from (la_bytes sz a) sz = Some a"
proof -
  obtain v where a: "a = LinkAddress v" by (cases a)
  have "unat (ucast (ucast v :: u8) :: u16) = unat v" if "v < 256"
    using that by (simp add: unat_wide unat_low word_less_nat_alt)
  with assms a show ?thesis
    by (cases sz) (simp_all add: LinkAddress_decode_from_def u16_to_le_bytes_def bytes_simps word_unat_eq_iff)
qed

lemma decode_fixed_at:
  assumes "length la = LinkAddressSize_len sz" and "LinkAddress_decode_from la sz = Some a"
  shows "decode_fixed ([s, c] @ la @ [cs, e] @ rest) sz =
    (if e \<noteq> FT12_END then Err (InvalidEndByte FT12_END e)
     else and_then (checksum_fixed c a sz) (\<lambda>k. if k \<noteq> cs then Err (ChecksumMismatch k cs)
       else Ok (Some (Fixed c a, 1 + 1 + LinkAddressSize_len sz + 1 + 1))))"
  using assms by (simp add: decode_fixed_def subslice_def Let_def nth_append numeral_eq_Suc cong: if_cong)

lemma decode_variable_at:
  assumes "length la = LinkAddressSize_len sz" and "LinkAddress_decode_from la sz = Some a"
    and "unat l = 1 + LinkAddressSize_len sz + length asdu"
  shows "decode_variable ([s, l, l2, s2, c] @ la @ asdu @ [cs, e] @ rest) sz =
    (if l \<noteq> l2 then Err (LengthOctetsDiffer l l2)
     else if s2 \<noteq> START_VAR then Err (InvalidStartByte START_VAR s2)
     else if e \<noteq> FT12_END then Err (InvalidEndByte FT12_END e)
     else and_then (checksum_variable c a sz asdu) (\<lambda>k. if k \<noteq> cs then Err (ChecksumMismatch k cs)
       else Ok (Some (Variable c a asdu, 4 + unat l + 2))))"
proof -
  let ?n = "LinkAddressSize_len sz"
  let ?buf = "[s, l, l2, s2, c] @ la @ asdu @ [cs, e] @ rest"
  have sub: "subslice ?buf 5 (5 + ?n) = la" "subslice ?buf (5 + ?n) (4 + unat l) = asdu"
    using assms(1,3) by (simp_all add: subslice_def numeral_eq_Suc)
  have nths: "?buf ! 1 = l" "?buf ! 2 = l2" "?buf ! 3 = s2" "?buf ! 4 = c" "?buf ! (4 + unat l) = cs"
    "?buf ! (4 + unat l + 1) = e"
    using assms(1,3) by (simp_all add: nth_append numeral_eq_Suc)
  have len: "\<not> length ?buf < 6" "\<not> unat l < 1 + ?n" "\<not> length ?buf < 4" "\<not> length ?buf < 4 + unat l + 2"
    using assms(1,3) by simp_all
  show ?thesis
    unfolding decode_variable_def Let_def nths sub if_not_P [OF len(1)] if_not_P [OF len(2)] if_not_P [OF len(3)]
      if_not_P [OF len(4)] assms(2) by (simp add: add.commute)
qed

lemma decode_slice_start:
  "Codec101_decode_slice (START_FIXED # buf) sz = decode_fixed (START_FIXED # buf) sz"
  "Codec101_decode_slice (START_VAR # buf) sz = decode_variable (START_VAR # buf) sz"
  by (simp_all add: Codec101_decode_slice_def START_FIXED_def START_VAR_def SingleChar_from_byte_def)

lemma unat_body_length:
  "n \<le> 255 \<Longrightarrow> unat (of_nat n :: u8) = n"
  by (simp add: unsigned_of_nat take_bit_nat_eq_self)

lemma decode_ft12_wire:
  assumes "frame_fits sz frame"
  shows "Codec101_decode_slice (ft12_wire sz frame @ rest) sz = Ok (Some (frame, length (ft12_wire sz frame)))"
proof (cases frame)
  case (Single sc)
  then show ?thesis
    by (cases sc) (simp_all add: Codec101_decode_slice_def SingleChar_from_byte_def SingleChar_as_byte_def)
next
  case (Fixed c a)
  with assms have fits: "la_fits sz a" by simp
  from decode_fixed_at [OF la_bytes_length la_decode [OF fits], of START_FIXED c "c + sum_list (la_bytes sz a)" FT12_END rest]
  show ?thesis by (simp add: Fixed decode_slice_start checksum_fits [OF fits])
next
  case (Variable c a asdu)
  let ?l = "of_nat (1 + LinkAddressSize_len sz + length asdu) :: u8"
  from assms Variable have fits: "la_fits sz a" by simp
  from assms Variable have l: "unat ?l = 1 + LinkAddressSize_len sz + length asdu"
    by (intro unat_body_length) simp
  from decode_variable_at [OF la_bytes_length la_decode [OF fits] l, of START_VAR ?l START_VAR c
      "c + (sum_list (la_bytes sz a) + sum_list asdu)" FT12_END rest] l
  show ?thesis by (simp add: Variable decode_slice_start checksum_fits [OF fits] Let_def)
qed

text \<open>A frame that has not arrived completely is not an error.\<close>

lemma decode_ft12_prefix:
  assumes "frame_fits sz frame" and "n < length (ft12_wire sz frame)"
  shows "Codec101_decode_slice (take n (ft12_wire sz frame)) sz = Ok None"
proof (cases "n = 0")
  case False
  then obtain m where n: "n = Suc m" by (cases n) auto
  show ?thesis
  proof (cases frame)
    case (Fixed c a)
    with assms n show ?thesis
      by (simp add: decode_slice_start) (simp add: decode_fixed_def Let_def)
  next
    case (Variable c a asdu)
    let ?l = "of_nat (1 + LinkAddressSize_len sz + length asdu) :: u8"
    have l: "unat ?l = 1 + LinkAddressSize_len sz + length asdu"
      using assms(1) Variable by (intro unat_body_length) simp
    show ?thesis
    proof (cases "n < 6")
      case True
      with n Variable assms(2) show ?thesis
        by (simp add: Let_def decode_slice_start) (simp add: decode_variable_def)
    next
      case False
      then obtain k where k: "n = Suc (Suc (Suc k))" using that [of "n - 3"] by simp
      with False Variable assms(2) l show ?thesis
        by (simp add: Let_def decode_slice_start) (simp add: decode_variable_def Let_def)
    qed
  qed (use assms n in simp)
qed (simp add: Codec101_decode_slice_def)

text \<open>Any buffer with enough octets has the shape the lemmas above ask for.\<close>

lemma split_at_length:
  assumes "n \<le> length xs"
  obtains ys zs where "xs = ys @ zs" "length ys = n"
  using assms that [of "take n xs" "drop n xs"] by simp

lemma split_fixed:
  assumes "4 + LinkAddressSize_len sz \<le> length buf"
  obtains s c la cs e rest where "buf = [s, c] @ la @ [cs, e] @ rest" "length la = LinkAddressSize_len sz"
proof -
  from assms obtain hd0 t where 1: "buf = hd0 @ t" "length hd0 = 2" using split_at_length [of 2 buf] by auto
  from assms 1 obtain la t2 where 2: "t = la @ t2" "length la = LinkAddressSize_len sz"
    using split_at_length [of "LinkAddressSize_len sz" t] by auto
  from assms 1 2 obtain tl0 rest where 3: "t2 = tl0 @ rest" "length tl0 = 2"
    using split_at_length [of 2 t2] by auto
  from 1 3 two_octets obtain s c cs e where "hd0 = [s, c]" "tl0 = [cs, e]" by blast
  with 1 2 3 that show thesis by simp
qed

lemma split_variable:
  assumes "1 + LinkAddressSize_len sz \<le> unat (buf ! 1)" and "6 + unat (buf ! 1) \<le> length buf"
  obtains s l l2 s2 c la asdu cs e rest where "buf = [s, l, l2, s2, c] @ la @ asdu @ [cs, e] @ rest"
    "length la = LinkAddressSize_len sz" "unat l = 1 + LinkAddressSize_len sz + length asdu"
proof -
  let ?n = "LinkAddressSize_len sz" and ?l = "unat (buf ! 1)"
  from assms obtain hd0 t where 1: "buf = hd0 @ t" "length hd0 = 5" using split_at_length [of 5 buf] by auto
  then obtain s l l2 s2 c where h: "hd0 = [s, l, l2, s2, c]"
    by (auto simp: numeral_eq_Suc length_Suc_conv)
  from assms 1 obtain la t2 where 2: "t = la @ t2" "length la = ?n" using split_at_length [of ?n t] by auto
  have buf: "length buf = 5 + ?n + length t2" using 1 2 by simp
  with assms have "?l - 1 - ?n \<le> length t2" by linarith
  then obtain asdu t3 where 3: "t2 = asdu @ t3" "length asdu = ?l - 1 - ?n" by (rule split_at_length)
  from buf 3(1) have "length buf = 5 + ?n + length asdu + length t3" by simp
  with assms 3(2) have "2 \<le> length t3" by linarith
  then obtain tl0 rest where 4: "t3 = tl0 @ rest" "length tl0 = 2" by (rule split_at_length)
  from 4 two_octets obtain cs e where "tl0 = [cs, e]" by blast
  moreover from 1 h have "buf ! 1 = l" by simp
  ultimately show thesis using 1 2 3 4 h assms(1) that [of s l l2 s2 c la asdu cs e rest] by simp
qed

lemma decode_fixed_cases:
  "decode_fixed buf sz \<noteq> Panic \<and>
   (decode_fixed buf sz = Ok (Some (frame, n)) \<longrightarrow> buf ! 0 = START_FIXED \<longrightarrow>
     frame_fits sz frame \<and> n \<le> length buf \<and> take n buf = ft12_wire sz frame)"
proof (cases "4 + LinkAddressSize_len sz \<le> length buf")
  case True
  then obtain s c la cs e rest where b: "buf = [s, c] @ la @ [cs, e] @ rest" "length la = LinkAddressSize_len sz"
    by (rule split_fixed)
  then obtain a where a: "LinkAddress_decode_from la sz = Some a" "la_fits sz a" "la_bytes sz a = la"
    using decode_la by blast
  from decode_fixed_at [OF b(2) a(1), of s c cs e rest] a(2,3) b(1,2) show ?thesis
    by (auto simp: checksum_fits split: if_splits)
next
  case False
  then show ?thesis by (simp add: decode_fixed_def Let_def)
qed

lemma decode_variable_split:
  assumes "1 + LinkAddressSize_len sz \<le> unat (buf ! 1)" and "6 + unat (buf ! 1) \<le> length buf"
    and "decode_variable buf sz = Ok (Some (frame, n))" and "buf ! 0 = START_VAR"
  shows "frame_fits sz frame \<and> n \<le> length buf \<and> take n buf = ft12_wire sz frame"
proof -
  from assms(1,2) obtain s l l2 s2 c la asdu cs e rest where
    b: "buf = [s, l, l2, s2, c] @ la @ asdu @ [cs, e] @ rest"
      "length la = LinkAddressSize_len sz" "unat l = 1 + LinkAddressSize_len sz + length asdu"
    by (rule split_variable)
  obtain a where a: "LinkAddress_decode_from la sz = Some a" "la_fits sz a" "la_bytes sz a = la"
    using decode_la [OF b(2)] by blast
  have eq: "decode_variable buf sz =
    (if l \<noteq> l2 then Err (LengthOctetsDiffer l l2)
     else if s2 \<noteq> START_VAR then Err (InvalidStartByte START_VAR s2)
     else if e \<noteq> FT12_END then Err (InvalidEndByte FT12_END e)
     else if c + (sum_list la + sum_list asdu) \<noteq> cs then Err (ChecksumMismatch (c + (sum_list la + sum_list asdu)) cs)
     else Ok (Some (Variable c a asdu, 4 + unat l + 2)))"
    unfolding b(1) decode_variable_at [OF b(2) a(1) b(3)] checksum_fits [OF a(2)] a(3) by simp
  from assms(3) have f: "l = l2" "s2 = START_VAR" "e = FT12_END" "c + (sum_list la + sum_list asdu) = cs"
      "frame = Variable c a asdu" "n = 4 + unat l + 2"
    unfolding eq by (simp_all split: if_splits)
  have "Suc (LinkAddressSize_len sz + length asdu) = unat l" using b(3) by simp
  then have l: "of_nat (Suc (LinkAddressSize_len sz + length asdu)) = l" by (simp only:) simp
  have t: "take n buf = [s, l, l2, s2, c] @ la @ asdu @ [cs, e]" "n \<le> length buf"
    using b f(6) by (simp_all add: numeral_eq_Suc)
  have "1 + LinkAddressSize_len sz + length asdu \<le> 255" using unat_octet [of l] b(3) by simp
  moreover from assms(4) b(1) have "s = START_VAR" by simp
  ultimately show ?thesis
    using f t l a(2,3) b(2) by (simp add: Let_def del: of_nat_Suc)
qed

lemma decode_variable_cases:
  "decode_variable buf sz \<noteq> Panic \<and>
   (decode_variable buf sz = Ok (Some (frame, n)) \<longrightarrow> buf ! 0 = START_VAR \<longrightarrow>
     frame_fits sz frame \<and> n \<le> length buf \<and> take n buf = ft12_wire sz frame)"
proof (cases "1 + LinkAddressSize_len sz \<le> unat (buf ! 1) \<and> 6 + unat (buf ! 1) \<le> length buf")
  case True
  then have r: "1 + LinkAddressSize_len sz \<le> unat (buf ! 1)" "6 + unat (buf ! 1) \<le> length buf" by auto
  then obtain s l l2 s2 c la asdu cs e rest where
    b: "buf = [s, l, l2, s2, c] @ la @ asdu @ [cs, e] @ rest"
      "length la = LinkAddressSize_len sz" "unat l = 1 + LinkAddressSize_len sz + length asdu"
    by (rule split_variable)
  obtain a where a: "LinkAddress_decode_from la sz = Some a" "la_fits sz a"
    using decode_la [OF b(2)] by blast
  have "decode_variable buf sz \<noteq> Panic"
    unfolding b(1) decode_variable_at [OF b(2) a(1) b(3)] checksum_fits [OF a(2)] by simp
  then show ?thesis using decode_variable_split [OF r] by blast
next
  case False
  then consider "unat (buf ! 1) < 1 + LinkAddressSize_len sz" | "length buf < 4 + unat (buf ! 1) + 2" by linarith
  then have "decode_variable buf sz = Ok None \<or> (\<exists>e. decode_variable buf sz = Err e)"
    by cases (simp_all only: decode_variable_def Let_def if_True simp_thms, auto)
  then show ?thesis by auto
qed

lemma decode_ft12_not_panic: "Codec101_decode_slice buf sz \<noteq> Panic"
  using decode_fixed_cases [of buf sz] decode_variable_cases [of buf sz]
  by (auto simp: Codec101_decode_slice_def split: option.splits)

lemma decode_ft12_exact:
  assumes "Codec101_decode_slice buf sz = Ok (Some (frame, n))"
  shows "frame_fits sz frame \<and> n \<le> length buf \<and> take n buf = ft12_wire sz frame"
proof (cases "SingleChar_from_byte (buf ! 0)")
  case (Some sc)
  with assms have "frame = Single sc" "n = 1" "buf \<noteq> []"
    by (auto simp: Codec101_decode_slice_def split: if_splits)
  moreover from Some have "buf ! 0 = SingleChar_as_byte sc"
    by (auto simp: SingleChar_from_byte_def SingleChar_as_byte_def split: if_splits)
  ultimately show ?thesis by (cases buf) auto
next
  case None
  with assms show ?thesis
    using decode_fixed_cases [of buf sz frame n] decode_variable_cases [of buf sz frame n]
    by (auto simp: Codec101_decode_slice_def split: if_splits)
qed

section \<open>Corruption\<close>

lemma sum_list_replace: "i < length xs \<Longrightarrow> sum_list (xs[i := b]) = sum_list xs - xs ! i + b" for b :: u8
  by (induction xs arbitrary: i) (auto split: nat.split)

text \<open>One wrong octet in control, address or ASDU is always noticed.\<close>

lemma corrupted_octet:
  assumes "frame_fits sz (Variable c a asdu)" and "i < 1 + LinkAddressSize_len sz + length asdu"
    and "b \<noteq> ft12_wire sz (Variable c a asdu) ! (4 + i)"
  shows "\<exists>k cs. Codec101_decode_slice ((ft12_wire sz (Variable c a asdu))[4 + i := b] @ rest) sz = Err (ChecksumMismatch k cs)"
proof -
  let ?n = "LinkAddressSize_len sz" and ?body = "c # la_bytes sz a @ asdu"
  let ?l = "of_nat (1 + ?n + length asdu) :: u8"
  have l: "unat ?l = 1 + ?n + length asdu" using assms(1) by (intro unat_body_length) simp
  have i: "i < length ?body" using assms(2) by simp
  have w: "ft12_wire sz (Variable c a asdu) = [START_VAR, ?l, ?l, START_VAR] @ ?body @ [sum_list ?body, FT12_END]"
    by (simp add: Let_def)
  have "(ft12_wire sz (Variable c a asdu))[4 + i := b] = [START_VAR, ?l, ?l, START_VAR] @ (?body @ [sum_list ?body, FT12_END])[i := b]"
    unfolding w by (subst list_update_append) simp
  also have "\<dots> = [START_VAR, ?l, ?l, START_VAR] @ ?body[i := b] @ [sum_list ?body, FT12_END]"
    using i by (simp only: list_update_append if_True)
  finally have w': "(ft12_wire sz (Variable c a asdu))[4 + i := b] = [START_VAR, ?l, ?l, START_VAR] @ ?body[i := b] @ [sum_list ?body, FT12_END]" .
  have "?body[i := b] \<noteq> []" by (simp only: list_update_nonempty) simp
  then obtain c' t where ct: "?body[i := b] = c' # t" by (metis list.exhaust)
  then have "length t = ?n + length asdu" by (metis length_Cons length_append length_list_update la_bytes_length nat.inject)
  then obtain la' asdu' where t: "t = la' @ asdu'" "length la' = ?n" "length asdu' = length asdu"
    using that [of "take ?n t" "drop ?n t"] by simp
  obtain a' where a': "LinkAddress_decode_from la' sz = Some a'" "la_fits sz a'" "la_bytes sz a' = la'"
    using decode_la [OF t(2)] by blast
  have l': "unat ?l = 1 + ?n + length asdu'" using l t(3) by simp
  have "ft12_wire sz (Variable c a asdu) ! (4 + i) = (?body @ [sum_list ?body, FT12_END]) ! i"
    unfolding w using nth_append_length_plus [of "[START_VAR, ?l, ?l, START_VAR]" "?body @ [sum_list ?body, FT12_END]" i]
    by simp
  also have "\<dots> = ?body ! i" using i by (simp only: nth_append if_True)
  finally have "?body ! i \<noteq> b" using assms(3) by simp
  then have "sum_list (?body[i := b]) \<noteq> sum_list ?body" unfolding sum_list_replace [OF i] by (simp add: algebra_simps)
  then have "sum_list (c' # la' @ asdu') \<noteq> sum_list ?body" unfolding ct t(1) .
  then have ne: "c' + (sum_list la' + sum_list asdu') \<noteq> sum_list ?body" by simp
  have "Codec101_decode_slice ((ft12_wire sz (Variable c a asdu))[4 + i := b] @ rest) sz =
      decode_variable ([START_VAR, ?l, ?l, START_VAR, c'] @ la' @ asdu' @ [sum_list ?body, FT12_END] @ rest) sz"
    unfolding w' ct t(1) by (simp add: decode_slice_start)
  also have "\<dots> = Err (ChecksumMismatch (c' + (sum_list la' + sum_list asdu')) (sum_list ?body))"
    unfolding decode_variable_at [OF t(2) a'(1) l'] checksum_fits [OF a'(2)] a'(3) using ne by simp
  finally show ?thesis by blast
qed

end
