(* ===== verification/Link101.thy ===== *)
theory Link101
  imports Frame101
begin

text \<open>
  The IEC 60870-5-101 link layer, \<^verbatim>\<open>crates/iec60870-proto/src/frame101/link.rs\<close>: the unbalanced
  master/outstation state machine.  The struct \<^verbatim>\<open>Connection\<close> is the record \<open>Link\<close>; its methods
  return the new record, and \<open>Panic\<close> where the sources panic (the unimplemented balanced mode, and the
  retransmission counter in a build with overflow checks).
\<close>

section \<open>Data\<close>

record LinkConfig =
  lcfg_link_address :: LinkAddress
  lcfg_addr_size :: LinkAddressSize
  lcfg_timeout :: Duration
  lcfg_max_retries :: u8

definition LinkConfig_default :: LinkConfig where
  "LinkConfig_default =
     \<lparr> lcfg_link_address = LinkAddress 0, lcfg_addr_size = LA_One, lcfg_timeout = Duration_from_secs 1, lcfg_max_retries = 3 \<rparr>"

datatype LinkRole = Master | Outstation
datatype Mode = Unbalanced | Balanced
datatype LinkState = NotReady | Ready | Failed

datatype LinkInput =
    FrameReceived Frame101
  | LinkInput_Tick
  | SendUserData octets
  | Do_RequestStatus
  | Do_ResetRemoteLink
  | Do_RequestUserDataClass1
  | Do_RequestUserDataClass2

datatype Reason = Reason_AckTimeout | Reason_Nack | Reason_ProtocolError

datatype LinkAction =
    SendFrame Frame101
  | Link_DeliverAsdu octets
  | LinkStateChanged LinkState
  | LinkError Reason

record PendingSend =
  ps_frame :: Frame101
  ps_sent_at :: Instant
  ps_attempts :: u8

record Link =
  link_role :: LinkRole
  link_mode :: Mode
  link_config :: LinkConfig
  link_state :: LinkState
  link_fcb :: bool
  last_fcb_seen :: "bool option"
  link_pending :: "PendingSend option"
  send_queue :: "octets list"
  link_actions :: "LinkAction list"

definition link_new :: "LinkRole \<Rightarrow> Mode \<Rightarrow> LinkConfig \<Rightarrow> Link outcome" where
  "link_new role mode config =
     (if mode = Balanced then Panic
      else Ok \<lparr> link_role = role, link_mode = mode, link_config = config, link_state = NotReady,
                link_fcb = False, last_fcb_seen = None, link_pending = None, send_queue = [], link_actions = [] \<rparr>)"

section \<open>Helpers\<close>

definition link_push :: "LinkAction \<Rightarrow> Link \<Rightarrow> Link" where
  "link_push a self = self\<lparr> link_actions := link_actions self @ [a] \<rparr>"

definition transition_link :: "LinkState \<Rightarrow> Link \<Rightarrow> Link" where
  "transition_link new_state self =
     (if link_state self \<noteq> new_state
      then link_push (LinkStateChanged new_state) (self\<lparr> link_state := new_state \<rparr>) else self)"

definition emit_link_error :: "Reason \<Rightarrow> Link \<Rightarrow> Link" where
  "emit_link_error reason self = link_push (LinkError reason) self"

definition build_fixed :: "ControlField \<Rightarrow> Link \<Rightarrow> Frame101" where
  "build_fixed cf self = Fixed (ControlField_encode cf) (lcfg_link_address (link_config self))"

definition send_with_confirm :: "Frame101 \<Rightarrow> Instant \<Rightarrow> Link \<Rightarrow> Link" where
  "send_with_confirm frame now self =
     (link_push (SendFrame frame) self)\<lparr> link_pending := Some \<lparr> ps_frame = frame, ps_sent_at = now, ps_attempts = 1 \<rparr> \<rparr>"

definition send_ack :: "Link \<Rightarrow> Link" where
  "send_ack self =
     link_push (SendFrame (Fixed (ControlField_encode (Secondary False False Sec_Ack))
       (lcfg_link_address (link_config self)))) self"

definition send_status :: "Link \<Rightarrow> Link" where
  "send_status self =
     link_push (SendFrame (Fixed (ControlField_encode (Secondary False False StatusOfLink))
       (lcfg_link_address (link_config self)))) self"

definition send_respond_user_data :: "octets \<Rightarrow> Link \<Rightarrow> Link" where
  "send_respond_user_data asdu self =
     link_push (SendFrame (Variable (ControlField_encode (Secondary False False RespondUserData))
       (lcfg_link_address (link_config self)) asdu)) self"

definition send_nack_no_data :: "Link \<Rightarrow> Link" where
  "send_nack_no_data self =
     link_push (SendFrame (Fixed (ControlField_encode (Secondary False False NackNoData))
       (lcfg_link_address (link_config self)))) self"

definition maybe_flush_queue :: "Instant \<Rightarrow> Link \<Rightarrow> Link" where
  "maybe_flush_queue now self =
     (if link_pending self \<noteq> None then self
      else (case send_queue self of
              [] \<Rightarrow> self
            | asdu # queue \<Rightarrow>
                (let self = self\<lparr> send_queue := queue \<rparr>;
                     cf = Primary (link_fcb self) True UserDataConfirmed;
                     frame = Variable (ControlField_encode cf) (lcfg_link_address (link_config self)) asdu;
                     self = send_with_confirm frame now self
                 in self\<lparr> link_fcb := \<not> link_fcb self \<rparr>)))"

section \<open>Master\<close>

definition master_on_secondary_fixed :: "ControlField \<Rightarrow> Instant \<Rightarrow> Link \<Rightarrow> Link" where
  "master_on_secondary_fixed cf now self =
     (case cf of
        Secondary _ _ Sec_Ack \<Rightarrow>
          (if link_pending self \<noteq> None then
             (let self = self\<lparr> link_pending := None \<rparr>;
                  self = (if link_state self = NotReady then transition_link Ready self else self)
              in maybe_flush_queue now self)
           else self)
      | Secondary _ _ Sec_Nack \<Rightarrow> emit_link_error Reason_Nack (self\<lparr> link_pending := None \<rparr>)
      | Secondary _ _ StatusOfLink \<Rightarrow>
          (let self = self\<lparr> link_pending := None \<rparr>
           in if link_state self = NotReady then transition_link Ready self else self)
      | Secondary _ _ NackNoData \<Rightarrow> self\<lparr> link_pending := None \<rparr>
      | _ \<Rightarrow> emit_link_error Reason_ProtocolError self)"

definition master_on_frame :: "Frame101 \<Rightarrow> Instant \<Rightarrow> Link \<Rightarrow> Link" where
  "master_on_frame frame now self =
     (case frame of
        Single Ack \<Rightarrow>
          (if link_pending self \<noteq> None then maybe_flush_queue now (self\<lparr> link_pending := None \<rparr>) else self)
      | Single Nack \<Rightarrow> emit_link_error Reason_Nack (self\<lparr> link_pending := None \<rparr>)
      | Fixed control _ \<Rightarrow>
          (case ControlField_decode control Dir_Secondary of
             Some cf \<Rightarrow> master_on_secondary_fixed cf now self
           | None \<Rightarrow> emit_link_error Reason_ProtocolError self)
      | Variable control _ asdu \<Rightarrow>
          (case ControlField_decode control Dir_Secondary of
             Some (Secondary _ _ RespondUserData) \<Rightarrow>
               link_push (Link_DeliverAsdu asdu) (self\<lparr> link_pending := None \<rparr>)
           | _ \<Rightarrow> emit_link_error Reason_ProtocolError self))"

section \<open>Outstation\<close>

definition outstation_on_primary_fixed :: "ControlField \<Rightarrow> Link \<Rightarrow> Link" where
  "outstation_on_primary_fixed cf self =
     (case cf of
        Primary _ _ ResetRemoteLink \<Rightarrow> transition_link Ready (send_ack (self\<lparr> last_fcb_seen := None \<rparr>))
      | Primary _ _ RequestStatus \<Rightarrow> send_status self
      | Primary _ _ f \<Rightarrow>
          (if f = RequestUserDataClass1 \<or> f = RequestUserDataClass2 then
             (case send_queue self of
                asdu # queue \<Rightarrow> send_respond_user_data asdu (self\<lparr> send_queue := queue \<rparr>)
              | [] \<Rightarrow> send_nack_no_data self)
           else self)
      | _ \<Rightarrow> self)"

definition outstation_on_primary_variable :: "ControlField \<Rightarrow> octets \<Rightarrow> Link \<Rightarrow> Link" where
  "outstation_on_primary_variable cf asdu self =
     (case cf of
        Primary fcb fcv UserDataConfirmed \<Rightarrow>
          (let duplicate = (if fcv then last_fcb_seen self = Some fcb else False);
               self = (if fcv then self\<lparr> last_fcb_seen := Some fcb \<rparr> else self);
               self = send_ack self
           in if \<not> duplicate then link_push (Link_DeliverAsdu asdu) self else self)
      | Primary _ _ UserDataUnconfirmed \<Rightarrow> link_push (Link_DeliverAsdu asdu) self
      | _ \<Rightarrow> self)"

definition outstation_on_frame :: "Frame101 \<Rightarrow> Link \<Rightarrow> Link" where
  "outstation_on_frame frame self =
     (case frame of
        Fixed control address \<Rightarrow>
          (if address \<noteq> lcfg_link_address (link_config self) then self
           else (case ControlField_decode control Dir_Primary of
                   Some cf \<Rightarrow> outstation_on_primary_fixed cf self
                 | None \<Rightarrow> self))
      | Variable control address asdu \<Rightarrow>
          (if address \<noteq> lcfg_link_address (link_config self) then self
           else (case ControlField_decode control Dir_Primary of
                   Some cf \<Rightarrow> outstation_on_primary_variable cf asdu self
                 | None \<Rightarrow> self))
      | Single _ \<Rightarrow> self)"

section \<open>Requests\<close>

definition link_on_frame :: "Frame101 \<Rightarrow> Instant \<Rightarrow> Link \<Rightarrow> Link" where
  "link_on_frame frame now self =
     (case link_role self of
        Master \<Rightarrow> master_on_frame frame now self
      | Outstation \<Rightarrow> outstation_on_frame frame self)"

definition on_send_user_data :: "octets \<Rightarrow> Instant \<Rightarrow> Link \<Rightarrow> Link" where
  "on_send_user_data asdu now self =
     (case link_role self of
        Master \<Rightarrow> maybe_flush_queue now (self\<lparr> send_queue := send_queue self @ [asdu] \<rparr>)
      | Outstation \<Rightarrow> self\<lparr> send_queue := send_queue self @ [asdu] \<rparr>)"

definition on_request_status :: "Instant \<Rightarrow> Link \<Rightarrow> Link" where
  "on_request_status now self =
     (if link_role self \<noteq> Master then self
      else if link_pending self \<noteq> None then self
      else send_with_confirm (build_fixed (Primary False False RequestStatus) self) now self)"

definition on_reset_remote_link :: "Instant \<Rightarrow> Link \<Rightarrow> Link" where
  "on_reset_remote_link now self =
     (if link_role self \<noteq> Master then self
      else
        (let self = self\<lparr> link_pending := None \<rparr>
         in send_with_confirm (build_fixed (Primary False False ResetRemoteLink) self) now self))"

definition on_request_class :: "FuncCodePrimary \<Rightarrow> Instant \<Rightarrow> Link \<Rightarrow> Link" where
  "on_request_class func now self =
     (if link_role self \<noteq> Master then self
      else if link_pending self \<noteq> None then self
      else send_with_confirm (build_fixed (Primary False False func) self) now self)"

section \<open>Timer and entry point\<close>

definition u8_incr :: "u8 \<Rightarrow> u8 outcome" where
  "u8_incr a = (if a = 0xFF then Panic else Ok (a + 1))"

definition link_run_timers :: "Instant \<Rightarrow> Link \<Rightarrow> Link outcome" where
  "link_run_timers now self =
     (case link_pending self of
        None \<Rightarrow> Ok self
      | Some p \<Rightarrow>
          (if saturating_duration_since now (ps_sent_at p) \<ge> lcfg_timeout (link_config self) then
             (if ps_attempts p > lcfg_max_retries (link_config self) then
                (let self = self\<lparr> link_pending := None \<rparr>;
                     self = (if link_state self \<noteq> Failed
                             then link_push (LinkStateChanged Failed) (self\<lparr> link_state := Failed \<rparr>) else self)
                 in Ok (link_push (LinkError Reason_AckTimeout) self))
              else
                and_then (u8_incr (ps_attempts p)) (\<lambda>attempts.
                  Ok (link_push (SendFrame (ps_frame p))
                    (self\<lparr> link_pending := Some (p\<lparr> ps_attempts := attempts, ps_sent_at := now \<rparr>) \<rparr>))))
           else Ok self))"

definition link_dispatch :: "LinkInput \<Rightarrow> Instant \<Rightarrow> Link \<Rightarrow> Link" where
  "link_dispatch input now self =
     (case input of
        FrameReceived frame \<Rightarrow> link_on_frame frame now self
      | LinkInput_Tick \<Rightarrow> self
      | SendUserData asdu \<Rightarrow> on_send_user_data asdu now self
      | Do_RequestStatus \<Rightarrow> on_request_status now self
      | Do_ResetRemoteLink \<Rightarrow> on_reset_remote_link now self
      | Do_RequestUserDataClass1 \<Rightarrow> on_request_class RequestUserDataClass1 now self
      | Do_RequestUserDataClass2 \<Rightarrow> on_request_class RequestUserDataClass2 now self)"

definition link_handle :: "LinkInput \<Rightarrow> Instant \<Rightarrow> Link \<Rightarrow> (Link \<times> LinkAction list) outcome" where
  "link_handle input now self =
     and_then (link_run_timers now (link_dispatch input now self)) (\<lambda>self.
       Ok (self\<lparr> link_actions := [] \<rparr>, link_actions self))"

end
