(* ===== verification/Link_Runs.thy ===== *)
theory Link_Runs
  imports Link101
begin

text \<open>
  What the -101 link layer guarantees: its invariant, the bound on retransmissions, the suppression
  of duplicates, and the composition of a master and an outstation over a line that may lose any
  frame or acknowledgement.
\<close>

section \<open>The invariant\<close>

text \<open>Only a master has a frame in flight, and it has been sent at most \<open>max_retries + 1\<close> times.\<close>

definition link_ok :: "Link \<Rightarrow> bool" where
  "link_ok l \<longleftrightarrow> (link_role l = Outstation \<longrightarrow> link_pending l = None) \<and>
     (\<forall>p. link_pending l = Some p \<longrightarrow>
       1 \<le> unat (ps_attempts p) \<and> unat (ps_attempts p) \<le> unat (lcfg_max_retries (link_config l)) + 1)"

definition link_inv :: "Link \<Rightarrow> bool" where
  "link_inv l \<longleftrightarrow> link_ok l \<and> link_actions l = []"

lemmas link_ops = link_push_def transition_link_def emit_link_error_def send_with_confirm_def send_ack_def send_status_def
  send_respond_user_data_def send_nack_no_data_def build_fixed_def

lemma link_new_inv: "link_new role mode cfg = Ok l \<Longrightarrow> link_inv l"
  by (auto simp: link_new_def link_inv_def link_ok_def split: if_splits)

lemma link_ok_frame [simp]:
  "link_ok (link_actions_update f l) = link_ok l" "link_ok (link_state_update g l) = link_ok l"
  "link_ok (link_fcb_update h l) = link_ok l" "link_ok (last_fcb_seen_update i l) = link_ok l"
  "link_ok (send_queue_update q l) = link_ok l"
  by (simp_all add: link_ok_def)

lemma ok_cleared [simp]: "link_ok (l\<lparr> link_pending := None \<rparr>)"
  by (simp add: link_ok_def)

lemma ok_send_with_confirm: "link_role l = Master \<Longrightarrow> link_ok (send_with_confirm f now l)"
  by (simp add: link_ok_def link_ops)

lemma link_ops_fixed [simp]:
  "link_role (link_push a l) = link_role l" "link_config (link_push a l) = link_config l"
  "link_role (transition_link st l) = link_role l" "link_config (transition_link st l) = link_config l"
  "link_role (send_with_confirm f now l) = link_role l" "link_config (send_with_confirm f now l) = link_config l"
  "link_role (maybe_flush_queue now l) = link_role l" "link_config (maybe_flush_queue now l) = link_config l"
  by (simp_all add: link_ops maybe_flush_queue_def Let_def split: list.split)

lemma ok_flush: "link_ok l \<Longrightarrow> link_role l = Master \<Longrightarrow> link_ok (maybe_flush_queue now l)"
  by (auto simp: maybe_flush_queue_def Let_def ok_send_with_confirm split: list.split)

lemma ok_secondary_fixed: "link_ok l \<Longrightarrow> link_role l = Master \<Longrightarrow> link_ok (master_on_secondary_fixed cf now l)"
  by (auto simp: master_on_secondary_fixed_def Let_def transition_link_def emit_link_error_def link_push_def
    intro!: ok_flush split: ControlField.split FuncCodeSecondary.split)

lemma ok_master_on_frame: "link_ok l \<Longrightarrow> link_role l = Master \<Longrightarrow> link_ok (master_on_frame f now l)"
  by (auto simp: master_on_frame_def emit_link_error_def link_push_def ok_secondary_fixed
    intro!: ok_flush split: Frame101.split SingleChar.split option.split ControlField.split FuncCodeSecondary.split)

lemma ok_outstation_on_frame: "link_ok l \<Longrightarrow> link_ok (outstation_on_frame f l)"
  by (auto simp: outstation_on_frame_def outstation_on_primary_fixed_def outstation_on_primary_variable_def Let_def link_ops
    split: Frame101.split option.split ControlField.split FuncCodePrimary.split list.split)

lemma ok_link_dispatch: "link_ok l \<Longrightarrow> link_ok (link_dispatch i now l)"
  by (cases i; cases "link_role l")
    (simp_all add: link_dispatch_def link_on_frame_def ok_master_on_frame ok_outstation_on_frame on_send_user_data_def
      ok_flush on_request_status_def on_reset_remote_link_def on_request_class_def ok_send_with_confirm Let_def)

lemma dispatch_config:
  "link_config (link_dispatch i now l) = link_config l" "link_role (link_dispatch i now l) = link_role l"
proof -
  have m: "link_config (master_on_frame f now l) = link_config l \<and> link_role (master_on_frame f now l) = link_role l" for f
    by (auto simp: master_on_frame_def master_on_secondary_fixed_def Let_def emit_link_error_def transition_link_def
      split: Frame101.split SingleChar.split option.split ControlField.split FuncCodeSecondary.split)
  have o: "link_config (outstation_on_frame f l) = link_config l \<and> link_role (outstation_on_frame f l) = link_role l" for f
    by (auto simp: outstation_on_frame_def outstation_on_primary_fixed_def outstation_on_primary_variable_def Let_def link_ops
      split: Frame101.split option.split ControlField.split FuncCodePrimary.split list.split)
  show "link_config (link_dispatch i now l) = link_config l" "link_role (link_dispatch i now l) = link_role l"
    by (cases i; cases "link_role l"; simp add: link_dispatch_def link_on_frame_def m o on_send_user_data_def
      on_request_status_def on_reset_remote_link_def on_request_class_def Let_def)+
qed

text \<open>With fewer than 255 retries allowed the counter cannot overflow.\<close>

lemma timers_total:
  assumes "link_ok l" and "lcfg_max_retries (link_config l) \<noteq> 0xFF"
  shows "\<exists>l'. link_run_timers now l = Ok l' \<and> link_ok l' \<and> link_role l' = link_role l \<and> link_config l' = link_config l"
proof (cases "link_pending l")
  case None
  then show ?thesis using assms(1) by (simp add: link_run_timers_def)
next
  case (Some p)
  have le: "unat (ps_attempts p) \<le> unat (lcfg_max_retries (link_config l)) + 1" "1 \<le> unat (ps_attempts p)"
    "link_role l = Master"
    using assms(1) Some by (cases "link_role l", auto simp: link_ok_def)+
  show ?thesis
  proof (cases "lcfg_max_retries (link_config l) < ps_attempts p")
    case True
    with Some assms(1) show ?thesis by (auto simp: link_run_timers_def Let_def link_push_def)
  next
    case False
    then have "unat (ps_attempts p) \<le> unat (lcfg_max_retries (link_config l))" by (simp add: word_less_nat_alt)
    moreover have "unat (lcfg_max_retries (link_config l)) < 255"
      using assms(2) unat_octet [of "lcfg_max_retries (link_config l)"] by (simp add: word_unat_eq_iff)
    ultimately have "ps_attempts p \<noteq> 0xFF" "unat (ps_attempts p + 1) = unat (ps_attempts p) + 1"
      by (auto simp: unat_word_ariths word_unat_eq_iff)
    with Some False le assms(1) show ?thesis
      by (auto simp: link_run_timers_def u8_incr_def link_push_def link_ok_def word_less_nat_alt)
  qed
qed

lemma link_handle_total:
  assumes "link_inv l" and "lcfg_max_retries (link_config l) \<noteq> 0xFF"
  shows "\<exists>l' acts. link_handle i now l = Ok (l', acts) \<and> link_inv l' \<and> link_role l' = link_role l \<and> link_config l' = link_config l"
proof -
  have "link_ok (link_dispatch i now l)" using assms(1) by (simp add: link_inv_def ok_link_dispatch)
  from timers_total [OF this, of now] assms(2) show ?thesis
    by (auto simp: link_handle_def dispatch_config link_inv_def)
qed

lemma link_handle_inv:
  assumes "link_inv l" and "link_handle i now l = Ok (l', acts)"
  shows "link_inv l'" "link_role l' = link_role l" "link_config l' = link_config l"
proof -
  let ?d = "link_dispatch i now l"
  have ok: "link_ok ?d" using assms(1) by (simp add: link_inv_def ok_link_dispatch)
  from assms(2) obtain d' where d': "link_run_timers now ?d = Ok d'" "l' = d'\<lparr> link_actions := [] \<rparr>"
    by (auto simp: link_handle_def and_then_Ok_iff)
  have "link_ok d' \<and> link_role d' = link_role ?d \<and> link_config d' = link_config ?d"
  proof (cases "link_pending ?d")
    case (Some p)
    have "unat (a + 1) \<le> unat (lcfg_max_retries (link_config ?d)) + 1 \<and> 1 \<le> unat (a + 1)"
      if "\<not> lcfg_max_retries (link_config ?d) < a" "a \<noteq> 0xFF" for a :: u8
    proof -
      have "unat a < 255" using that(2) unat_octet [of a] by (simp add: word_unat_eq_iff)
      then have "unat (a + 1) = unat a + 1" by (simp add: unat_word_ariths)
      with that(1) show ?thesis by (simp add: word_less_nat_alt)
    qed
    with d'(1) Some ok show ?thesis
      by (auto simp: link_run_timers_def u8_incr_def link_push_def link_ok_def Let_def split: if_splits)
  qed (use d' ok in \<open>simp add: link_run_timers_def\<close>)
  then show "link_inv l'" "link_role l' = link_role l" "link_config l' = link_config l"
    using d'(2) by (simp_all add: link_inv_def dispatch_config)
qed

lemma link_handle_fixed:
  assumes "link_handle i now l = Ok (l', acts)"
  shows "link_role l' = link_role l \<and> link_config l' = link_config l"
  using assms
  by (auto simp: link_handle_def and_then_Ok_iff link_run_timers_def u8_incr_def link_push_def Let_def dispatch_config
    split: option.splits if_splits)

section \<open>A failed master never recovers\<close>

lemma failed_stays:
  assumes "link_role l = Master" and "link_state l = Failed" and "link_handle i now l = Ok (l', acts)"
  shows "link_state l' = Failed"
proof -
  have flush: "link_state (maybe_flush_queue now l) = link_state l" for l
    by (simp add: maybe_flush_queue_def Let_def link_ops split: list.split)
  have "link_state (link_dispatch i now l) = Failed"
  proof (cases i)
    case (FrameReceived f)
    with assms(1,2) show ?thesis
      by (auto simp: link_dispatch_def link_on_frame_def master_on_frame_def master_on_secondary_fixed_def Let_def flush
        emit_link_error_def link_push_def split: Frame101.split SingleChar.split option.split ControlField.split FuncCodeSecondary.split)
  qed (use assms(1,2) in \<open>simp_all add: link_dispatch_def on_send_user_data_def flush on_request_status_def
        on_reset_remote_link_def on_request_class_def send_with_confirm_def link_push_def Let_def\<close>)
  with assms(3) show ?thesis
    by (auto simp: link_handle_def and_then_Ok_iff link_run_timers_def u8_incr_def link_push_def Let_def
      split: option.splits if_splits)
qed

section \<open>Frames and control fields\<close>

lemma control_primary [simp]: "ControlField_decode (ControlField_encode (Primary b v f)) Dir_Primary = Some (Primary b v f)"
  using control_roundtrip [of "Primary b v f"] by (simp add: control_direction_def)

lemma control_secondary [simp]: "ControlField_decode (ControlField_encode (Secondary a d f)) Dir_Secondary = Some (Secondary a d f)"
  using control_roundtrip [of "Secondary a d f"] by (simp add: control_direction_def)

definition data_frame :: "LinkAddress \<Rightarrow> bool \<Rightarrow> octets \<Rightarrow> Frame101" where
  "data_frame a b x = Variable (ControlField_encode (Primary b True UserDataConfirmed)) a x"

definition ack_frame :: "LinkAddress \<Rightarrow> Frame101" where
  "ack_frame a = Fixed (ControlField_encode (Secondary False False Sec_Ack)) a"

definition link_sent :: "LinkAction list \<Rightarrow> Frame101 list" where
  "link_sent acts = concat (map (\<lambda>a. case a of SendFrame f \<Rightarrow> [f] | _ \<Rightarrow> []) acts)"

definition link_delivered :: "LinkAction list \<Rightarrow> octets list" where
  "link_delivered acts = concat (map (\<lambda>a. case a of Link_DeliverAsdu x \<Rightarrow> [x] | _ \<Rightarrow> []) acts)"

text \<open>An outstation acknowledges every confirmed frame and delivers it unless its FCB repeats.\<close>

lemma outstation_data:
  assumes "link_role l = Outstation" and "link_inv l" and "lcfg_link_address (link_config l) = a"
  shows "link_handle (FrameReceived (data_frame a b x)) now l =
    Ok (l\<lparr> last_fcb_seen := Some b \<rparr>, SendFrame (ack_frame a) # (if last_fcb_seen l = Some b then [] else [Link_DeliverAsdu x]))"
proof -
  have "link_pending l = None" "link_actions l = []" using assms(1,2) by (auto simp: link_inv_def link_ok_def)
  with assms show ?thesis
    by (cases l) (simp add: link_handle_def link_dispatch_def link_on_frame_def outstation_on_frame_def data_frame_def
      outstation_on_primary_variable_def ack_frame_def send_ack_def link_push_def link_run_timers_def)
qed

text \<open>The next queued ASDU goes out with the current FCB, which is then toggled.\<close>

definition sent_next :: "octets \<Rightarrow> Instant \<Rightarrow> Link \<Rightarrow> Link" where
  "sent_next x now l = l\<lparr> link_fcb := \<not> link_fcb l, link_pending := Some \<lparr> ps_frame = data_frame (lcfg_link_address (link_config l)) (link_fcb l) x,
     ps_sent_at = now, ps_attempts = 1 \<rparr> \<rparr>"

lemma master_ack:
  assumes "link_role l = Master" and "link_pending l = Some p" and "link_actions l = []" and "0 < lcfg_timeout (link_config l)"
  shows "\<exists>acts. link_handle (FrameReceived (ack_frame a)) now l =
      Ok (case send_queue l of
            [] \<Rightarrow> l\<lparr> link_pending := None, link_state := if link_state l = NotReady then Ready else link_state l \<rparr>
          | x # q \<Rightarrow> sent_next x now (l\<lparr> send_queue := q, link_state := if link_state l = NotReady then Ready else link_state l \<rparr>), acts) \<and>
    link_sent acts = (case send_queue l of [] \<Rightarrow> [] | x # q \<Rightarrow> [data_frame (lcfg_link_address (link_config l)) (link_fcb l) x])"
  using assms
  by (cases l) (auto simp: link_handle_def link_dispatch_def link_on_frame_def master_on_frame_def ack_frame_def data_frame_def
    master_on_secondary_fixed_def transition_link_def maybe_flush_queue_def send_with_confirm_def link_push_def Let_def
    link_run_timers_def sent_next_def link_sent_def saturating_duration_since_def split: list.split)

lemma timers_cases:
  assumes "link_run_timers now l = Ok l'" and "link_pending l = Some p" and "link_state l' \<noteq> Failed"
  shows "l' = l \<or> (\<exists>k. l' = link_push (SendFrame (ps_frame p)) (l\<lparr> link_pending := Some (p\<lparr> ps_attempts := k, ps_sent_at := now \<rparr>) \<rparr>))"
  using assms
  by (auto simp: link_run_timers_def and_then_Ok_iff u8_incr_def Let_def link_push_def split: if_splits)

text \<open>Submitting to a busy master queues; the timer may repeat the frame in flight in the same call.\<close>

lemma master_busy:
  assumes "link_role m = Master" and "link_actions m = []" and "link_pending m = Some p"
    and "link_handle i now m = Ok (m', acts)" and "i = LinkInput_Tick \<and> q = [] \<or> (\<exists>x. i = SendUserData x \<and> q = [x])"
    and "link_state m' \<noteq> Failed"
  shows "\<exists>p'. ps_frame p' = ps_frame p \<and> m' = m\<lparr> link_pending := Some p', send_queue := send_queue m @ q \<rparr> \<and>
    (link_sent acts = [] \<or> link_sent acts = [ps_frame p])"
proof -
  let ?d = "m\<lparr> send_queue := send_queue m @ q \<rparr>"
  have d: "link_dispatch i now m = ?d"
    using assms(1,3,5) by (auto simp: link_dispatch_def on_send_user_data_def maybe_flush_queue_def)
  from assms(4) obtain d' where d': "link_run_timers now ?d = Ok d'" "m' = d'\<lparr> link_actions := [] \<rparr>" "acts = link_actions d'"
    by (auto simp: link_handle_def d and_then_Ok_iff)
  have "d' = ?d \<or> (\<exists>k. d' = link_push (SendFrame (ps_frame p)) (?d\<lparr> link_pending := Some (p\<lparr> ps_attempts := k, ps_sent_at := now \<rparr>) \<rparr>))"
    using assms(3,6) d'(2) by (intro timers_cases [OF d'(1)]) simp_all
  then show ?thesis
  proof
    assume "d' = ?d"
    then show ?thesis using assms(2,3) d'(2,3) by (intro exI [of _ p]) (cases m, simp add: link_sent_def)
  next
    assume "\<exists>k. d' = link_push (SendFrame (ps_frame p)) (?d\<lparr> link_pending := Some (p\<lparr> ps_attempts := k, ps_sent_at := now \<rparr>) \<rparr>)"
    then obtain k where "d' = link_push (SendFrame (ps_frame p)) (?d\<lparr> link_pending := Some (p\<lparr> ps_attempts := k, ps_sent_at := now \<rparr>) \<rparr>)" ..
    then show ?thesis using assms(2,3) d'(2,3)
      by (intro exI [of _ "p\<lparr> ps_attempts := k, ps_sent_at := now \<rparr>"]) (cases m, simp add: link_sent_def link_push_def)
  qed
qed

lemma master_idle_submit:
  assumes "link_role m = Master" and "link_actions m = []" and "link_pending m = None" and "send_queue m = []"
    and "0 < lcfg_timeout (link_config m)"
  shows "link_handle (SendUserData x) now m =
    Ok (sent_next x now m, [SendFrame (data_frame (lcfg_link_address (link_config m)) (link_fcb m) x)])"
  using assms
  by (cases m) (simp add: link_handle_def link_dispatch_def on_send_user_data_def maybe_flush_queue_def send_with_confirm_def
    data_frame_def link_push_def Let_def link_run_timers_def sent_next_def saturating_duration_since_def)

lemma master_idle_tick:
  "link_pending m = None \<Longrightarrow> link_handle LinkInput_Tick now m = Ok (m\<lparr> link_actions := [] \<rparr>, link_actions m)"
  by (simp add: link_handle_def link_dispatch_def link_run_timers_def)

section \<open>A master and an outstation over a lossy line\<close>

text \<open>
  The line carries one frame at a time: a retransmission replaces a copy that is still on it, any
  frame may be lost, and the acknowledgement the outstation returns either reaches the master before
  anything else happens or is lost.  \<open>line_log\<close> collects what the outstation delivers to its user and
  \<open>line_offered\<close> what the master's user has submitted.
\<close>

record Line =
  line_master :: Link
  line_outstation :: Link
  line_wire :: "Frame101 option"
  line_log :: "octets list"
  line_offered :: "octets list"

definition on_wire :: "Frame101 list \<Rightarrow> Frame101 option \<Rightarrow> Frame101 option" where
  "on_wire fs w = (if fs = [] then w else Some (last fs))"

inductive line_step :: "Line \<Rightarrow> Line \<Rightarrow> bool" where
  line_submit: "link_handle (SendUserData x) now (line_master s) = Ok (m', acts) \<Longrightarrow>
    line_step s (s\<lparr> line_master := m', line_wire := on_wire (link_sent acts) (line_wire s), line_offered := line_offered s @ [x] \<rparr>)"
| line_tick: "link_handle LinkInput_Tick now (line_master s) = Ok (m', acts) \<Longrightarrow>
    line_step s (s\<lparr> line_master := m', line_wire := on_wire (link_sent acts) (line_wire s) \<rparr>)"
| line_lose: "line_step s (s\<lparr> line_wire := None \<rparr>)"
| line_deliver: "line_wire s = Some f \<Longrightarrow> link_handle (FrameReceived f) now (line_outstation s) = Ok (o', acts) \<Longrightarrow>
    line_step s (s\<lparr> line_outstation := o', line_wire := None, line_log := line_log s @ link_delivered acts \<rparr>)"
| line_deliver_ack: "line_wire s = Some f \<Longrightarrow> link_handle (FrameReceived f) now (line_outstation s) = Ok (o', acts) \<Longrightarrow>
    link_sent acts = [r] \<Longrightarrow> link_handle (FrameReceived r) now' (line_master s) = Ok (m', acts') \<Longrightarrow>
    line_step s (s\<lparr> line_master := m', line_outstation := o', line_wire := on_wire (link_sent acts') None,
      line_log := line_log s @ link_delivered acts \<rparr>)"

definition line_start :: "Link \<Rightarrow> Link \<Rightarrow> Line" where
  "line_start m ot = \<lparr> line_master = m, line_outstation = ot, line_wire = None, line_log = [], line_offered = [] \<rparr>"

definition line_sync :: "Line \<Rightarrow> bool" where
  "line_sync s = (let m = line_master s; seen = last_fcb_seen (line_outstation s) in
     case link_pending m of
       None \<Rightarrow> send_queue m = [] \<and> line_wire s = None \<and> seen \<noteq> Some (link_fcb m) \<and> line_log s = line_offered s
     | Some p \<Rightarrow> (\<exists>x. ps_frame p = data_frame (lcfg_link_address (link_config m)) (\<not> link_fcb m) x \<and>
         line_wire s \<in> {None, Some (ps_frame p)} \<and>
         (if seen = Some (\<not> link_fcb m) then line_log s @ send_queue m = line_offered s
          else line_log s @ x # send_queue m = line_offered s)))"

definition line_ok :: "Line \<Rightarrow> bool" where
  "line_ok s \<longleftrightarrow> (let m = line_master s; ot = line_outstation s in
     link_inv m \<and> link_role m = Master \<and> link_inv ot \<and> link_role ot = Outstation \<and>
     lcfg_link_address (link_config ot) = lcfg_link_address (link_config m) \<and> 0 < lcfg_timeout (link_config m))"

definition line_inv :: "Line \<Rightarrow> bool" where
  "line_inv s \<longleftrightarrow> line_ok s \<and> (link_state (line_master s) \<noteq> Failed \<longrightarrow> line_sync s)"

lemma line_ok_step: "line_step s s' \<Longrightarrow> line_ok s \<Longrightarrow> line_ok s'"
  by (induction rule: line_step.induct) (auto simp: line_ok_def Let_def link_handle_inv)

lemma sync_submit:
  assumes "line_ok s" and "line_sync s" and h: "link_handle (SendUserData x) now (line_master s) = Ok (m', acts)"
    and "link_state m' \<noteq> Failed"
  shows "line_sync (s\<lparr> line_master := m', line_wire := on_wire (link_sent acts) (line_wire s), line_offered := line_offered s @ [x] \<rparr>)"
proof (cases "link_pending (line_master s)")
  case None
  with assms(1,2) have "link_role (line_master s) = Master" "link_actions (line_master s) = []" "send_queue (line_master s) = []"
    "0 < lcfg_timeout (link_config (line_master s))"
    by (auto simp: line_ok_def line_sync_def Let_def link_inv_def)
  with master_idle_submit [of "line_master s" x now] None h assms(1,2) show ?thesis
    by (auto simp: line_sync_def Let_def sent_next_def link_sent_def on_wire_def)
next
  case (Some p)
  with assms(1) master_busy [OF _ _ Some h, of "[x]"] assms(4) obtain p' where "ps_frame p' = ps_frame p"
    "m' = line_master s\<lparr> link_pending := Some p', send_queue := send_queue (line_master s) @ [x] \<rparr>"
    "link_sent acts = [] \<or> link_sent acts = [ps_frame p]"
    by (auto simp: line_ok_def Let_def link_inv_def)
  with Some assms(2) show ?thesis by (auto simp: line_sync_def Let_def on_wire_def split: if_splits)
qed

lemma sync_tick:
  assumes "line_ok s" and "line_sync s" and h: "link_handle LinkInput_Tick now (line_master s) = Ok (m', acts)"
    and "link_state m' \<noteq> Failed"
  shows "line_sync (s\<lparr> line_master := m', line_wire := on_wire (link_sent acts) (line_wire s) \<rparr>)"
proof (cases "link_pending (line_master s)")
  case None
  with h assms(1,2) show ?thesis
    by (auto simp: master_idle_tick line_ok_def link_inv_def line_sync_def Let_def link_sent_def on_wire_def)
next
  case (Some p)
  with assms(1) master_busy [OF _ _ Some h, of "[]"] assms(4) obtain p' where "ps_frame p' = ps_frame p"
    "m' = line_master s\<lparr> link_pending := Some p', send_queue := send_queue (line_master s) @ [] \<rparr>"
    "link_sent acts = [] \<or> link_sent acts = [ps_frame p]"
    by (auto simp: line_ok_def Let_def link_inv_def)
  with Some assms(2) show ?thesis by (auto simp: line_sync_def Let_def on_wire_def split: if_splits)
qed

lemma link_sent_Cons [simp]:
  "link_sent [] = []" "link_sent (SendFrame f # acts) = f # link_sent acts" "link_sent (Link_DeliverAsdu x # acts) = link_sent acts"
  "link_delivered [] = []" "link_delivered (SendFrame f # acts) = link_delivered acts"
  "link_delivered (Link_DeliverAsdu x # acts) = x # link_delivered acts"
  by (simp_all add: link_delivered_def link_sent_def)

text \<open>What is on the line is the frame in flight.\<close>

lemma sync_wire:
  assumes "line_ok s" and "line_sync s" and "line_wire s = Some f"
  obtains p x where "link_pending (line_master s) = Some p"
    and "f = data_frame (lcfg_link_address (link_config (line_master s))) (\<not> link_fcb (line_master s)) x"
    and "ps_frame p = f"
    and "if last_fcb_seen (line_outstation s) = Some (\<not> link_fcb (line_master s)) then line_log s @ send_queue (line_master s) = line_offered s
         else line_log s @ x # send_queue (line_master s) = line_offered s"
  using assms by (cases "link_pending (line_master s)") (auto simp: line_sync_def Let_def)

lemma sync_deliver:
  assumes "line_ok s" and "line_sync s" and "line_wire s = Some f"
    and h: "link_handle (FrameReceived f) now (line_outstation s) = Ok (o', acts)"
  shows "line_sync (s\<lparr> line_outstation := o', line_wire := None, line_log := line_log s @ link_delivered acts \<rparr>)"
proof -
  let ?a = "lcfg_link_address (link_config (line_master s))" and ?b = "\<not> link_fcb (line_master s)"
  obtain p x where px: "link_pending (line_master s) = Some p" "f = data_frame ?a ?b x" "ps_frame p = f"
    "if last_fcb_seen (line_outstation s) = Some ?b then line_log s @ send_queue (line_master s) = line_offered s
     else line_log s @ x # send_queue (line_master s) = line_offered s"
    using sync_wire [OF assms(1-3)] by blast
  have "link_role (line_outstation s) = Outstation" "link_inv (line_outstation s)"
    "lcfg_link_address (link_config (line_outstation s)) = ?a"
    using assms(1) by (simp_all add: line_ok_def Let_def)
  from outstation_data [OF this, of ?b x now] h px(2)
  have "o' = line_outstation s\<lparr> last_fcb_seen := Some ?b \<rparr>"
    "link_delivered acts = (if last_fcb_seen (line_outstation s) = Some ?b then [] else [x])"
    by auto
  with px show ?thesis by (auto simp: line_sync_def Let_def split: if_splits)
qed

lemma sync_deliver_ack:
  assumes "line_ok s" and "line_sync s" and "line_wire s = Some f"
    and h: "link_handle (FrameReceived f) now (line_outstation s) = Ok (o', acts)" and r: "link_sent acts = [r]"
    and hm: "link_handle (FrameReceived r) now' (line_master s) = Ok (m', acts')"
  shows "line_sync (s\<lparr> line_master := m', line_outstation := o', line_wire := on_wire (link_sent acts') None,
      line_log := line_log s @ link_delivered acts \<rparr>)"
proof -
  let ?m = "line_master s"
  let ?a = "lcfg_link_address (link_config ?m)" and ?b = "\<not> link_fcb ?m"
  obtain p x where px: "link_pending ?m = Some p" "f = data_frame ?a ?b x" "ps_frame p = f"
    "if last_fcb_seen (line_outstation s) = Some ?b then line_log s @ send_queue ?m = line_offered s
     else line_log s @ x # send_queue ?m = line_offered s"
    using sync_wire [OF assms(1-3)] by blast
  have ok: "link_role (line_outstation s) = Outstation" "link_inv (line_outstation s)"
    "lcfg_link_address (link_config (line_outstation s)) = ?a" "link_role ?m = Master" "link_actions ?m = []"
    "0 < lcfg_timeout (link_config ?m)"
    using assms(1) by (simp_all add: line_ok_def Let_def link_inv_def)
  from outstation_data [OF ok(1-3), of ?b x now] h px(2) r
  have o': "o' = line_outstation s\<lparr> last_fcb_seen := Some ?b \<rparr>" "r = ack_frame ?a"
    "line_log s @ link_delivered acts @ send_queue ?m = line_offered s"
    using px(4) by (auto split: if_splits)
  from master_ack [OF ok(4) px(1) ok(5,6), of ?a now'] hm o'(2)
  have "m' = (case send_queue ?m of
            [] \<Rightarrow> ?m\<lparr> link_pending := None, link_state := if link_state ?m = NotReady then Ready else link_state ?m \<rparr>
          | x # q \<Rightarrow> sent_next x now' (?m\<lparr> send_queue := q, link_state := if link_state ?m = NotReady then Ready else link_state ?m \<rparr>))"
    "link_sent acts' = (case send_queue ?m of [] \<Rightarrow> [] | x # q \<Rightarrow> [data_frame ?a (link_fcb ?m) x])"
    by auto
  with o' show ?thesis
    by (cases "send_queue ?m") (auto simp: line_sync_def Let_def on_wire_def sent_next_def)
qed

lemma line_inv_step:
  assumes "line_step s s'" and "line_inv s"
  shows "line_inv s'"
proof -
  have "line_ok s'" using assms line_ok_step by (auto simp: line_inv_def)
  moreover have "line_sync s'" if "link_state (line_master s') \<noteq> Failed"
    using assms(1)
  proof cases
    case (line_submit x now m' acts)
    with assms(2) that failed_stays [OF _ _ line_submit(2)] show ?thesis
      by (auto simp: line_inv_def line_ok_def Let_def intro!: sync_submit [unfolded line_ok_def Let_def])
  next
    case (line_tick now m' acts)
    with assms(2) that failed_stays [OF _ _ line_tick(2)] show ?thesis
      by (auto simp: line_inv_def line_ok_def Let_def intro!: sync_tick [unfolded line_ok_def Let_def])
  next
    case line_lose
    with assms(2) that show ?thesis
      by (auto simp: line_inv_def line_sync_def Let_def split: option.splits)
  next
    case (line_deliver f now o' acts)
    with assms(2) that show ?thesis by (auto simp: line_inv_def intro: sync_deliver)
  next
    case (line_deliver_ack f now o' acts r now' m' acts')
    with assms(2) that failed_stays [OF _ _ line_deliver_ack(5)] show ?thesis
      by (auto simp: line_inv_def line_ok_def Let_def intro!: sync_deliver_ack [unfolded line_ok_def Let_def])
  qed
  ultimately show ?thesis by (simp add: line_inv_def)
qed

lemma line_inv_steps: "line_step\<^sup>*\<^sup>* s s' \<Longrightarrow> line_inv s \<Longrightarrow> line_inv s'"
  by (induction rule: rtranclp_induct) (auto intro: line_inv_step)

lemma line_start_inv:
  assumes "link_new Master Unbalanced mcfg = Ok m" and "link_new Outstation Unbalanced ocfg = Ok ot"
    and "lcfg_link_address ocfg = lcfg_link_address mcfg" and "0 < lcfg_timeout mcfg"
  shows "line_inv (line_start m ot)"
  using assms link_new_inv [OF assms(1)] link_new_inv [OF assms(2)]
  by (auto simp: line_inv_def line_ok_def line_sync_def line_start_def link_new_def Let_def)

section \<open>Retransmission ends\<close>

primrec link_run :: "(LinkInput \<times> Instant) list \<Rightarrow> Link \<Rightarrow> (Link \<times> LinkAction list) outcome" where
  "link_run [] l = Ok (l, [])"
| "link_run (e # es) l =
     and_then (link_handle (fst e) (snd e) l) (\<lambda>(l, acts).
     and_then (link_run es l) (\<lambda>(l, acts'). Ok (l, acts @ acts')))"

primrec spaced :: "Duration \<Rightarrow> Instant \<Rightarrow> Instant list \<Rightarrow> bool" where
  "spaced d t [] \<longleftrightarrow> True"
| "spaced d t (t' # ts) \<longleftrightarrow> t + d \<le> t' \<and> spaced d t' ts"

lemma tick_retries:
  assumes "link_pending l = Some p" and "link_actions l = []" and "ps_sent_at p + lcfg_timeout (link_config l) \<le> now"
    and "ps_attempts p \<le> lcfg_max_retries (link_config l)" and "lcfg_max_retries (link_config l) \<noteq> 0xFF"
  shows "link_handle LinkInput_Tick now l = Ok (l\<lparr> link_pending := Some (p\<lparr> ps_attempts := ps_attempts p + 1, ps_sent_at := now \<rparr>) \<rparr>, [SendFrame (ps_frame p)])"
    and "unat (ps_attempts p + 1) = unat (ps_attempts p) + 1"
proof -
  have le: "unat (ps_attempts p) \<le> unat (lcfg_max_retries (link_config l))" using assms(4) by (simp add: word_le_nat_alt)
  moreover have "unat (lcfg_max_retries (link_config l)) < 255"
    using assms(5) unat_octet [of "lcfg_max_retries (link_config l)"] by (simp add: word_unat_eq_iff)
  ultimately show "unat (ps_attempts p + 1) = unat (ps_attempts p) + 1" and
    "link_handle LinkInput_Tick now l = Ok (l\<lparr> link_pending := Some (p\<lparr> ps_attempts := ps_attempts p + 1, ps_sent_at := now \<rparr>) \<rparr>, [SendFrame (ps_frame p)])"
    using assms
    by (cases l; auto simp: unat_word_ariths word_unat_eq_iff link_handle_def link_dispatch_def link_run_timers_def
      u8_incr_def link_push_def saturating_duration_since_def)+
qed

lemma tick_gives_up:
  assumes "link_pending l = Some p" and "link_actions l = []" and "ps_sent_at p + lcfg_timeout (link_config l) \<le> now"
    and "lcfg_max_retries (link_config l) < ps_attempts p"
  shows "link_handle LinkInput_Tick now l = Ok (l\<lparr> link_pending := None, link_state := Failed \<rparr>,
    (if link_state l \<noteq> Failed then [LinkStateChanged Failed] else []) @ [LinkError Reason_AckTimeout])"
  using assms
  by (cases l) (auto simp: link_handle_def link_dispatch_def link_run_timers_def link_push_def Let_def saturating_duration_since_def)

lemma unanswered_run:
  assumes "link_pending l = Some p" and "link_actions l = []" and "link_state l \<noteq> Failed"
    and "lcfg_max_retries (link_config l) \<noteq> 0xFF"
    and "unat (ps_attempts p) + length ts = unat (lcfg_max_retries (link_config l)) + 2"
    and "unat (ps_attempts p) \<le> unat (lcfg_max_retries (link_config l)) + 1"
    and "spaced (lcfg_timeout (link_config l)) (ps_sent_at p) ts"
  shows "link_run (map (Pair LinkInput_Tick) ts) l =
    Ok (l\<lparr> link_pending := None, link_state := Failed \<rparr>,
        map SendFrame (replicate (length ts - 1) (ps_frame p)) @ [LinkStateChanged Failed, LinkError Reason_AckTimeout])"
  using assms
proof (induction ts arbitrary: l p)
  case (Cons t ts)
  show ?case
  proof (cases "lcfg_max_retries (link_config l) < ps_attempts p")
    case True
    then have "unat (lcfg_max_retries (link_config l)) < unat (ps_attempts p)" by (simp add: word_less_nat_alt)
    with Cons.prems(5) have "length (t # ts) \<le> 1" by linarith
    then have "ts = []" by simp
    with True Cons.prems show ?thesis by (simp add: tick_gives_up)
  next
    case False
    let ?p = "p\<lparr> ps_attempts := ps_attempts p + 1, ps_sent_at := t \<rparr>"
    have le: "ps_attempts p \<le> lcfg_max_retries (link_config l)" using False by simp
    have t: "ps_sent_at p + lcfg_timeout (link_config l) \<le> t" using Cons.prems(7) by simp
    note retry = tick_retries [OF Cons.prems(1,2) t le Cons.prems(4)]
    have "unat (ps_attempts p) \<le> unat (lcfg_max_retries (link_config l))" using le by (simp add: word_le_nat_alt)
    then have "link_run (map (Pair LinkInput_Tick) ts) (l\<lparr> link_pending := Some ?p \<rparr>) =
      Ok (l\<lparr> link_pending := None, link_state := Failed \<rparr>,
        map SendFrame (replicate (length ts - 1) (ps_frame p)) @ [LinkStateChanged Failed, LinkError Reason_AckTimeout])"
      using Cons.IH [of "l\<lparr> link_pending := Some ?p \<rparr>" ?p] Cons.prems retry(2) by simp
    moreover obtain n where "length ts = Suc n"
      using Cons.prems(5) le by (cases "length ts") (auto simp: word_le_nat_alt)
    ultimately show ?thesis using retry(1) by simp
  qed
qed simp

section \<open>After a failure\<close>

text \<open>
  The frame count bit has already been toggled for the abandoned frame, and \<open>Failed\<close> does not stop the
  master from sending.  If the abandoned frame never arrived, the next one repeats the bit the
  outstation saw last: it is acknowledged and dropped.
\<close>

definition swallow_config :: LinkConfig where
  "swallow_config = \<lparr> lcfg_link_address = LinkAddress 1, lcfg_addr_size = LA_One, lcfg_timeout = 10, lcfg_max_retries = 0 \<rparr>"

definition swallow_master :: "(Link \<times> LinkAction list) outcome" where
  "swallow_master = and_then (link_new Master Unbalanced swallow_config)
     (link_run [(SendUserData [1], 0), (FrameReceived (ack_frame (LinkAddress 1)), 1), (SendUserData [2], 2),
       (LinkInput_Tick, 20), (SendUserData [3], 21), (FrameReceived (ack_frame (LinkAddress 1)), 22)])"

definition swallow_outstation :: "(Link \<times> LinkAction list) outcome" where
  "swallow_outstation = and_then (link_new Outstation Unbalanced swallow_config)
     (link_run [(FrameReceived (data_frame (LinkAddress 1) False [1]), 1),
       (FrameReceived (data_frame (LinkAddress 1) False [3]), 22)])"

lemma swallow_runs:
  "case swallow_master of Ok (m, acts) \<Rightarrow> link_pending m = None \<and>
     link_sent acts = [data_frame (LinkAddress 1) False [1], data_frame (LinkAddress 1) True [2], data_frame (LinkAddress 1) False [3]]
   | _ \<Rightarrow> False"
  "case swallow_outstation of Ok (ot, acts) \<Rightarrow> link_delivered acts = [[1]] \<and>
     link_sent acts = [ack_frame (LinkAddress 1), ack_frame (LinkAddress 1)]
   | _ \<Rightarrow> False"
  by code_simp+

end
