(* ===== verification/Link_Properties.thy ===== *)
theory Link_Properties
  imports Link_Runs "HOL-Library.Sublist"
begin

text \<open>
  The guarantees of the -101 stack: FT 1.2 framing and the unbalanced link layer.
\<close>

section \<open>FT 1.2 frames\<close>

text \<open>
  C16. The FT 1.2 decoder and encoder are inverse: a frame that fits (address within the configured
  width, body of at most 255 octets) is encoded to an octet string from which the decoder recovers it,
  leaving what follows; any proper prefix is reported as incomplete; and conversely every octet string
  the decoder accepts is the encoding of the frame it returns.
\<close>
theorem ft12_bijection:
  assumes "bytes_crate bo"
  shows "(frame_fits sz frame \<longrightarrow>
      (\<exists>w. Codec101_encode bo frame buf sz = Ok (length w, buf @ w) \<and>
        Codec101_decode_slice (w @ rest) sz = Ok (Some (frame, length w)) \<and>
        (\<forall>n < length w. Codec101_decode_slice (take n w) sz = Ok None))) \<and>
    (Codec101_decode_slice octets sz = Ok (Some (frame, n)) \<longrightarrow>
      n \<le> length octets \<and> Codec101_encode bo frame [] sz = Ok (n, take n octets))"
proof (intro conjI impI)
  assume fits: "frame_fits sz frame"
  show "\<exists>w. Codec101_encode bo frame buf sz = Ok (length w, buf @ w) \<and>
        Codec101_decode_slice (w @ rest) sz = Ok (Some (frame, length w)) \<and>
        (\<forall>n < length w. Codec101_decode_slice (take n w) sz = Ok None)"
    using bytes_crate.encode_wire [OF assms fits] decode_ft12_wire [OF fits] decode_ft12_prefix [OF fits]
    by (intro exI [of _ "ft12_wire sz frame"]) simp
next
  assume "Codec101_decode_slice octets sz = Ok (Some (frame, n))"
  from decode_ft12_exact [OF this] have fits: "frame_fits sz frame" "n \<le> length octets" "take n octets = ft12_wire sz frame" by auto
  then have "length (ft12_wire sz frame) = n" by (metis length_take min.absorb2)
  with bytes_crate.encode_wire [OF assms fits(1), of "[]"] fits
  show "n \<le> length octets" "Codec101_encode bo frame [] sz = Ok (n, take n octets)" by simp_all
qed

theorem ft12_bijection_witness:
  "(\<exists>w. Codec101_encode slice_api (Variable 0x53 (LinkAddress 5) [1, 2, 3]) [] LA_One = Ok (length w, w) \<and>
      Codec101_decode_slice (w @ [7]) LA_One = Ok (Some (Variable 0x53 (LinkAddress 5) [1, 2, 3], length w))) \<and>
   Codec101_encode slice_api (Fixed 0x49 (LinkAddress 1)) [] LA_One = Ok (5, [0x10, 0x49, 1, 0x4A, 0x16])"
proof -
  have wire: "ft12_wire LA_One (Fixed 0x49 (LinkAddress 1)) = [0x10, 0x49, 1, 0x4A, 0x16]" by code_simp
  have "frame_fits LA_One (Variable 0x53 (LinkAddress 5) [1, 2, 3])" by code_simp
  moreover have "Codec101_decode_slice [0x10, 0x49, 1, 0x4A, 0x16, 9] LA_One = Ok (Some (Fixed 0x49 (LinkAddress 1), 5))"
    using decode_ft12_wire [of LA_One "Fixed 0x49 (LinkAddress 1)" "[9]"] unfolding wire by simp
  ultimately show ?thesis
    using ft12_bijection [OF slice_api_laws, of LA_One "Variable 0x53 (LinkAddress 5) [1, 2, 3]" "[]" "[7]" "[]" 0]
    ft12_bijection [OF slice_api_laws, of LA_One "Fixed 0x49 (LinkAddress 1)" "[]" "[]" "[0x10, 0x49, 1, 0x4A, 0x16, 9]" 5]
    by auto
qed

text \<open>
  C17. A single corrupted octet anywhere in the control field, the link address or the ASDU of a variable
  frame is detected: the decoder reports a checksum mismatch instead of a frame.
\<close>
theorem ft12_detects_corruption:
  assumes "frame_fits sz (Variable c a asdu)" and "i < 1 + LinkAddressSize_len sz + length asdu"
    and "b \<noteq> ft12_wire sz (Variable c a asdu) ! (4 + i)"
  shows "\<exists>k cs. Codec101_decode_slice ((ft12_wire sz (Variable c a asdu))[4 + i := b] @ rest) sz = Err (ChecksumMismatch k cs)"
  by (rule corrupted_octet [OF assms])

theorem ft12_detects_corruption_witness:
  "\<exists>k cs. Codec101_decode_slice ((ft12_wire LA_Two (Variable 0x53 (LinkAddress 5) [1, 2, 3]))[4 + 4 := 9] @ []) LA_Two = Err (ChecksumMismatch k cs)"
proof -
  have "frame_fits LA_Two (Variable 0x53 (LinkAddress 5) [1, 2, 3])" "4 < 1 + LinkAddressSize_len LA_Two + length [1, 2, 3 :: u8]"
    "9 \<noteq> ft12_wire LA_Two (Variable 0x53 (LinkAddress 5) [1, 2, 3]) ! (4 + 4)"
    by code_simp+
  then show ?thesis by (rule ft12_detects_corruption)
qed

text \<open>
  The FT 1.2 decoder never panics, for any octets and either address width, although it indexes,
  slices and unwraps throughout.
\<close>
theorem ft12_decode_total: "Codec101_decode_slice octets sz \<noteq> Panic"
  by (rule decode_ft12_not_panic)

text \<open>
  Control fields round-trip in both directions, and the PRM bit of the encoded octet tells the
  direction in which it has to be decoded.
\<close>
theorem control_field_roundtrip:
  "ControlField_decode (ControlField_encode c) (if ControlField_encode c AND PRM_BIT \<noteq> 0 then Dir_Primary else Dir_Secondary) = Some c"
  using control_roundtrip [of c] control_prm [of c] by (cases "control_direction c") auto

section \<open>The link layer\<close>


definition demo_link :: LinkConfig where
  "demo_link = \<lparr> lcfg_link_address = LinkAddress 1, lcfg_addr_size = LA_One, lcfg_timeout = 10, lcfg_max_retries = 3 \<rparr>"


text \<open>
  C33. Retransmission terminates: a master whose frame is never answered sends it max_retries more times,
  once per timeout, then drops it, goes to Failed and reports the timeout; it sends nothing else.
\<close>
theorem retransmission_ends:
  assumes "link_pending l = Some p" and "ps_attempts p = 1" and "link_actions l = []" and "link_state l \<noteq> Failed"
    and "lcfg_max_retries (link_config l) \<noteq> 0xFF" and "length ts = unat (lcfg_max_retries (link_config l)) + 1"
    and "spaced (lcfg_timeout (link_config l)) (ps_sent_at p) ts"
  shows "link_run (map (Pair LinkInput_Tick) ts) l =
    Ok (l\<lparr> link_pending := None, link_state := Failed \<rparr>,
        map SendFrame (replicate (unat (lcfg_max_retries (link_config l))) (ps_frame p)) @
        [LinkStateChanged Failed, LinkError Reason_AckTimeout])"
  using unanswered_run [OF assms(1,3,4,5) _ _ assms(7)] assms(2,6) by simp

theorem retransmission_ends_witness:
  "\<exists>m l. link_new Master Unbalanced demo_link = Ok m \<and>
     link_run (map (Pair LinkInput_Tick) [10, 20, 30, 40]) (sent_next [1] 0 m) = Ok (l, map SendFrame (replicate 3 (data_frame (LinkAddress 1) False [1])) @
       [LinkStateChanged Failed, LinkError Reason_AckTimeout])"
proof -
  obtain m where new: "link_new Master Unbalanced demo_link = Ok m" by (simp add: link_new_def)
  with retransmission_ends [of "sent_next [1] 0 m" "\<lparr> ps_frame = data_frame (LinkAddress 1) False [1], ps_sent_at = 0, ps_attempts = 1 \<rparr>" "[10, 20, 30, 40]"]
  show ?thesis by (auto simp: link_new_def demo_link_def sent_next_def)
qed

text \<open>
  C34. With fewer than 255 retries the link layer never panics: every input in every state that satisfies
  the invariant (a frame in flight only at a master, sent at most max_retries + 1 times) is handled, and
  the invariant, the role and the configuration are kept.
\<close>
theorem link_never_panics:
  assumes "link_inv l" and "lcfg_max_retries (link_config l) \<noteq> 0xFF"
  shows "\<exists>l' acts. link_handle i now l = Ok (l', acts) \<and> link_inv l' \<and> link_role l' = link_role l \<and> link_config l' = link_config l"
  by (rule link_handle_total [OF assms])

theorem link_never_panics_witness:
  "\<exists>m l' acts. link_new Master Unbalanced LinkConfig_default = Ok m \<and> link_handle (SendUserData [1]) 5 m = Ok (l', acts)"
proof -
  obtain m where new: "link_new Master Unbalanced LinkConfig_default = Ok m" by (simp add: link_new_def)
  then have "lcfg_max_retries (link_config m) \<noteq> 0xFF" by (auto simp: link_new_def LinkConfig_default_def)
  with link_never_panics [OF link_new_inv [OF new]] new show ?thesis by blast
qed

text \<open>
  Failed is final at a master: no input ever brings the link state back, not even an acknowledged
  reset of the remote link.
\<close>
theorem failed_is_final:
  assumes "link_role l = Master" and "link_state l = Failed" and "link_run es l = Ok (l', acts)"
  shows "link_state l' = Failed"
  using assms
proof (induction es arbitrary: l acts)
  case (Cons e es)
  then obtain l1 a1 a2 where "link_handle (fst e) (snd e) l = Ok (l1, a1)" "link_run es l1 = Ok (l', a2)"
    by (auto simp: and_then_Ok_iff)
  with Cons.IH [of l1 a2] Cons.prems failed_stays [of l "fst e" "snd e" l1 a1] link_handle_fixed [of "fst e" "snd e" l l1 a1] show ?case by simp
qed simp

theorem failed_is_final_witness:
  "\<exists>m l' acts. link_new Master Unbalanced demo_link = Ok m \<and>
     link_run [(Do_ResetRemoteLink, 50), (FrameReceived (ack_frame (LinkAddress 1)), 51)] (m\<lparr> link_state := Failed \<rparr>) = Ok (l', acts) \<and>
     link_state l' = Failed"
proof -
  obtain m where new: "link_new Master Unbalanced demo_link = Ok m" by (simp add: link_new_def)
  have "\<exists>l' acts. link_run [(Do_ResetRemoteLink, 50), (FrameReceived (ack_frame (LinkAddress 1)), 51)] (m\<lparr> link_state := Failed \<rparr>) = Ok (l', acts)"
    using new
    by (auto simp: link_new_def demo_link_def link_handle_def link_dispatch_def on_reset_remote_link_def send_with_confirm_def link_push_def
      Let_def link_run_timers_def saturating_duration_since_def link_on_frame_def master_on_frame_def ack_frame_def
      master_on_secondary_fixed_def maybe_flush_queue_def)
  then obtain l' acts where run: "link_run [(Do_ResetRemoteLink, 50), (FrameReceived (ack_frame (LinkAddress 1)), 51)] (m\<lparr> link_state := Failed \<rparr>) = Ok (l', acts)"
    by blast
  have "link_role (m\<lparr> link_state := Failed \<rparr>) = Master" using new by (auto simp: link_new_def)
  from failed_is_final [OF this _ run] new run show ?thesis by auto
qed


end
