(* ===== verification/File_Session.thy ===== *)
theory File_Session
  imports Types_File "HOL-Library.Sublist"
begin

text \<open>
  The file-transfer session, \<^verbatim>\<open>crates/iec60870-proto/src/file_transfer/session.rs\<close>: the single-section
  dialogue of a receiver and a sender.  The struct \<^verbatim>\<open>Session\<close> is the record \<open>Session\<close>, \<^verbatim>\<open>step\<close> is
  \<open>session_step\<close>, and each \<^verbatim>\<open>on_*\<close> method is a definition that returns the new record.
\<close>

section \<open>Data\<close>

definition DEFAULT_SEGMENT_BYTES :: nat where "DEFAULT_SEGMENT_BYTES = 240"

record SessionConfig =
  max_segment_bytes :: nat
  idle_timeout :: Duration
  scfg_ioa :: Ioa

definition SessionConfig_default :: SessionConfig where
  "SessionConfig_default =
     \<lparr> max_segment_bytes = DEFAULT_SEGMENT_BYTES, idle_timeout = Duration_from_secs 30, scfg_ioa = Ioa 0 \<rparr>"

datatype SessionRole = Receiver | Sender

datatype FailureReason = Timeout | PeerRejected | LocallyRejected | SectionChecksumMismatch | ProtocolViolation | Aborted

datatype SessionState =
    Idle
  | RxAwaitFileReady
  | RxAwaitSectionReady
  | RxReceivingSegments
  | TxAwaitSelect
  | TxAwaitRequest
  | TxSendingSegments
  | TxAwaitAck
  | Session_Completed
  | Session_Failed

datatype SessionInput =
    Session_Start u32
  | FileReady F_FR_NA_1
  | SectionReady F_SR_NA_1
  | SelectCall F_SC_NA_1
  | LastSection F_LS_NA_1
  | AckFile F_AF_NA_1
  | Segment F_SG_NA_1
  | SegmentReady octets
  | Session_Tick
  | Session_Abort

datatype SessionAction =
    SendFileReady F_FR_NA_1
  | SendSectionReady F_SR_NA_1
  | SendSelectCall F_SC_NA_1
  | SendLastSection F_LS_NA_1
  | SendAckFile F_AF_NA_1
  | SendSegment F_SG_NA_1
  | RequestNextSegment nat
  | DeliverSegment octets
  | Action_Completed u32
  | Action_Failed FailureReason

record Session =
  ses_role :: SessionRole
  ses_nof :: NameOfFile
  ses_state :: SessionState
  ses_config :: SessionConfig
  file_length :: u32
  section_length :: u32
  bytes_transferred :: u32
  section_checksum :: Checksum
  last_progress :: "Instant option"
  awaiting_provider :: bool
  ses_actions :: "SessionAction list"

definition session_new :: "SessionRole \<Rightarrow> NameOfFile \<Rightarrow> SessionConfig \<Rightarrow> Session" where
  "session_new role nof config =
     \<lparr> ses_role = role, ses_nof = nof, ses_state = Idle, ses_config = config, file_length = 0, section_length = 0,
       bytes_transferred = 0, section_checksum = Checksum 0, last_progress = None, awaiting_provider = False,
       ses_actions = [] \<rparr>"

definition is_terminal :: "Session \<Rightarrow> bool" where
  "is_terminal self \<longleftrightarrow> ses_state self = Session_Completed \<or> ses_state self = Session_Failed"

section \<open>Helpers\<close>

definition ses_emit :: "SessionAction \<Rightarrow> Session \<Rightarrow> Session" where
  "ses_emit action self = self\<lparr> ses_actions := ses_actions self @ [action] \<rparr>"

definition ses_fail :: "FailureReason \<Rightarrow> Session \<Rightarrow> Session" where
  "ses_fail reason self =
     (if is_terminal self then self else ses_emit (Action_Failed reason) (self\<lparr> ses_state := Session_Failed \<rparr>))"

definition request_next_segment :: "Session \<Rightarrow> Session" where
  "request_next_segment self =
     (if awaiting_provider self then self
      else
        (let m = max 1 (min (max_segment_bytes (ses_config self)) MAX_SEGMENT_BYTES)
         in ses_emit (RequestNextSegment m) (self\<lparr> awaiting_provider := True \<rparr>)))"

definition u32_saturating_add :: "u32 \<Rightarrow> u32 \<Rightarrow> u32" where
  "u32_saturating_add a b = (if a + b < a then 0xFFFFFFFF else a + b)"

definition check_timeout :: "Instant \<Rightarrow> Session \<Rightarrow> Session" where
  "check_timeout now self =
     (if is_terminal self then self
      else if ses_state self = Idle then self
      else
        (case last_progress self of
           Some t \<Rightarrow>
             (if saturating_duration_since now t \<ge> idle_timeout (ses_config self) then ses_fail Timeout self else self)
         | None \<Rightarrow> self\<lparr> last_progress := Some now \<rparr>))"

section \<open>Input handlers\<close>

definition select_call :: "ScqAction \<Rightarrow> Session \<Rightarrow> F_SC_NA_1" where
  "select_call action self =
     \<lparr> sc_ioa = scfg_ioa (ses_config self), sc_nof = ses_nof self, sc_nos = NameOfSection_WHOLE_FILE, sc_scq = Scq_new action 0 \<rparr>"

definition file_ready :: "u32 \<Rightarrow> Session \<Rightarrow> F_FR_NA_1" where
  "file_ready len self =
     \<lparr> fr_ioa = scfg_ioa (ses_config self), fr_nof = ses_nof self, fr_lof = LengthOfFile len, fr_frq = Frq_READY \<rparr>"

definition ack_file :: "NameOfSection \<Rightarrow> AfqAction \<Rightarrow> Session \<Rightarrow> F_AF_NA_1" where
  "ack_file nos action self =
     \<lparr> af_ioa = scfg_ioa (ses_config self), af_nof = ses_nof self, af_nos = nos, af_afq = Afq_new action 0 \<rparr>"

definition on_start :: "u32 \<Rightarrow> Session \<Rightarrow> Session" where
  "on_start len self =
     (if ses_state self \<noteq> Idle then self
      else
        (case ses_role self of
           Receiver \<Rightarrow> (ses_emit (SendSelectCall (select_call SelectFile self)) self)\<lparr> ses_state := RxAwaitFileReady \<rparr>
         | Sender \<Rightarrow>
             (let self = self\<lparr> file_length := len, section_length := len \<rparr>
              in (ses_emit (SendFileReady (file_ready len self)) self)\<lparr> ses_state := TxAwaitSelect \<rparr>)))"

definition on_file_ready :: "F_FR_NA_1 \<Rightarrow> Instant \<Rightarrow> Session \<Rightarrow> Session" where
  "on_file_ready asdu now self =
     (if ses_role self \<noteq> Receiver then self
      else if ses_state self \<noteq> RxAwaitFileReady then ses_fail ProtocolViolation self
      else
        (let self = self\<lparr> last_progress := Some now \<rparr>
         in if frq_negative (fr_frq asdu) then ses_fail PeerRejected self
            else
              (let len = (case fr_lof asdu of LengthOfFile n \<Rightarrow> n);
                   self = self\<lparr> file_length := len, section_length := len \<rparr>
               in (ses_emit (SendSelectCall (select_call RequestFile self)) self)\<lparr> ses_state := RxAwaitSectionReady \<rparr>)))"

definition on_section_ready :: "F_SR_NA_1 \<Rightarrow> Instant \<Rightarrow> Session \<Rightarrow> Session" where
  "on_section_ready asdu now self =
     (if ses_role self \<noteq> Receiver \<or> ses_state self \<noteq> RxAwaitSectionReady then ses_fail ProtocolViolation self
      else
        (let self = self\<lparr> last_progress := Some now \<rparr>
         in if srq_negative (sr_srq asdu) then ses_fail PeerRejected self
            else self\<lparr> section_length := (case sr_los asdu of LengthOfSection n \<Rightarrow> n), bytes_transferred := 0,
                       section_checksum := Checksum 0, ses_state := RxReceivingSegments \<rparr>))"

definition on_select_call :: "F_SC_NA_1 \<Rightarrow> Instant \<Rightarrow> Session \<Rightarrow> Session" where
  "on_select_call asdu now self =
     (if ses_role self \<noteq> Sender then ses_fail ProtocolViolation self
      else
        (let self = self\<lparr> last_progress := Some now \<rparr>;
             action = scq_action (sc_scq asdu)
         in if (ses_state self = Idle \<or> ses_state self = TxAwaitSelect) \<and> action = SelectFile then
              (ses_emit (SendFileReady (file_ready (file_length self) self)) self)\<lparr> ses_state := TxAwaitRequest \<rparr>
            else if ses_state self = TxAwaitRequest \<and> action = RequestFile then
              (let self = self\<lparr> section_checksum := Checksum 0, bytes_transferred := 0 \<rparr>;
                   self = ses_emit (SendSectionReady
                     \<lparr> sr_ioa = scfg_ioa (ses_config self), sr_nof = ses_nof self, sr_nos = NameOfSection 1,
                       sr_los = LengthOfSection (section_length self), sr_srq = Srq_READY \<rparr>) self;
                   self = request_next_segment self
               in self\<lparr> ses_state := TxSendingSegments \<rparr>)
            else if action = DeactivateFile \<or> action = DeleteFile \<or> action = DeactivateSection then ses_fail Aborted self
            else ses_fail ProtocolViolation self))"

definition on_last_section :: "F_LS_NA_1 \<Rightarrow> Instant \<Rightarrow> Session \<Rightarrow> Session" where
  "on_last_section asdu now self =
     (if ses_role self \<noteq> Receiver \<or> ses_state self \<noteq> RxReceivingSegments then ses_fail ProtocolViolation self
      else
        (let self = self\<lparr> last_progress := Some now \<rparr>
         in if ls_chs asdu \<noteq> section_checksum self then
              ses_fail SectionChecksumMismatch (ses_emit (SendAckFile (ack_file (ls_nos asdu) NegativeSection self)) self)
            else
              (let self = ses_emit (SendAckFile (ack_file (ls_nos asdu) PositiveFile self)) self;
                   self = self\<lparr> ses_state := Session_Completed \<rparr>
               in ses_emit (Action_Completed (bytes_transferred self)) self)))"

definition on_ack_file :: "F_AF_NA_1 \<Rightarrow> Instant \<Rightarrow> Session \<Rightarrow> Session" where
  "on_ack_file asdu now self =
     (if ses_role self \<noteq> Sender \<or> ses_state self \<noteq> TxAwaitAck then ses_fail ProtocolViolation self
      else
        (let self = self\<lparr> last_progress := Some now \<rparr>
         in if afq_action (af_afq asdu) = PositiveFile \<or> afq_action (af_afq asdu) = PositiveSection then
              ses_emit (Action_Completed (bytes_transferred self)) (self\<lparr> ses_state := Session_Completed \<rparr>)
            else ses_fail PeerRejected self))"

definition on_segment :: "F_SG_NA_1 \<Rightarrow> Instant \<Rightarrow> Session \<Rightarrow> Session" where
  "on_segment asdu now self =
     (if ses_role self \<noteq> Receiver \<or> ses_state self \<noteq> RxReceivingSegments then ses_fail ProtocolViolation self
      else
        (let self = self\<lparr> last_progress := Some now,
                          section_checksum := Checksum_update_slice (section_checksum self) (sg_segment asdu),
                          bytes_transferred := u32_saturating_add (bytes_transferred self) (of_nat (length (sg_segment asdu))) \<rparr>
         in ses_emit (DeliverSegment (sg_segment asdu)) self))"

definition on_segment_ready :: "octets \<Rightarrow> Instant \<Rightarrow> Session \<Rightarrow> Session" where
  "on_segment_ready data now self =
     (if ses_role self \<noteq> Sender \<or> ses_state self \<noteq> TxSendingSegments then self
      else
        (let self = self\<lparr> awaiting_provider := False \<rparr>
         in if data = [] then
              (ses_emit (SendLastSection
                 \<lparr> ls_ioa = scfg_ioa (ses_config self), ls_nof = ses_nof self, ls_nos = NameOfSection 1,
                   ls_lsq = FileWithoutDeactivate, ls_chs = section_checksum self \<rparr>) self)
                 \<lparr> ses_state := TxAwaitAck, last_progress := Some now \<rparr>
            else
              (let self = self\<lparr> section_checksum := Checksum_update_slice (section_checksum self) data,
                                bytes_transferred := u32_saturating_add (bytes_transferred self) (of_nat (length data)),
                                last_progress := Some now \<rparr>;
                   self = ses_emit (SendSegment
                     \<lparr> sg_ioa = scfg_ioa (ses_config self), sg_nof = ses_nof self, sg_nos = NameOfSection 1, sg_segment = data \<rparr>) self
               in request_next_segment self)))"

section \<open>The entry point\<close>

definition session_dispatch :: "SessionInput \<Rightarrow> Instant \<Rightarrow> Session \<Rightarrow> Session" where
  "session_dispatch input now self =
     (case input of
        Session_Start len \<Rightarrow> on_start len self
      | FileReady asdu \<Rightarrow> on_file_ready asdu now self
      | SectionReady asdu \<Rightarrow> on_section_ready asdu now self
      | SelectCall asdu \<Rightarrow> on_select_call asdu now self
      | LastSection asdu \<Rightarrow> on_last_section asdu now self
      | AckFile asdu \<Rightarrow> on_ack_file asdu now self
      | Segment asdu \<Rightarrow> on_segment asdu now self
      | SegmentReady data \<Rightarrow> on_segment_ready data now self
      | Session_Tick \<Rightarrow> self
      | Session_Abort \<Rightarrow> ses_fail Aborted self)"

definition session_step :: "SessionInput \<Rightarrow> Instant \<Rightarrow> Session \<Rightarrow> Session \<times> SessionAction list" where
  "session_step input now self =
     (if is_terminal self then (self, [])
      else
        (let self = check_timeout now (session_dispatch input now self)
         in (self\<lparr> ses_actions := [] \<rparr>, ses_actions self)))"

end
