(* ===== verification/Session_Runs.thy ===== *)
theory Session_Runs
  imports File_Session
begin

text \<open>
  What a file-transfer session guarantees: a terminal state is final and reported exactly once, an idle
  session times out, the checksum covers exactly the octets delivered, and a sender and a receiver
  joined by FIFO channels agree on the file.
\<close>

lemmas ses_ops = on_start_def on_file_ready_def on_section_ready_def on_select_call_def on_last_section_def on_ack_file_def
  on_segment_def on_segment_ready_def

section \<open>Runs\<close>

primrec session_run :: "(SessionInput \<times> Instant) list \<Rightarrow> Session \<Rightarrow> Session \<times> SessionAction list" where
  "session_run [] s = (s, [])"
| "session_run (e # es) s =
     (let (s, acts) = session_step (fst e) (snd e) s; (s, acts') = session_run es s in (s, acts @ acts'))"

lemma session_run_append:
  "session_run (es @ es') s = (let (s1, a) = session_run es s; (s2, a') = session_run es' s1 in (s2, a @ a'))"
  by (induction es arbitrary: s) (auto simp: Let_def split: prod.splits)

lemma terminal_step: "is_terminal s \<Longrightarrow> session_step i now s = (s, [])"
  by (simp add: session_step_def)

lemma terminal_run: "is_terminal s \<Longrightarrow> session_run es s = (s, [])"
  by (induction es) (simp_all add: terminal_step)

section \<open>Messages between the two ends\<close>

fun peer_of :: "SessionAction \<Rightarrow> SessionInput list" where
  "peer_of (SendFileReady a) = [FileReady a]"
| "peer_of (SendSectionReady a) = [SectionReady a]"
| "peer_of (SendSelectCall a) = [SelectCall a]"
| "peer_of (SendLastSection a) = [LastSection a]"
| "peer_of (SendAckFile a) = [AckFile a]"
| "peer_of (SendSegment a) = [Segment a]"
| "peer_of _ = []"

fun from_peer :: "SessionInput \<Rightarrow> bool" where
  "from_peer (Session_Start n) \<longleftrightarrow> False"
| "from_peer (SegmentReady d) \<longleftrightarrow> False"
| "from_peer Session_Tick \<longleftrightarrow> False"
| "from_peer Session_Abort \<longleftrightarrow> False"
| "from_peer _ \<longleftrightarrow> True"

fun seg_of :: "SessionInput \<Rightarrow> octets list" where
  "seg_of (Segment a) = [sg_segment a]"
| "seg_of _ = []"

fun last_of :: "SessionInput \<Rightarrow> F_LS_NA_1 list" where
  "last_of (LastSection a) = [a]"
| "last_of _ = []"

fun stored_of :: "SessionAction \<Rightarrow> octets list" where
  "stored_of (DeliverSegment d) = [d]"
| "stored_of _ = []"

fun verdict_of :: "SessionAction \<Rightarrow> SessionAction list" where
  "verdict_of (Action_Completed n) = [Action_Completed n]"
| "verdict_of (Action_Failed r) = [Action_Failed r]"
| "verdict_of _ = []"

definition session_out :: "SessionAction list \<Rightarrow> SessionInput list" where
  "session_out acts = concat (map peer_of acts)"

definition session_in :: "(SessionInput \<times> Instant) list \<Rightarrow> SessionInput list" where
  "session_in es = filter from_peer (map fst es)"

definition segments :: "SessionInput list \<Rightarrow> octets list" where
  "segments ms = concat (map seg_of ms)"

definition last_sections :: "SessionInput list \<Rightarrow> F_LS_NA_1 list" where
  "last_sections ms = concat (map last_of ms)"

definition stored :: "SessionAction list \<Rightarrow> octets list" where
  "stored acts = concat (map stored_of acts)"

definition verdicts :: "SessionAction list \<Rightarrow> SessionAction list" where
  "verdicts acts = concat (map verdict_of acts)"

definition accepting :: "SessionInput \<Rightarrow> bool" where
  "accepting m \<longleftrightarrow> (\<exists>a. m = AckFile a \<and> afq_action (af_afq a) \<in> {PositiveFile, PositiveSection})"

lemma stream_simps [simp]:
  "session_out [] = []" "session_out (xs @ ys) = session_out xs @ session_out ys" "session_out (a # xs) = peer_of a @ session_out xs"
  "segments [] = []" "segments (ms @ ns) = segments ms @ segments ns" "segments (m # ms) = seg_of m @ segments ms"
  "last_sections [] = []" "last_sections (ms @ ns) = last_sections ms @ last_sections ns"
  "last_sections (m # ms) = last_of m @ last_sections ms"
  "stored [] = []" "stored (xs @ ys) = stored xs @ stored ys" "stored (a # xs) = stored_of a @ stored xs"
  "verdicts [] = []" "verdicts (xs @ ys) = verdicts xs @ verdicts ys" "verdicts (a # xs) = verdict_of a @ verdicts xs"
  "session_in [] = []" "session_in (es @ es') = session_in es @ session_in es'"
  "session_in ((i, t) # es) = (if from_peer i then [i] else []) @ session_in es"
  by (simp_all add: session_out_def segments_def last_sections_def stored_def verdicts_def session_in_def)

lemma accepting_simps [simp]:
  "accepting (AckFile a) \<longleftrightarrow> afq_action (af_afq a) = PositiveFile \<or> afq_action (af_afq a) = PositiveSection"
  "\<not> accepting (FileReady fr)" "\<not> accepting (SectionReady sr)" "\<not> accepting (SelectCall sc)" "\<not> accepting (LastSection ls)"
  "\<not> accepting (Segment sg)"
  by (auto simp: accepting_def)

lemma checksum_slice [simp]: "Checksum_update_slice (Checksum_of xs) ys = Checksum_of (xs @ ys)"
  by (rule Checksum_incremental)

lemma checksum_start: "Checksum 0 = Checksum_of []"
  by (simp add: Checksum_of_def)

text \<open>The last section announces the checksum of the segments before it and nothing follows it.\<close>

definition closed_by :: "SessionInput list \<Rightarrow> F_LS_NA_1 \<Rightarrow> SessionInput list \<Rightarrow> bool" where
  "closed_by pre ls ms \<longleftrightarrow> ms = pre @ [LastSection ls] \<and> last_sections pre = [] \<and> ls_chs ls = Checksum_of (concat (segments pre))"

section \<open>The timeout at the end of every step\<close>

lemma timeout_cases:
  obtains "check_timeout now s = s"
  | "\<not> is_terminal s" and "check_timeout now s = s\<lparr> last_progress := Some now \<rparr>"
  | "\<not> is_terminal s" and "check_timeout now s = ses_emit (Action_Failed Timeout) (s\<lparr> ses_state := Session_Failed \<rparr>)"
proof -
  have "check_timeout now s = s \<or> (\<not> is_terminal s \<and> check_timeout now s = s\<lparr> last_progress := Some now \<rparr>) \<or>
    (\<not> is_terminal s \<and> check_timeout now s = ses_emit (Action_Failed Timeout) (s\<lparr> ses_state := Session_Failed \<rparr>))"
    by (simp add: check_timeout_def ses_fail_def split: option.splits)
  then show thesis using that by blast
qed

lemma step_by_parts:
  assumes "session_step i now s = (s', a)" and "\<not> is_terminal s"
  shows "s' = (check_timeout now (session_dispatch i now s))\<lparr> ses_actions := [] \<rparr>"
    and "a = ses_actions (check_timeout now (session_dispatch i now s))"
  using assms by (auto simp: session_step_def Let_def)

section \<open>The receiver\<close>

definition rx_hist :: "SessionInput list \<Rightarrow> SessionAction list \<Rightarrow> Session \<Rightarrow> bool" where
  "rx_hist ins acts s \<longleftrightarrow> ses_role s = Receiver \<and>
     (case ses_state s of
        RxReceivingSegments \<Rightarrow> stored acts = segments ins \<and> last_sections ins = [] \<and>
          section_checksum s = Checksum_of (concat (segments ins)) \<and>
          (length (concat (segments ins)) < 2 ^ 32 \<longrightarrow> unat (bytes_transferred s) = length (concat (segments ins))) \<and>
          verdicts acts = []
      | Session_Completed \<Rightarrow> (\<exists>pre ls post n. ins = pre @ LastSection ls # post \<and> last_sections pre = [] \<and> stored acts = segments pre \<and>
          ls_chs ls = Checksum_of (concat (segments pre)) \<and> verdicts acts = [Action_Completed n] \<and>
          (length (concat (segments pre)) < 2 ^ 32 \<longrightarrow> unat n = length (concat (segments pre))))
      | Session_Failed \<Rightarrow> (\<exists>r. verdicts acts = [Action_Failed r]) \<and> prefix (stored acts) (segments ins)
      | st \<Rightarrow> st \<in> {Idle, RxAwaitFileReady, RxAwaitSectionReady} \<and> segments ins = [] \<and> last_sections ins = [] \<and> stored acts = [] \<and>
          verdicts acts = []) \<and>
     (ses_state s \<noteq> Session_Completed \<longrightarrow> (\<forall>m \<in> set (session_out acts). \<not> accepting m))"

lemma saturating_sum:
  assumes "length xs + length ys < 2 ^ 32" and "unat a = length xs"
  shows "unat (u32_saturating_add a (of_nat (length ys))) = length xs + length ys"
proof -
  have ys: "unat (of_nat (length ys) :: u32) = length ys"
    using assms(1) by (simp add: unsigned_of_nat take_bit_nat_eq_self)
  then have "unat a + unat (of_nat (length ys) :: u32) < 2 ^ 32" using assms by simp
  then have "unat (a + of_nat (length ys)) = length xs + length ys" using assms(2) ys by (simp add: unat_word_ariths)
  moreover from this have "\<not> a + of_nat (length ys) < a" using assms(2) by (simp add: word_less_nat_alt)
  ultimately show ?thesis by (simp add: u32_saturating_add_def)
qed

lemma rx_timeout:
  assumes "rx_hist ins (acts @ ses_actions s) s"
  shows "rx_hist ins (acts @ ses_actions (check_timeout now s)) (check_timeout now s)"
proof (cases rule: timeout_cases [of now s])
  case 3
  with assms show ?thesis
    by (auto simp: rx_hist_def ses_emit_def is_terminal_def split: SessionState.splits)
qed (use assms in \<open>auto simp: rx_hist_def split: SessionState.splits\<close>)

lemma rx_segment:
  assumes "rx_hist ins acts s" and "ses_actions s = []" and "\<not> is_terminal s"
  shows "rx_hist (ins @ [Segment sg]) (acts @ ses_actions (on_segment sg now s)) (on_segment sg now s)"
  using assms
  by (cases "ses_state s")
    (auto simp: rx_hist_def on_segment_def ses_fail_def ses_emit_def is_terminal_def saturating_sum Let_def)

lemma rx_last_section:
  assumes "rx_hist ins acts s" and "ses_actions s = []" and "\<not> is_terminal s"
  shows "rx_hist (ins @ [LastSection ls]) (acts @ ses_actions (on_last_section ls now s)) (on_last_section ls now s)"
proof (cases "ses_state s = RxReceivingSegments \<and> ls_chs ls = section_checksum s")
  case True
  with assms(1) have "ins @ [LastSection ls] = ins @ LastSection ls # [] \<and> last_sections ins = [] \<and> stored acts = segments ins \<and>
    ls_chs ls = Checksum_of (concat (segments ins)) \<and> verdicts acts = [] \<and>
    (length (concat (segments ins)) < 2 ^ 32 \<longrightarrow> unat (bytes_transferred s) = length (concat (segments ins)))"
    by (simp add: rx_hist_def)
  moreover have "ses_role s = Receiver" using assms(1) by (simp add: rx_hist_def)
  ultimately show ?thesis using True assms(2)
    unfolding rx_hist_def on_last_section_def ses_emit_def Let_def
    by (simp del: append.simps) (intro exI [of _ ins] exI [of _ ls] exI [of _ "[]"], simp)
next
  case False
  with assms show ?thesis
    by (cases "ses_state s")
      (auto simp: rx_hist_def on_last_section_def ses_fail_def ses_emit_def is_terminal_def ack_file_def Afq_new_def Let_def)
qed

lemma rx_fail:
  assumes "rx_hist ins (acts @ ses_actions s) s" and "\<not> is_terminal s"
  shows "rx_hist (ins @ ms) (acts @ ses_actions (ses_fail r s)) (ses_fail r s)"
  using assms by (auto simp: rx_hist_def ses_fail_def ses_emit_def is_terminal_def split: SessionState.splits)

lemma rx_file_ready:
  assumes "rx_hist ins acts s" and "ses_actions s = []" and "\<not> is_terminal s"
  shows "rx_hist (ins @ [FileReady fr]) (acts @ ses_actions (on_file_ready fr now s)) (on_file_ready fr now s)"
proof (cases "ses_state s = RxAwaitFileReady")
  case True
  with assms show ?thesis
    by (auto simp: rx_hist_def on_file_ready_def ses_fail_def ses_emit_def is_terminal_def Let_def)
next
  case False
  with assms rx_fail [of ins acts s "[FileReady fr]" ProtocolViolation] show ?thesis
    by (auto simp: on_file_ready_def rx_hist_def)
qed

lemma rx_section_ready:
  assumes "rx_hist ins acts s" and "ses_actions s = []" and "\<not> is_terminal s"
  shows "rx_hist (ins @ [SectionReady sr]) (acts @ ses_actions (on_section_ready sr now s)) (on_section_ready sr now s)"
proof (cases "ses_state s = RxAwaitSectionReady")
  case True
  with assms show ?thesis
    by (auto simp: rx_hist_def on_section_ready_def ses_fail_def ses_emit_def is_terminal_def Let_def checksum_start)
next
  case False
  with assms rx_fail [of ins acts s "[SectionReady sr]" ProtocolViolation] show ?thesis
    by (auto simp: on_section_ready_def)
qed

lemma rx_start:
  assumes "rx_hist ins acts s" and "ses_actions s = []"
  shows "rx_hist ins (acts @ ses_actions (on_start n s)) (on_start n s)"
proof (cases "ses_state s = Idle")
  case True
  with assms show ?thesis by (simp add: rx_hist_def on_start_def ses_emit_def)
qed (use assms in \<open>simp add: on_start_def\<close>)

lemma rx_dispatch:
  assumes "rx_hist ins acts s" and "ses_actions s = []" and "\<not> is_terminal s"
  shows "rx_hist (ins @ (if from_peer i then [i] else [])) (acts @ ses_actions (session_dispatch i now s)) (session_dispatch i now s)"
proof -
  have rx: "ses_role s = Receiver" using assms(1) by (simp add: rx_hist_def)
  have fail: "rx_hist (ins @ ms) (acts @ ses_actions (ses_fail r s)) (ses_fail r s)" for ms r
    using rx_fail assms by auto
  show ?thesis
    using assms rx fail [of "[]"] fail [of "[i]"]
    by (cases i)
      (auto simp: session_dispatch_def rx_segment rx_last_section rx_file_ready rx_section_ready rx_start
        on_select_call_def on_ack_file_def on_segment_ready_def)
qed

lemma rx_drain: "rx_hist ins acts (s\<lparr> ses_actions := as \<rparr>) = rx_hist ins acts s"
  by (cases "ses_state s") (simp_all add: rx_hist_def)

lemma rx_terminal:
  assumes "rx_hist ins acts s" and "is_terminal s"
  shows "rx_hist (ins @ ms) acts s"
proof (cases "ses_state s = Session_Completed")
  case True
  with assms(1) obtain pre ls post n where "ins = pre @ LastSection ls # post" "last_sections pre = []" "stored acts = segments pre"
    "ls_chs ls = Checksum_of (concat (segments pre))" "verdicts acts = [Action_Completed n]"
    "length (concat (segments pre)) < 2 ^ 32 \<longrightarrow> unat n = length (concat (segments pre))"
    by (auto simp: rx_hist_def)
  moreover have "ses_role s = Receiver" using assms(1) by (simp add: rx_hist_def)
  ultimately show ?thesis using True unfolding rx_hist_def
    by (simp del: append_assoc) (intro exI [of _ pre] exI [of _ ls] exI [of _ "post @ ms"], simp)
qed (use assms in \<open>auto simp: rx_hist_def is_terminal_def\<close>)

lemma rx_step:
  assumes "rx_hist ins acts s" and "ses_actions s = []" and "session_step i now s = (s', a)"
  shows "rx_hist (ins @ (if from_peer i then [i] else [])) (acts @ a) s' \<and> ses_actions s' = []"
proof (cases "is_terminal s")
  case True
  with assms show ?thesis by (auto simp: terminal_step rx_terminal)
next
  case False
  from rx_timeout [OF rx_dispatch [OF assms(1,2) False, of i now], of now] step_by_parts [OF assms(3) False]
  show ?thesis by (simp add: rx_drain)
qed

lemma rx_run:
  assumes "rx_hist ins acts s" and "ses_actions s = []" and "session_run es s = (s', a)"
  shows "rx_hist (ins @ session_in es) (acts @ a) s' \<and> ses_actions s' = []"
  using assms
proof (induction es arbitrary: ins acts s a)
  case (Cons e es)
  obtain s1 a1 where step: "session_step (fst e) (snd e) s = (s1, a1)" by fastforce
  obtain a2 where run: "session_run es s1 = (s', a2)" "a = a1 @ a2"
    using Cons.prems(3) step by (auto split: prod.splits)
  from rx_step [OF Cons.prems(1,2) step] Cons.IH [of _ _ s1 a2] run show ?case
    by (cases e) fastforce
qed simp

lemma rx_run_new:
  "session_run es (session_new Receiver nof cfg) = (s', a) \<Longrightarrow> rx_hist (session_in es) a s'"
  using rx_run [of "[]" "[]" "session_new Receiver nof cfg" es s' a] by (simp add: rx_hist_def session_new_def)

section \<open>The sender\<close>

definition tx_hist :: "SessionInput list \<Rightarrow> SessionAction list \<Rightarrow> Session \<Rightarrow> bool" where
  "tx_hist ins acts s \<longleftrightarrow> ses_role s = Sender \<and>
     (let outs = session_out acts in
      case ses_state s of
        TxSendingSegments \<Rightarrow> last_sections outs = [] \<and> section_checksum s = Checksum_of (concat (segments outs)) \<and> verdicts acts = []
      | TxAwaitAck \<Rightarrow> (\<exists>pre ls. closed_by pre ls outs) \<and> verdicts acts = []
      | Session_Completed \<Rightarrow> (\<exists>pre ls. closed_by pre ls outs) \<and> (\<exists>m \<in> set ins. accepting m) \<and> (\<exists>n. verdicts acts = [Action_Completed n])
      | Session_Failed \<Rightarrow> (last_sections outs = [] \<or> (\<exists>pre ls. closed_by pre ls outs)) \<and> (\<exists>r. verdicts acts = [Action_Failed r])
      | st \<Rightarrow> st \<in> {Idle, TxAwaitSelect, TxAwaitRequest} \<and> segments outs = [] \<and> last_sections outs = [] \<and> verdicts acts = [])"

lemma tx_fail:
  assumes "tx_hist ins (acts @ ses_actions s) s" and "\<not> is_terminal s"
  shows "tx_hist (ins @ ms) (acts @ ses_actions (ses_fail r s)) (ses_fail r s)"
  using assms by (auto simp: tx_hist_def ses_fail_def ses_emit_def is_terminal_def Let_def split: SessionState.splits)

lemma tx_progress: "tx_hist ins acts (s\<lparr> last_progress := t \<rparr>) = tx_hist ins acts s"
  by (cases "ses_state s") (simp_all add: tx_hist_def)

lemma tx_drain: "tx_hist ins acts (s\<lparr> ses_actions := as \<rparr>) = tx_hist ins acts s"
  by (cases "ses_state s") (simp_all add: tx_hist_def)

lemma tx_timeout:
  assumes "tx_hist ins (acts @ ses_actions s) s"
  shows "tx_hist ins (acts @ ses_actions (check_timeout now s)) (check_timeout now s)"
proof (cases rule: timeout_cases [of now s])
  case 3
  with tx_fail [OF assms, of "[]" Timeout] show ?thesis by (simp add: ses_fail_def)
qed (use assms in \<open>simp_all add: tx_progress\<close>)

lemma tx_start:
  assumes "tx_hist ins acts s" and "ses_actions s = []"
  shows "tx_hist ins (acts @ ses_actions (on_start n s)) (on_start n s)"
proof (cases "ses_state s = Idle")
  case True
  with assms show ?thesis by (simp add: tx_hist_def on_start_def ses_emit_def Let_def)
qed (use assms in \<open>simp add: on_start_def\<close>)

lemma tx_select:
  assumes "tx_hist ins acts s" and "ses_actions s = []" and "\<not> is_terminal s"
  shows "tx_hist (ins @ [SelectCall sc]) (acts @ ses_actions (on_select_call sc now s)) (on_select_call sc now s)"
proof -
  let ?s = "s\<lparr> last_progress := Some now \<rparr>"
  have fail: "tx_hist (ins @ [SelectCall sc]) (acts @ ses_actions (ses_fail r ?s)) (ses_fail r ?s)" for r
    using assms by (intro tx_fail) (simp_all add: tx_progress is_terminal_def)
  have tx: "ses_role s = Sender" using assms(1) by (simp add: tx_hist_def)
  consider "(ses_state s = Idle \<or> ses_state s = TxAwaitSelect) \<and> scq_action (sc_scq sc) = SelectFile"
    | "ses_state s = TxAwaitRequest \<and> scq_action (sc_scq sc) = RequestFile"
    | "\<not> ((ses_state s = Idle \<or> ses_state s = TxAwaitSelect) \<and> scq_action (sc_scq sc) = SelectFile)"
      "\<not> (ses_state s = TxAwaitRequest \<and> scq_action (sc_scq sc) = RequestFile)"
    by blast
  then show ?thesis
  proof cases
    case 1
    with assms show ?thesis by (auto simp: tx_hist_def on_select_call_def ses_emit_def Let_def)
  next
    case 2
    with assms show ?thesis
      by (auto simp: tx_hist_def on_select_call_def ses_emit_def Let_def request_next_segment_def checksum_start)
  next
    case 3
    then have "on_select_call sc now s = ses_fail Aborted ?s \<or> on_select_call sc now s = ses_fail ProtocolViolation ?s"
      using tx by (auto simp: on_select_call_def Let_def)
    then show ?thesis using fail by auto
  qed
qed

lemma tx_segment_ready:
  assumes "tx_hist ins acts s" and "ses_actions s = []"
  shows "tx_hist ins (acts @ ses_actions (on_segment_ready d now s)) (on_segment_ready d now s)"
proof (cases "ses_state s = TxSendingSegments")
  case True
  with assms have "ses_role s = Sender" "last_sections (session_out acts) = []"
    "section_checksum s = Checksum_of (concat (segments (session_out acts)))" "verdicts acts = []"
    by (simp_all add: tx_hist_def Let_def)
  with True assms(2) show ?thesis
    by (cases "d = []")
      (auto simp: tx_hist_def on_segment_ready_def ses_emit_def Let_def request_next_segment_def closed_by_def)
qed (use assms in \<open>simp add: on_segment_ready_def\<close>)

lemma tx_ack:
  assumes "tx_hist ins acts s" and "ses_actions s = []" and "\<not> is_terminal s"
  shows "tx_hist (ins @ [AckFile af]) (acts @ ses_actions (on_ack_file af now s)) (on_ack_file af now s)"
proof -
  let ?s = "s\<lparr> last_progress := Some now \<rparr>"
  have fail: "tx_hist (ins @ [AckFile af]) (acts @ ses_actions (ses_fail r ?s)) (ses_fail r ?s)"
    "tx_hist (ins @ [AckFile af]) (acts @ ses_actions (ses_fail r s)) (ses_fail r s)" for r
    using assms by (intro tx_fail; simp add: tx_progress is_terminal_def)+
  show ?thesis
  proof (cases "ses_state s = TxAwaitAck \<and> accepting (AckFile af)")
    case True
    with assms show ?thesis by (auto simp: tx_hist_def on_ack_file_def ses_emit_def Let_def)
  next
    case False
    with fail show ?thesis by (auto simp: on_ack_file_def Let_def)
  qed
qed

lemma tx_dispatch:
  assumes "tx_hist ins acts s" and "ses_actions s = []" and "\<not> is_terminal s"
  shows "tx_hist (ins @ (if from_peer i then [i] else [])) (acts @ ses_actions (session_dispatch i now s)) (session_dispatch i now s)"
proof -
  have tx: "ses_role s = Sender" using assms(1) by (simp add: tx_hist_def)
  have fail: "tx_hist (ins @ ms) (acts @ ses_actions (ses_fail r s)) (ses_fail r s)" for ms r
    using tx_fail assms by auto
  have more: "tx_hist (ins @ ms) acts s" for ms
    using assms(1,3) by (auto simp: tx_hist_def is_terminal_def Let_def split: SessionState.splits)
  show ?thesis
    using assms tx fail [of "[]"] fail [of "[i]"] more [of "[i]"]
    by (cases i)
      (auto simp: session_dispatch_def tx_select tx_start tx_segment_ready tx_ack
        on_file_ready_def on_section_ready_def on_last_section_def on_segment_def)
qed

lemma tx_step:
  assumes "tx_hist ins acts s" and "ses_actions s = []" and "session_step i now s = (s', a)"
  shows "tx_hist (ins @ (if from_peer i then [i] else [])) (acts @ a) s' \<and> ses_actions s' = []"
proof (cases "is_terminal s")
  case True
  with assms show ?thesis by (auto simp: terminal_step tx_hist_def is_terminal_def Let_def)
next
  case False
  from tx_timeout [OF tx_dispatch [OF assms(1,2) False, of i now], of now] step_by_parts [OF assms(3) False]
  show ?thesis by (simp add: tx_drain)
qed

lemma tx_run:
  assumes "tx_hist ins acts s" and "ses_actions s = []" and "session_run es s = (s', a)"
  shows "tx_hist (ins @ session_in es) (acts @ a) s' \<and> ses_actions s' = []"
  using assms
proof (induction es arbitrary: ins acts s a)
  case (Cons e es)
  obtain s1 a1 where step: "session_step (fst e) (snd e) s = (s1, a1)" by fastforce
  obtain a2 where run: "session_run es s1 = (s', a2)" "a = a1 @ a2"
    using Cons.prems(3) step by (auto split: prod.splits)
  from tx_step [OF Cons.prems(1,2) step] Cons.IH [of _ _ s1 a2] run show ?case
    by (cases e) fastforce
qed simp

lemma tx_run_new:
  "session_run es (session_new Sender nof cfg) = (s', a) \<Longrightarrow> tx_hist (session_in es) a s'"
  using tx_run [of "[]" "[]" "session_new Sender nof cfg" es s' a] by (simp add: tx_hist_def session_new_def Let_def)

section \<open>Both ends together\<close>

text \<open>A stream that contains a last section is complete: the receiver has taken all of it.\<close>

lemma complete_prefix:
  assumes "closed_by pre ls outs" and "prefix (pre' @ LastSection ls' # post') outs"
  shows "pre' = pre \<and> ls' = ls"
proof -
  from assms obtain rest where eq: "pre' @ LastSection ls' # post' @ rest = pre @ [LastSection ls]"
    by (auto simp: closed_by_def prefix_def)
  show ?thesis
  proof (cases "post' @ rest" rule: rev_cases)
    case (snoc ys y)
    with eq have "pre = pre' @ LastSection ls' # ys" by (auto simp: append_assoc [symmetric] simp del: append_assoc)
    with assms(1) show ?thesis by (simp add: closed_by_def)
  qed (use eq in auto)
qed

lemma hist_agree:
  assumes rx: "rx_hist rins racts r" and tx: "tx_hist tins tacts t"
    and down: "prefix rins (session_out tacts)" and up: "prefix tins (session_out racts)"
    and fin: "ses_state r = Session_Completed \<or> ses_state t = Session_Completed"
  shows "ses_state r = Session_Completed \<and> stored racts = segments (session_out tacts)"
proof -
  have r: "ses_state r = Session_Completed"
  proof (cases "ses_state t = Session_Completed")
    case True
    with tx obtain m where "m \<in> set tins" "accepting m" by (auto simp: tx_hist_def Let_def)
    moreover from this up have "m \<in> set (session_out racts)" by (meson set_mono_prefix subsetD)
    ultimately show ?thesis using rx by (auto simp: rx_hist_def)
  qed (use fin in simp)
  with rx obtain pre ls post where pre: "rins = pre @ LastSection ls # post" "stored racts = segments pre"
    by (auto simp: rx_hist_def)
  with down have "last_sections (session_out tacts) \<noteq> []" by (auto simp: prefix_def)
  with tx obtain pre' ls' where "closed_by pre' ls' (session_out tacts)"
    by (auto simp: tx_hist_def Let_def split: SessionState.splits)
  with complete_prefix [OF this, of pre ls post] down pre have "stored racts = segments (session_out tacts)"
    by (auto simp: closed_by_def)
  with r show ?thesis by simp
qed

section \<open>The dialogue completes\<close>

text \<open>Events whose times stay within one idle timeout of each other cannot time out.\<close>

definition in_window :: "Instant \<Rightarrow> Session \<Rightarrow> Instant \<Rightarrow> bool" where
  "in_window t0 s now \<longleftrightarrow> t0 \<le> now \<and> now < t0 + idle_timeout (ses_config s)"

definition fresh_from :: "Instant \<Rightarrow> Session \<Rightarrow> bool" where
  "fresh_from t0 s \<longleftrightarrow> (case last_progress s of None \<Rightarrow> True | Some t \<Rightarrow> t0 \<le> t)"

text \<open>The state a session is in, its fixed parameters, and that it has made no progress before \<open>t0\<close>.\<close>

definition at_state :: "Instant \<Rightarrow> Session \<Rightarrow> SessionState \<Rightarrow> Session \<Rightarrow> bool" where
  "at_state t0 s0 st s \<longleftrightarrow> ses_state s = st \<and> ses_actions s = [] \<and> fresh_from t0 s \<and> ses_role s = ses_role s0 \<and>
     ses_config s = ses_config s0 \<and> ses_nof s = ses_nof s0"

lemma step_at_state:
  assumes "at_state t0 s0 st s" and "st \<notin> {Session_Completed, Session_Failed}" and "in_window t0 s0 now"
    and "fresh_from t0 (session_dispatch i now s)" and "ses_role (session_dispatch i now s) = ses_role s"
    and "ses_config (session_dispatch i now s) = ses_config s" and "ses_nof (session_dispatch i now s) = ses_nof s"
  shows "\<exists>p. session_step i now s = ((session_dispatch i now s)\<lparr> last_progress := p, ses_actions := [] \<rparr>, ses_actions (session_dispatch i now s)) \<and>
    at_state t0 s0 (ses_state (session_dispatch i now s)) ((session_dispatch i now s)\<lparr> last_progress := p, ses_actions := [] \<rparr>)"
proof -
  let ?d = "session_dispatch i now s"
  have w: "in_window t0 ?d now" using assms(1,3,6) by (simp add: in_window_def at_state_def)
  then have "check_timeout now ?d = ?d \<or> check_timeout now ?d = ?d\<lparr> last_progress := Some now \<rparr>"
    using assms(4)
    by (auto simp: check_timeout_def fresh_from_def in_window_def saturating_duration_since_def split: option.splits)
  then obtain p where p: "check_timeout now ?d = ?d\<lparr> last_progress := p \<rparr>" "fresh_from t0 (?d\<lparr> last_progress := p \<rparr>)"
  proof
    assume "check_timeout now ?d = ?d"
    with assms(4) show thesis using that [of "last_progress ?d"] by (cases "session_dispatch i now s") simp
  qed (use w that [of "Some now"] in \<open>simp add: fresh_from_def in_window_def\<close>)
  have "\<not> is_terminal s" using assms(1,2) by (auto simp: is_terminal_def at_state_def)
  then have "session_step i now s = (?d\<lparr> last_progress := p, ses_actions := [] \<rparr>, ses_actions ?d)"
    using p(1) by (simp add: session_step_def)
  moreover have "at_state t0 s0 (ses_state ?d) (?d\<lparr> last_progress := p, ses_actions := [] \<rparr>)"
    using assms(1,5-7) p(2) by (simp add: at_state_def fresh_from_def)
  ultimately show ?thesis by blast
qed

lemma fresh_now [simp]: "fresh_from t0 (s\<lparr> last_progress := Some now \<rparr>) \<longleftrightarrow> t0 \<le> now"
  by (simp add: fresh_from_def)

lemma fresh_frame [simp]:
  "fresh_from t0 (ses_state_update a s) = fresh_from t0 s" "fresh_from t0 (ses_actions_update b s) = fresh_from t0 s"
  "fresh_from t0 (file_length_update c s) = fresh_from t0 s" "fresh_from t0 (section_length_update d s) = fresh_from t0 s"
  "fresh_from t0 (bytes_transferred_update e s) = fresh_from t0 s" "fresh_from t0 (section_checksum_update f s) = fresh_from t0 s"
  "fresh_from t0 (awaiting_provider_update g s) = fresh_from t0 s"
  by (simp_all add: fresh_from_def)

text \<open>The receiver's side of the dialogue, step by step.\<close>

lemma rx_live_start:
  assumes "at_state t0 s0 Idle s" and "in_window t0 s0 now" and "ses_role s0 = Receiver"
  shows "\<exists>s'. session_step (Session_Start n) now s = (s', [SendSelectCall (select_call SelectFile s0)]) \<and> at_state t0 s0 RxAwaitFileReady s'"
  using step_at_state [OF assms(1) _ assms(2), of "Session_Start n"] assms
  by (fastforce simp: session_dispatch_def on_start_def ses_emit_def at_state_def select_call_def)

lemma rx_live_file_ready:
  assumes "at_state t0 s0 RxAwaitFileReady s" and "in_window t0 s0 now" and "ses_role s0 = Receiver" and "\<not> frq_negative (fr_frq fr)"
  shows "\<exists>s'. session_step (FileReady fr) now s = (s', [SendSelectCall (select_call RequestFile s0)]) \<and> at_state t0 s0 RxAwaitSectionReady s'"
  using step_at_state [OF assms(1) _ assms(2), of "FileReady fr"] assms
  by (fastforce simp: session_dispatch_def on_file_ready_def ses_emit_def at_state_def select_call_def in_window_def Let_def)

lemma rx_live_section_ready:
  assumes "at_state t0 s0 RxAwaitSectionReady s" and "in_window t0 s0 now" and "ses_role s0 = Receiver" and "\<not> srq_negative (sr_srq sr)"
  shows "\<exists>s'. session_step (SectionReady sr) now s = (s', []) \<and> at_state t0 s0 RxReceivingSegments s'"
  using step_at_state [OF assms(1) _ assms(2), of "SectionReady sr"] assms
  by (fastforce simp: session_dispatch_def on_section_ready_def ses_emit_def at_state_def in_window_def Let_def)

lemma rx_live_segment:
  assumes "at_state t0 s0 RxReceivingSegments s" and "in_window t0 s0 now" and "ses_role s0 = Receiver"
  shows "\<exists>s'. session_step (Segment sg) now s = (s', [DeliverSegment (sg_segment sg)]) \<and> at_state t0 s0 RxReceivingSegments s'"
  using step_at_state [OF assms(1) _ assms(2), of "Segment sg"] assms
  by (fastforce simp: session_dispatch_def on_segment_def ses_emit_def at_state_def in_window_def Let_def)

lemma rx_live_last:
  assumes "at_state t0 s0 RxReceivingSegments s" and "in_window t0 s0 now" and "ses_role s0 = Receiver" and "ls_chs ls = section_checksum s"
  shows "\<exists>s' n. session_step (LastSection ls) now s = (s', [SendAckFile (ack_file (ls_nos ls) PositiveFile s0), Action_Completed n]) \<and>
    at_state t0 s0 Session_Completed s'"
  using step_at_state [OF assms(1) _ assms(2), of "LastSection ls"] assms
  by (fastforce simp: session_dispatch_def on_last_section_def ses_emit_def at_state_def in_window_def Let_def ack_file_def)

lemma rx_live_segments:
  assumes "at_state t0 s0 RxReceivingSegments s" and "ses_role s0 = Receiver" and "\<forall>(sg, now) \<in> set sgs. in_window t0 s0 now"
  shows "\<exists>s'. session_run (map (\<lambda>(sg, now). (Segment sg, now)) sgs) s = (s', map (\<lambda>(sg, now). DeliverSegment (sg_segment sg)) sgs) \<and>
    at_state t0 s0 RxReceivingSegments s'"
  using assms
proof (induction sgs arbitrary: s)
  case (Cons e sgs)
  obtain sg now where e: "e = (sg, now)" by fastforce
  with rx_live_segment [OF Cons.prems(1) _ Cons.prems(2), of now sg] Cons.prems(3) obtain s1 where
    "session_step (Segment sg) now s = (s1, [DeliverSegment (sg_segment sg)])" "at_state t0 s0 RxReceivingSegments s1"
    by auto
  with Cons.IH [of s1] Cons.prems e show ?case by fastforce
qed simp

lemma out_delivered [simp]: "session_out (map (\<lambda>(sg, now). DeliverSegment (sg_segment sg)) sgs) = []"
  and stored_delivered [simp]: "stored (map (\<lambda>(sg, now). DeliverSegment (sg_segment sg)) sgs) = map (sg_segment \<circ> fst) sgs"
  and in_segments [simp]: "session_in (map (\<lambda>(sg, now). (Segment sg, now)) sgs) = map (Segment \<circ> fst) sgs"
  and segments_map [simp]: "segments (map (Segment \<circ> fst) sgs) = map (sg_segment \<circ> fst) sgs"
  by (induction sgs) (auto simp: session_in_def)

lemma rx_dialogue:
  assumes "s0 = session_new Receiver nof cfg"
    and times: "in_window t0 s0 t1" "in_window t0 s0 t2" "in_window t0 s0 t3" "\<forall>(sg, now) \<in> set sgs. in_window t0 s0 now" "in_window t0 s0 t4"
    and "\<not> frq_negative (fr_frq fr)" and "\<not> srq_negative (sr_srq sr)"
    and "ls_chs ls = Checksum_of (concat (map (sg_segment \<circ> fst) sgs))"
  shows "\<exists>s' acts. session_run ([(Session_Start n, t1), (FileReady fr, t2), (SectionReady sr, t3)] @
        map (\<lambda>(sg, now). (Segment sg, now)) sgs @ [(LastSection ls, t4)]) s0 = (s', acts) \<and>
      ses_state s' = Session_Completed \<and> stored acts = map (sg_segment \<circ> fst) sgs \<and>
      session_out acts = [SelectCall (select_call SelectFile s0), SelectCall (select_call RequestFile s0),
        AckFile (ack_file (ls_nos ls) PositiveFile s0)]"
proof -
  have s0: "at_state t0 s0 Idle s0" "ses_role s0 = Receiver"
    using assms(1) by (simp_all add: at_state_def session_new_def fresh_from_def)
  obtain s1 where s1: "session_step (Session_Start n) t1 s0 = (s1, [SendSelectCall (select_call SelectFile s0)])" "at_state t0 s0 RxAwaitFileReady s1"
    using rx_live_start [OF s0(1) times(1) s0(2)] by blast
  obtain s2 where s2: "session_step (FileReady fr) t2 s1 = (s2, [SendSelectCall (select_call RequestFile s0)])" "at_state t0 s0 RxAwaitSectionReady s2"
    using rx_live_file_ready [OF s1(2) times(2) s0(2) assms(7)] by blast
  obtain s3 where s3: "session_step (SectionReady sr) t3 s2 = (s3, [])" "at_state t0 s0 RxReceivingSegments s3"
    using rx_live_section_ready [OF s2(2) times(3) s0(2) assms(8)] by blast
  obtain s4 where s4: "session_run (map (\<lambda>(sg, now). (Segment sg, now)) sgs) s3 = (s4, map (\<lambda>(sg, now). DeliverSegment (sg_segment sg)) sgs)"
    "at_state t0 s0 RxReceivingSegments s4"
    using rx_live_segments [OF s3(2) s0(2) times(4)] by blast
  let ?pre = "[(Session_Start n, t1), (FileReady fr, t2), (SectionReady sr, t3)] @ map (\<lambda>(sg, now). (Segment sg, now)) sgs"
  obtain acts where run: "session_run ?pre s0 = (s4, acts)"
    and acts: "session_out acts = [SelectCall (select_call SelectFile s0), SelectCall (select_call RequestFile s0)]"
      "stored acts = map (sg_segment \<circ> fst) sgs"
    using s1(1) s2(1) s3(1) s4(1) by simp
  have "rx_hist (session_in ?pre) acts s4" using rx_run_new run assms(1) by blast
  then have "ls_chs ls = section_checksum s4" using s4(2) assms(9) by (simp add: rx_hist_def at_state_def)
  then obtain s5 m where "session_step (LastSection ls) t4 s4 = (s5, [SendAckFile (ack_file (ls_nos ls) PositiveFile s0), Action_Completed m])"
    "at_state t0 s0 Session_Completed s5"
    using rx_live_last [OF s4(2) times(5) s0(2)] by blast
  with run acts show ?thesis
    using session_run_append [of ?pre "[(LastSection ls, t4)]" s0] by (simp add: at_state_def)
qed

text \<open>The sender's side.\<close>

definition tx_ready :: "u32 \<Rightarrow> Session \<Rightarrow> bool" where
  "tx_ready len s \<longleftrightarrow> file_length s = len \<and> section_length s = len"

definition section_ready :: "u32 \<Rightarrow> Session \<Rightarrow> F_SR_NA_1" where
  "section_ready len s = \<lparr> sr_ioa = scfg_ioa (ses_config s), sr_nof = ses_nof s, sr_nos = NameOfSection 1,
     sr_los = LengthOfSection len, sr_srq = Srq_READY \<rparr>"

definition segment_of :: "Session \<Rightarrow> octets \<Rightarrow> F_SG_NA_1" where
  "segment_of s d = \<lparr> sg_ioa = scfg_ioa (ses_config s), sg_nof = ses_nof s, sg_nos = NameOfSection 1, sg_segment = d \<rparr>"

lemma request_next_frame [simp]:
  "ses_role (request_next_segment s) = ses_role s" "ses_config (request_next_segment s) = ses_config s"
  "ses_nof (request_next_segment s) = ses_nof s" "ses_state (request_next_segment s) = ses_state s"
  "fresh_from t0 (request_next_segment s) = fresh_from t0 s"
  "session_out (ses_actions (request_next_segment s)) = session_out (ses_actions s)"
  by (simp_all add: request_next_segment_def ses_emit_def Let_def)

lemma tx_live_start:
  assumes "at_state t0 s0 Idle s" and "in_window t0 s0 now" and "ses_role s0 = Sender"
  shows "\<exists>s'. session_step (Session_Start len) now s = (s', [SendFileReady (file_ready len s0)]) \<and> at_state t0 s0 TxAwaitSelect s' \<and> tx_ready len s'"
  using step_at_state [OF assms(1) _ assms(2), of "Session_Start len"] assms
  by (fastforce simp: session_dispatch_def on_start_def ses_emit_def at_state_def file_ready_def tx_ready_def Let_def)

lemma tx_live_select:
  assumes "at_state t0 s0 TxAwaitSelect s" and "in_window t0 s0 now" and "ses_role s0 = Sender" and "tx_ready len s"
    and "scq_action (sc_scq sc) = SelectFile"
  shows "\<exists>s'. session_step (SelectCall sc) now s = (s', [SendFileReady (file_ready len s0)]) \<and> at_state t0 s0 TxAwaitRequest s' \<and> tx_ready len s'"
  using step_at_state [OF assms(1) _ assms(2), of "SelectCall sc"] assms
  by (fastforce simp: session_dispatch_def on_select_call_def ses_emit_def at_state_def file_ready_def tx_ready_def in_window_def Let_def)

lemma tx_live_request:
  assumes "at_state t0 s0 TxAwaitRequest s" and "in_window t0 s0 now" and "ses_role s0 = Sender" and "tx_ready len s"
    and "scq_action (sc_scq sc) = RequestFile"
  shows "\<exists>s' acts. session_step (SelectCall sc) now s = (s', acts) \<and> session_out acts = [SectionReady (section_ready len s0)] \<and>
    at_state t0 s0 TxSendingSegments s'"
  using step_at_state [OF assms(1) _ assms(2), of "SelectCall sc"] assms
  by (fastforce simp: session_dispatch_def on_select_call_def ses_emit_def at_state_def section_ready_def tx_ready_def in_window_def Let_def)

lemma tx_live_chunk:
  assumes "at_state t0 s0 TxSendingSegments s" and "in_window t0 s0 now" and "ses_role s0 = Sender" and "d \<noteq> []"
  shows "\<exists>s' acts. session_step (SegmentReady d) now s = (s', acts) \<and> session_out acts = [Segment (segment_of s0 d)] \<and>
    at_state t0 s0 TxSendingSegments s'"
  using step_at_state [OF assms(1) _ assms(2), of "SegmentReady d"] assms
  by (fastforce simp: session_dispatch_def on_segment_ready_def ses_emit_def at_state_def segment_of_def in_window_def Let_def)

lemma tx_live_eof:
  assumes "at_state t0 s0 TxSendingSegments s" and "in_window t0 s0 now" and "ses_role s0 = Sender"
  shows "\<exists>s' acts ls. session_step (SegmentReady []) now s = (s', acts) \<and> session_out acts = [LastSection ls] \<and>
    ls_chs ls = section_checksum s \<and> ls_nos ls = NameOfSection 1 \<and> at_state t0 s0 TxAwaitAck s'"
  using step_at_state [OF assms(1) _ assms(2), of "SegmentReady []"] assms
  by (fastforce simp: session_dispatch_def on_segment_ready_def ses_emit_def at_state_def in_window_def Let_def)

lemma tx_live_ack:
  assumes "at_state t0 s0 TxAwaitAck s" and "in_window t0 s0 now" and "ses_role s0 = Sender" and "accepting (AckFile af)"
  shows "\<exists>s' n. session_step (AckFile af) now s = (s', [Action_Completed n]) \<and> at_state t0 s0 Session_Completed s'"
  using step_at_state [OF assms(1) _ assms(2), of "AckFile af"] assms
  by (fastforce simp: session_dispatch_def on_ack_file_def ses_emit_def at_state_def in_window_def Let_def)

lemma tx_live_chunks:
  assumes "at_state t0 s0 TxSendingSegments s" and "ses_role s0 = Sender" and "\<forall>(d, now) \<in> set ds. in_window t0 s0 now \<and> d \<noteq> []"
  shows "\<exists>s' acts. session_run (map (\<lambda>(d, now). (SegmentReady d, now)) ds) s = (s', acts) \<and>
    session_out acts = map (Segment \<circ> segment_of s0 \<circ> fst) ds \<and> at_state t0 s0 TxSendingSegments s'"
  using assms
proof (induction ds arbitrary: s)
  case (Cons e ds)
  obtain d now where e: "e = (d, now)" by fastforce
  with tx_live_chunk [OF Cons.prems(1) _ Cons.prems(2), of now d] Cons.prems(3) obtain s1 a1 where
    "session_step (SegmentReady d) now s = (s1, a1)" "session_out a1 = [Segment (segment_of s0 d)]" "at_state t0 s0 TxSendingSegments s1"
    by auto
  with Cons.IH [of s1] Cons.prems e show ?case by fastforce
qed simp

lemma segments_of_chunks [simp]: "segments (map (Segment \<circ> segment_of s0 \<circ> fst) ds) = map fst ds"
  by (induction ds) (auto simp: segment_of_def)

lemma tx_dialogue:
  assumes "s0 = session_new Sender nof cfg"
    and times: "in_window t0 s0 t1" "in_window t0 s0 t2" "in_window t0 s0 t3" "\<forall>(d, now) \<in> set ds. in_window t0 s0 now \<and> d \<noteq> []"
      "in_window t0 s0 t4" "in_window t0 s0 t5"
    and sel: "scq_action (sc_scq sel) = SelectFile" and req: "scq_action (sc_scq req) = RequestFile" and af: "accepting (AckFile af)"
  shows "\<exists>s' acts ls. session_run ([(Session_Start len, t1), (SelectCall sel, t2), (SelectCall req, t3)] @
        map (\<lambda>(d, now). (SegmentReady d, now)) ds @ [(SegmentReady [], t4), (AckFile af, t5)]) s0 = (s', acts) \<and>
      ses_state s' = Session_Completed \<and> ls_chs ls = Checksum_of (concat (map fst ds)) \<and> ls_nos ls = NameOfSection 1 \<and>
      session_out acts = [FileReady (file_ready len s0), FileReady (file_ready len s0), SectionReady (section_ready len s0)] @
        map (Segment \<circ> segment_of s0 \<circ> fst) ds @ [LastSection ls]"
proof -
  have s0: "at_state t0 s0 Idle s0" "ses_role s0 = Sender"
    using assms(1) by (simp_all add: at_state_def session_new_def fresh_from_def)
  obtain s1 where s1: "session_step (Session_Start len) t1 s0 = (s1, [SendFileReady (file_ready len s0)])"
    "at_state t0 s0 TxAwaitSelect s1" "tx_ready len s1"
    using tx_live_start [OF s0(1) times(1) s0(2)] by blast
  obtain s2 where s2: "session_step (SelectCall sel) t2 s1 = (s2, [SendFileReady (file_ready len s0)])"
    "at_state t0 s0 TxAwaitRequest s2" "tx_ready len s2"
    using tx_live_select [OF s1(2) times(2) s0(2) s1(3) sel] by blast
  obtain s3 a3 where s3: "session_step (SelectCall req) t3 s2 = (s3, a3)" "session_out a3 = [SectionReady (section_ready len s0)]"
    "at_state t0 s0 TxSendingSegments s3"
    using tx_live_request [OF s2(2) times(3) s0(2) s2(3) req] by blast
  obtain s4 a4 where s4: "session_run (map (\<lambda>(d, now). (SegmentReady d, now)) ds) s3 = (s4, a4)"
    "session_out a4 = map (Segment \<circ> segment_of s0 \<circ> fst) ds" "at_state t0 s0 TxSendingSegments s4"
    using tx_live_chunks [OF s3(3) s0(2) times(4)] by blast
  let ?pre = "[(Session_Start len, t1), (SelectCall sel, t2), (SelectCall req, t3)] @ map (\<lambda>(d, now). (SegmentReady d, now)) ds"
  obtain acts where run: "session_run ?pre s0 = (s4, acts)" and acts:
    "session_out acts = [FileReady (file_ready len s0), FileReady (file_ready len s0), SectionReady (section_ready len s0)] @
      map (Segment \<circ> segment_of s0 \<circ> fst) ds"
    using s1(1) s2(1) s3(1,2) s4(1,2) by simp
  have "tx_hist (session_in ?pre) acts s4" using tx_run_new run assms(1) by blast
  then have chs: "section_checksum s4 = Checksum_of (concat (map fst ds))"
    using s4(3) acts by (simp add: tx_hist_def at_state_def Let_def)
  obtain s5 a5 ls where s5: "session_step (SegmentReady []) t4 s4 = (s5, a5)" "session_out a5 = [LastSection ls]"
    "ls_chs ls = section_checksum s4" "ls_nos ls = NameOfSection 1" "at_state t0 s0 TxAwaitAck s5"
    using tx_live_eof [OF s4(3) times(5) s0(2)] by blast
  obtain s6 n where "session_step (AckFile af) t5 s5 = (s6, [Action_Completed n])" "at_state t0 s0 Session_Completed s6"
    using tx_live_ack [OF s5(5) times(6) s0(2) af] by blast
  with s5 run acts chs show ?thesis
    using session_run_append [of ?pre "[(SegmentReady [], t4), (AckFile af, t5)]" s0] by (simp add: at_state_def)
qed

section \<open>Idle sessions end\<close>

lemma idle_times_out:
  assumes "ses_state s \<noteq> Idle" and "\<not> is_terminal s" and "last_progress s = Some t" and "t + idle_timeout (ses_config s) \<le> now"
    and "ses_actions s = []"
  shows "session_step Session_Tick now s = (s\<lparr> ses_state := Session_Failed \<rparr>, [Action_Failed Timeout])"
  using assms
  by (cases s) (simp add: session_step_def session_dispatch_def check_timeout_def ses_fail_def ses_emit_def saturating_duration_since_def
    is_terminal_def)

lemma tick_starts_timer:
  assumes "ses_state s \<noteq> Idle" and "\<not> is_terminal s" and "last_progress s = None" and "ses_actions s = []"
  shows "session_step Session_Tick now s = (s\<lparr> last_progress := Some now \<rparr>, [])"
  using assms by (cases s) (simp add: session_step_def session_dispatch_def check_timeout_def is_terminal_def)

text \<open>A file announced to a session that has not asked for it fails the session.\<close>

lemma unsolicited_file_ready:
  "session_step (FileReady fr) now (session_new Receiver nof cfg) =
     ((session_new Receiver nof cfg)\<lparr> ses_state := Session_Failed \<rparr>, [Action_Failed ProtocolViolation])"
  by (simp add: session_step_def session_dispatch_def on_file_ready_def session_new_def ses_fail_def is_terminal_def ses_emit_def
    check_timeout_def)

end
