(* ===== verification/File_Properties.thy ===== *)
theory File_Properties
  imports Session_Runs
begin

text \<open>
  The guarantees of the file-transfer session.
\<close>

text \<open>
  A sender created for a peer's request is started with the file length, and what it would announce is
  dropped because the request is about to be answered.
\<close>

definition passive_sender :: "u32 \<Rightarrow> Instant \<Rightarrow> NameOfFile \<Rightarrow> SessionConfig \<Rightarrow> Session" where
  "passive_sender len now nof cfg = fst (session_step (Session_Start len) now (session_new Sender nof cfg))"

lemma passive_sender_hist: "tx_hist [] [] (passive_sender len now nof cfg) \<and> ses_actions (passive_sender len now nof cfg) = []"
  by (simp add: passive_sender_def session_step_def session_dispatch_def on_start_def session_new_def is_terminal_def ses_emit_def
    check_timeout_def tx_hist_def Let_def)

lemma tx_run_from:
  assumes "session_run es s0 = (s', a)" and "s0 = session_new Sender nof cfg \<or> s0 = passive_sender len t0 nof cfg"
  shows "tx_hist (session_in es) a s'"
  using assms tx_run_new tx_run [of "[]" "[]" s0 es s' a] passive_sender_hist [of len t0 nof cfg] by auto

text \<open>
  C4. A sender and a receiver session joined by FIFO channels agree on the file: if each end has been
  fed a prefix of what the other has sent, with any local events and any timing in between, then as
  soon as either end has completed, the receiver has completed and has handed over exactly the segments
  the sender shipped, in order. The sender may be one that pushes or one created for a request.
\<close>
theorem transfer_agreement:
  assumes "session_run res (session_new Receiver rnof rcfg) = (r, racts)"
    and "session_run tes s0 = (t, tacts)" and "s0 = session_new Sender nof cfg \<or> s0 = passive_sender len t0 nof cfg"
    and "prefix (session_in res) (session_out tacts)" and "prefix (session_in tes) (session_out racts)"
    and "ses_state r = Session_Completed \<or> ses_state t = Session_Completed"
  shows "ses_state r = Session_Completed \<and> stored racts = segments (session_out tacts)"
  by (rule hist_agree [OF rx_run_new [OF assms(1)] tx_run_from [OF assms(2,3)] assms(4-6)])

definition demo_session :: SessionConfig where
  "demo_session = \<lparr> max_segment_bytes = 16, idle_timeout = 30, scfg_ioa = Ioa 0 \<rparr>"

definition demo_select :: "ScqAction \<Rightarrow> F_SC_NA_1" where
  "demo_select a = \<lparr> sc_ioa = Ioa 0, sc_nof = NameOfFile 7, sc_nos = NameOfSection 0, sc_scq = Scq_new a 0 \<rparr>"

definition demo_ready :: F_FR_NA_1 where
  "demo_ready = \<lparr> fr_ioa = Ioa 0, fr_nof = NameOfFile 7, fr_lof = LengthOfFile 3, fr_frq = Frq_READY \<rparr>"

definition demo_section :: F_SR_NA_1 where
  "demo_section = \<lparr> sr_ioa = Ioa 0, sr_nof = NameOfFile 7, sr_nos = NameOfSection 1, sr_los = LengthOfSection 3, sr_srq = Srq_READY \<rparr>"

definition demo_segment :: "octets \<Rightarrow> F_SG_NA_1" where
  "demo_segment d = \<lparr> sg_ioa = Ioa 0, sg_nof = NameOfFile 7, sg_nos = NameOfSection 1, sg_segment = d \<rparr>"

definition demo_last :: F_LS_NA_1 where
  "demo_last = \<lparr> ls_ioa = Ioa 0, ls_nof = NameOfFile 7, ls_nos = NameOfSection 1, ls_lsq = FileWithoutDeactivate, ls_chs = Checksum 6 \<rparr>"

definition demo_ack :: F_AF_NA_1 where
  "demo_ack = \<lparr> af_ioa = Ioa 0, af_nof = NameOfFile 7, af_nos = NameOfSection 1, af_afq = Afq_new PositiveFile 0 \<rparr>"

text \<open>The reactive dialogue: the sender is created by the request, so its first announcement is not sent.\<close>

definition demo_rx :: "(SessionInput \<times> Instant) list" where
  "demo_rx = [(Session_Start 0, 1), (FileReady demo_ready, 2), (SectionReady demo_section, 3), (Segment (demo_segment [1, 2]), 4),
     (Segment (demo_segment [3]), 5), (LastSection demo_last, 6)]"

definition demo_tx :: "(SessionInput \<times> Instant) list" where
  "demo_tx = [(SelectCall (demo_select SelectFile), 1), (SelectCall (demo_select RequestFile), 2), (SegmentReady [1, 2], 3),
     (SegmentReady [3], 4), (SegmentReady [], 5), (AckFile demo_ack, 6)]"

lemma demo_dialogue:
  "ses_state (fst (session_run demo_rx (session_new Receiver (NameOfFile 7) demo_session))) = Session_Completed"
  "session_out (snd (session_run demo_tx (passive_sender 3 0 (NameOfFile 7) demo_session))) =
     [FileReady demo_ready, SectionReady demo_section, Segment (demo_segment [1, 2]), Segment (demo_segment [3]), LastSection demo_last]"
  "session_out (snd (session_run demo_rx (session_new Receiver (NameOfFile 7) demo_session))) =
     [SelectCall (demo_select SelectFile), SelectCall (demo_select RequestFile), AckFile demo_ack]"
  "session_in demo_rx = [FileReady demo_ready, SectionReady demo_section, Segment (demo_segment [1, 2]), Segment (demo_segment [3]), LastSection demo_last]"
  "session_in demo_tx = [SelectCall (demo_select SelectFile), SelectCall (demo_select RequestFile), AckFile demo_ack]"
  by code_simp+

theorem transfer_agreement_witness:
  "stored (snd (session_run demo_rx (session_new Receiver (NameOfFile 7) demo_session))) = [[1, 2], [3]]"
proof -
  obtain r racts t tacts where runs: "session_run demo_rx (session_new Receiver (NameOfFile 7) demo_session) = (r, racts)"
    "session_run demo_tx (passive_sender 3 0 (NameOfFile 7) demo_session) = (t, tacts)" by fastforce
  with demo_dialogue transfer_agreement [OF runs(1,2), of "NameOfFile 7" demo_session 3 0] show ?thesis
    by (simp add: demo_segment_def)
qed



text \<open>
  C19. Every session reports its end exactly once: along any run of a fresh session, of either role, no
  verdict has been reported while the session is not terminal; once it is completed exactly one
  Completed action has been emitted, once it has failed exactly one Failed action, and a terminal
  session emits nothing more and never changes.
\<close>
theorem one_verdict:
  assumes "session_run es (session_new role nof cfg) = (s, acts)"
  shows "(case ses_state s of
      Session_Completed \<Rightarrow> \<exists>n. verdicts acts = [Action_Completed n]
    | Session_Failed \<Rightarrow> \<exists>r. verdicts acts = [Action_Failed r]
    | _ \<Rightarrow> verdicts acts = []) \<and>
    (is_terminal s \<longrightarrow> (\<forall>es'. session_run es' s = (s, [])))"
proof -
  have "case ses_state s of
      Session_Completed \<Rightarrow> \<exists>n. verdicts acts = [Action_Completed n]
    | Session_Failed \<Rightarrow> \<exists>r. verdicts acts = [Action_Failed r]
    | _ \<Rightarrow> verdicts acts = []"
  proof (cases role)
    case Receiver
    with rx_run_new assms have "rx_hist (session_in es) acts s" by simp
    then show ?thesis by (auto simp: rx_hist_def split: SessionState.splits)
  next
    case Sender
    with tx_run_new assms have "tx_hist (session_in es) acts s" by simp
    then show ?thesis by (auto simp: tx_hist_def Let_def split: SessionState.splits)
  qed
  with terminal_run show ?thesis by blast
qed

theorem one_verdict_witness:
  "\<exists>s acts. session_run demo_rx (session_new Receiver (NameOfFile 7) demo_session) = (s, acts) \<and> (\<exists>n. verdicts acts = [Action_Completed n])"
proof -
  obtain s acts where run: "session_run demo_rx (session_new Receiver (NameOfFile 7) demo_session) = (s, acts)" by fastforce
  with demo_dialogue(1) one_verdict [OF run] show ?thesis by auto
qed

text \<open>
  A receiver completes only with the right octets: when it has completed, it was fed a last section
  whose checksum is the sum of exactly the octets it handed over, these are the segments received
  before it, and the reported byte count is their length (below 2^32).
\<close>
theorem completed_octets:
  assumes "session_run es (session_new Receiver nof cfg) = (s, acts)" and "ses_state s = Session_Completed"
  shows "\<exists>pre ls post n. session_in es = pre @ LastSection ls # post \<and> stored acts = segments pre \<and>
    ls_chs ls = Checksum_of (concat (stored acts)) \<and> verdicts acts = [Action_Completed n] \<and>
    (length (concat (stored acts)) < 2 ^ 32 \<longrightarrow> unat n = length (concat (stored acts)))"
proof -
  from rx_run_new [OF assms(1)] assms(2) obtain pre ls post n where "session_in es = pre @ LastSection ls # post"
    "stored acts = segments pre" "ls_chs ls = Checksum_of (concat (segments pre))" "verdicts acts = [Action_Completed n]"
    "length (concat (segments pre)) < 2 ^ 32 \<longrightarrow> unat n = length (concat (segments pre))"
    by (auto simp: rx_hist_def)
  then show ?thesis by (intro exI [of _ pre] exI [of _ ls] exI [of _ post] exI [of _ n]) simp
qed

theorem completed_octets_witness:
  "\<exists>pre ls post. session_in demo_rx = pre @ LastSection ls # post \<and> ls_chs ls = Checksum_of (concat (segments pre))"
proof -
  obtain s acts where run: "session_run demo_rx (session_new Receiver (NameOfFile 7) demo_session) = (s, acts)" by fastforce
  with demo_dialogue(1) have "ses_state s = Session_Completed" by simp
  from completed_octets [OF run this] obtain pre ls post where "session_in demo_rx = pre @ LastSection ls # post"
    "stored acts = segments pre" "ls_chs ls = Checksum_of (concat (stored acts))" by blast
  then show ?thesis by (intro exI [of _ pre] exI [of _ ls] exI [of _ post]) simp
qed



text \<open>
  A file announced by a pushing peer is never received: a receiver session that is created for an
  unsolicited announcement, and has therefore not been started, fails with a protocol violation on that
  very announcement, whatever it says.
\<close>
theorem unsolicited_push_fails:
  "session_step (FileReady fr) now (session_new Receiver nof cfg) =
     ((session_new Receiver nof cfg)\<lparr> ses_state := Session_Failed \<rparr>, [Action_Failed ProtocolViolation])"
  by (rule unsolicited_file_ready)

end
