(* ===== verification/Policy104.thy ===== *)
theory Policy104
  imports Asdu_Envelope
begin

text \<open>
  The acceptance policy for incoming ASDUs, \<^verbatim>\<open>crates/iec60870/src/policy.rs\<close>: three independent
  axes, each unrestricted until its first value is added and a strict allow-list from then on.  The
  hash sets are sets; the builder methods return the changed policy.
\<close>

section \<open>The policy\<close>

record AsduPolicy =
  allowed_type_ids :: "u8 set option"
  allowed_causes :: "u8 set option"
  allowed_common_addresses :: "u16 set option"

definition AsduPolicy_new :: AsduPolicy where
  "AsduPolicy_new = \<lparr> allowed_type_ids = None, allowed_causes = None, allowed_common_addresses = None \<rparr>"

definition get_or_insert_empty :: "'a set option \<Rightarrow> 'a set" where
  "get_or_insert_empty s = (case s of None \<Rightarrow> {} | Some xs \<Rightarrow> xs)"

definition allow_type_id :: "AsduPolicy \<Rightarrow> u8 \<Rightarrow> AsduPolicy" where
  "allow_type_id self type_id =
     self\<lparr> allowed_type_ids := Some (insert type_id (get_or_insert_empty (allowed_type_ids self))) \<rparr>"

definition allow_type_id_range :: "AsduPolicy \<Rightarrow> u8 \<Rightarrow> u8 \<Rightarrow> AsduPolicy" where
  "allow_type_id_range self lo hi =
     self\<lparr> allowed_type_ids :=
       Some (foldl (\<lambda>s t. insert t s) (get_or_insert_empty (allowed_type_ids self)) (map of_nat [unat lo..<Suc (unat hi)])) \<rparr>"

definition allow_cause :: "AsduPolicy \<Rightarrow> Cause \<Rightarrow> AsduPolicy" where
  "allow_cause self cause =
     self\<lparr> allowed_causes := Some (insert (Cause_raw cause) (get_or_insert_empty (allowed_causes self))) \<rparr>"

definition allow_common_address :: "AsduPolicy \<Rightarrow> u16 \<Rightarrow> AsduPolicy" where
  "allow_common_address self ca =
     self\<lparr> allowed_common_addresses := Some (insert ca (get_or_insert_empty (allowed_common_addresses self))) \<rparr>"

definition is_restrictive :: "AsduPolicy \<Rightarrow> bool" where
  "is_restrictive self \<longleftrightarrow>
     allowed_type_ids self \<noteq> None \<or> allowed_causes self \<noteq> None \<or> allowed_common_addresses self \<noteq> None"

definition policy_allows :: "AsduPolicy \<Rightarrow> u8 \<Rightarrow> u8 \<Rightarrow> u16 \<Rightarrow> bool" where
  "policy_allows self type_id cause_raw ca =
     (if (case allowed_type_ids self of Some s \<Rightarrow> type_id \<notin> s | None \<Rightarrow> False) then False
      else if (case allowed_causes self of Some s \<Rightarrow> cause_raw \<notin> s | None \<Rightarrow> False) then False
      else if (case allowed_common_addresses self of Some s \<Rightarrow> ca \<notin> s | None \<Rightarrow> False) then False
      else True)"

text \<open>
  The widening both ends apply when a file-transfer provider is installed: every file-transfer type is
  added to a policy that is restrictive on any axis (\<^verbatim>\<open>client104.rs\<close>, \<^verbatim>\<open>server104.rs\<close>).
\<close>

definition widen_for_file_transfer :: "AsduPolicy \<Rightarrow> AsduPolicy" where
  "widen_for_file_transfer policy =
     (if is_restrictive policy then foldl allow_type_id policy (map of_nat [120..<127]) else policy)"

section \<open>What a policy admits\<close>

definition axis_admits :: "'a set option \<Rightarrow> 'a \<Rightarrow> bool" where
  "axis_admits s x \<longleftrightarrow> (\<forall>xs. s = Some xs \<longrightarrow> x \<in> xs)"

lemma axis_admits_simps [simp]: "axis_admits None x" "axis_admits (Some xs) x \<longleftrightarrow> x \<in> xs"
  by (simp_all add: axis_admits_def)

lemma policy_allows_axes:
  "policy_allows p t c a \<longleftrightarrow>
    axis_admits (allowed_type_ids p) t \<and> axis_admits (allowed_causes p) c \<and> axis_admits (allowed_common_addresses p) a"
  by (auto simp: policy_allows_def split: option.splits)

lemma unrestricted_allows: "\<not> is_restrictive p \<Longrightarrow> policy_allows p t c a"
  by (simp add: is_restrictive_def policy_allows_axes)

lemma foldl_insert: "foldl (\<lambda>s t. insert t s) s xs = s \<union> set xs"
  by (induction xs arbitrary: s) auto

lemma octet_range: "(t :: u8) \<in> of_nat ` {unat lo..<Suc (unat hi)} \<longleftrightarrow> lo \<le> t \<and> t \<le> hi"
proof
  assume "t \<in> of_nat ` {unat lo..<Suc (unat hi)}"
  then obtain n where n: "t = of_nat n" "unat lo \<le> n" "n \<le> unat hi" by auto
  moreover from n(3) have "n < 256" using unsigned_less [of hi, where 'a = nat] by simp
  ultimately show "lo \<le> t \<and> t \<le> hi" by (simp add: word_le_nat_alt unsigned_of_nat take_bit_nat_eq_self)
next
  assume "lo \<le> t \<and> t \<le> hi"
  then have "t = of_nat (unat t)" "unat t \<in> {unat lo..<Suc (unat hi)}" by (simp_all add: word_le_nat_alt)
  then show "t \<in> of_nat ` {unat lo..<Suc (unat hi)}" by (rule image_eqI)
qed

lemma type_id_range:
  "allowed_type_ids (allow_type_id_range p lo hi) = Some (get_or_insert_empty (allowed_type_ids p) \<union> {t. lo \<le> t \<and> t \<le> hi})"
  using octet_range [of _ lo hi] by (auto simp: allow_type_id_range_def foldl_insert simp del: upt_Suc)

lemma foldl_allow_type_id:
  "xs \<noteq> [] \<Longrightarrow> foldl allow_type_id p xs =
    p\<lparr> allowed_type_ids := Some (get_or_insert_empty (allowed_type_ids p) \<union> set xs) \<rparr>"
proof (induction xs arbitrary: p)
  case (Cons x xs)
  then show ?case
    by (cases "xs = []") (simp_all add: allow_type_id_def get_or_insert_empty_def)
qed simp

lemma ft_types: "of_nat ` {120..<127} = {t :: u8. 120 \<le> t \<and> t \<le> 126}"
  using octet_range [of _ 120 126] by auto

lemma widen_types:
  "is_restrictive p \<Longrightarrow> widen_for_file_transfer p =
    p\<lparr> allowed_type_ids := Some (get_or_insert_empty (allowed_type_ids p) \<union> {t. 120 \<le> t \<and> t \<le> 126}) \<rparr>"
  using foldl_allow_type_id [of "map of_nat [120..<127]" p] unfolding widen_for_file_transfer_def set_map set_upt ft_types by simp

section \<open>The header peek of the driver\<close>

text \<open>\<^verbatim>\<open>driver.rs\<close> reads the three fields without decoding the ASDU.\<close>

definition asdu_passes_policy :: "octets \<Rightarrow> AsduPolicy \<Rightarrow> bool" where
  "asdu_passes_policy asdu policy =
     (if length asdu < 6 then True
      else
        (let type_id = asdu ! 0;
             cause_raw = asdu ! 2 AND 0x3F;
             ca = u16_from_le_bytes (asdu ! 4) (asdu ! 5)
         in policy_allows policy type_id cause_raw ca))"

context bytes_crate
begin

lemma peek_is_header:
  assumes "Asdu_decode bo asdu AsduAddressing_IEC104 = Ok (x, rest)"
  shows "asdu_passes_policy asdu policy \<longleftrightarrow>
    policy_allows policy (asdu_type_id x) (Cause_raw (cot_cause (asdu_cot x))) (case asdu_ca x of CommonAddress a \<Rightarrow> a)"
proof -
  have "Asdu_header_len AsduAddressing_IEC104 = 6"
    by (simp add: Asdu_header_len_def AsduAddressing_IEC104_def AsduAddressing_cot_len_def AsduAddressing_ca_len_def
      Cot_LEN_2_def Vsq_LEN_def)
  with assms Asdu_decode_short [of asdu AsduAddressing_IEC104] have len: "6 \<le> length asdu" by force
  then obtain a b c d e f r where "asdu = a # b # c # d # e # f # r"
    by (auto simp: numeral_eq_Suc Suc_le_length_iff)
  with assms show ?thesis
    by (auto simp: Asdu_decode_def AsduAddressing_IEC104_def Vsq_decode_def Cot_decode_2_def decode_ca_def get_simps
      asdu_passes_policy_def Let_def and_then_Ok_iff Cot_parse_first_octet_def Cot_CAUSE_MASK_def Cause_raw_def
      AsduAddressing_cot_len_def AsduAddressing_ca_len_def Asdu_header_len_def Vsq_LEN_def Cot_LEN_2_def)
qed

end

end
