(* ===== verification/Driver104.thy ===== *)
theory Driver104
  imports Policy104 Conn_Runs
begin

text \<open>
  The -104 driver task, \<^verbatim>\<open>crates/iec60870/src/driver.rs\<close>: it feeds the connection state machine with
  commands, ticks and the frames it reassembles from the byte stream, and carries out the actions the
  state machine asks for.

  The task's locals \<^verbatim>\<open>conn\<close> and \<^verbatim>\<open>rx_buf\<close> are fields of a record, together with the trace of what
  the task has done to the outside: hooks called, octets written, events sent, ASDUs routed to the
  file-transfer service.  What the runtime decides is a parameter: the \<open>n\<close>-th reading of the clock,
  whether a write fails (and after how many octets), whether the receivers of the two channels are
  still there.  A wake-up of \<^verbatim>\<open>select!\<close> is one step, so that every interleaving is a list of wake-ups.
\<close>

section \<open>Errors, events, effects\<close>

datatype DriverError =
    Io_Error
  | Protocol_Error error
  | ConnectionClosed DisconnectReason
  | DriverGone
  | NoActivePeer
  | InvalidTransport

datatype 'a driver_result = D_Panic | D_Err DriverError | D_Ok 'a

datatype Command = Command_SendAsdu octets | Command_StartDt | Command_StopDt

datatype DriverEvent =
    Event_Asdu octets
  | Event_StateChanged State
  | Event_Closed "DisconnectReason option"

datatype ErrorMessage = Message_Disconnect DisconnectReason | Message_Overflow nat

datatype Hook =
    On_frame_received Apdu
  | On_frame_sent Apdu
  | On_asdu_received octets
  | On_state_changed State
  | On_protocol_error ErrorMessage

datatype Effect =
    Hook Hook
  | Write octets
  | Emit DriverEvent
  | Route CommonAddress Asdu

record World =
  clock :: "nat \<Rightarrow> Instant"
  write_fails :: "Effect list \<Rightarrow> nat option"
  events_open :: "Effect list \<Rightarrow> bool"
  ft_open :: "Effect list \<Rightarrow> bool"

definition MAX_RX_BUFFERED :: nat where "MAX_RX_BUFFERED = 4 * 1024"

definition send_event :: "World \<Rightarrow> DriverEvent \<Rightarrow> Effect list \<Rightarrow> Effect list" where
  "send_event w e tr = (if events_open w tr then tr @ [Emit e] else tr)"

section \<open>Carrying out actions\<close>

definition is_file_transfer :: "octets \<Rightarrow> bool" where
  "is_file_transfer asdu = (case asdu of [] \<Rightarrow> False | t # _ \<Rightarrow> 120 \<le> t \<and> t \<le> 126)"

fun apply_actions ::
    "bytes_api \<Rightarrow> World \<Rightarrow> AsduPolicy \<Rightarrow> bool \<Rightarrow> Action list \<Rightarrow> bool \<Rightarrow> Effect list \<Rightarrow>
      bool driver_result \<times> Effect list" where
  "apply_actions bo w policy ft [] keep_going tr = (D_Ok keep_going, tr)"
| "apply_actions bo w policy ft (SendApdu apdu # acts) keep_going tr =
     (let tr = tr @ [Hook (On_frame_sent apdu)]
      in case Codec_encode bo apdu [] of
           (Panic, _) \<Rightarrow> (D_Panic, tr)
         | (Err e, _) \<Rightarrow> (D_Err (Protocol_Error e), tr)
         | (Ok _, buf) \<Rightarrow>
             (case write_fails w tr of
                Some n \<Rightarrow> (D_Err Io_Error, tr @ [Write (take n buf)])
              | None \<Rightarrow> apply_actions bo w policy ft acts keep_going (tr @ [Write buf])))"
| "apply_actions bo w policy ft (DeliverAsdu asdu # acts) keep_going tr =
     (if is_restrictive policy \<and> \<not> asdu_passes_policy asdu policy then apply_actions bo w policy ft acts keep_going tr
      else
        (let tr = tr @ [Hook (On_asdu_received asdu)]
         in if ft \<and> is_file_transfer asdu then
              (case Asdu_decode bo asdu AsduAddressing_IEC104 of
                 Ok (parsed, _) \<Rightarrow>
                   apply_actions bo w policy ft acts keep_going
                     (if ft_open w tr then tr @ [Route (asdu_ca parsed) parsed] else tr)
               | Err _ \<Rightarrow> apply_actions bo w policy ft acts keep_going tr
               | Panic \<Rightarrow> (D_Panic, tr))
            else
              apply_actions bo w policy ft acts (keep_going \<and> events_open w tr) (send_event w (Event_Asdu asdu) tr)))"
| "apply_actions bo w policy ft (StateChanged state # acts) keep_going tr =
     (let tr = tr @ [Hook (On_state_changed state)]
      in apply_actions bo w policy ft acts (keep_going \<and> events_open w tr) (send_event w (Event_StateChanged state) tr))"
| "apply_actions bo w policy ft (Disconnect reason # acts) keep_going tr =
     (let tr = tr @ [Hook (On_protocol_error (Message_Disconnect reason))]
      in apply_actions bo w policy ft acts False (send_event w (Event_Closed (Some reason)) tr))"

section \<open>The task\<close>

record Driver =
  drv_conn :: Connection
  rx_buf :: octets
  clock_reads :: nat
  trace :: "Effect list"

definition driver_new :: "Role \<Rightarrow> Config \<Rightarrow> Driver" where
  "driver_new role config = \<lparr> drv_conn = conn_new role config, rx_buf = [], clock_reads = 0, trace = [] \<rparr>"

text \<open>Every branch of \<^verbatim>\<open>select!\<close> reads the clock, calls \<^verbatim>\<open>handle\<close> and applies the actions.\<close>

definition driver_handle ::
    "bytes_api \<Rightarrow> World \<Rightarrow> AsduPolicy \<Rightarrow> bool \<Rightarrow> Input \<Rightarrow> Driver \<Rightarrow> bool driver_result \<times> Driver" where
  "driver_handle bo w policy ft input d =
     (let (conn, acts) = conn_handle input (clock w (clock_reads d)) (drv_conn d);
          (r, tr) = apply_actions bo w policy ft acts True (trace d)
      in (r, d\<lparr> drv_conn := conn, clock_reads := Suc (clock_reads d), trace := tr \<rparr>))"

text \<open>The \<^verbatim>\<open>while let\<close> loop over the complete frames in the buffer; \<^const>\<open>None\<close> if it does not end.\<close>

partial_function (option) drain ::
    "bytes_api \<Rightarrow> World \<Rightarrow> AsduPolicy \<Rightarrow> bool \<Rightarrow> Driver \<Rightarrow> (bool driver_result \<times> Driver) option" where
  "drain bo w policy ft d =
     (case Codec_decode_slice bo (rx_buf d) of
        Panic \<Rightarrow> Some (D_Panic, d)
      | Err e \<Rightarrow> Some (D_Err (Protocol_Error e), d)
      | Ok None \<Rightarrow> Some (D_Ok True, d)
      | Ok (Some (apdu, consumed)) \<Rightarrow>
          (case advance bo (rx_buf d) consumed of
             Ok buf \<Rightarrow>
               (let d = d\<lparr> rx_buf := buf, trace := trace d @ [Hook (On_frame_received apdu)] \<rparr>;
                    (r, d) = driver_handle bo w policy ft (Input_Apdu apdu) d
                in if r = D_Ok True then drain bo w policy ft d else Some (r, d))
           | _ \<Rightarrow> Some (D_Panic, d)))"

declare drain.simps [code]

datatype Wake = Wake_Command "Command option" | Wake_Tick | Wake_Read octets | Wake_ReadFailed

datatype Status = Running | Finished "unit driver_result"

definition status_of :: "bool driver_result \<Rightarrow> Status" where
  "status_of r =
     (case r of
        D_Ok True \<Rightarrow> Running
      | D_Ok False \<Rightarrow> Finished (D_Ok ())
      | D_Err e \<Rightarrow> Finished (D_Err e)
      | D_Panic \<Rightarrow> Finished D_Panic)"

definition command_input :: "Command \<Rightarrow> Input" where
  "command_input cmd =
     (case cmd of Command_SendAsdu asdu \<Rightarrow> SendAsdu asdu | Command_StartDt \<Rightarrow> StartDt | Command_StopDt \<Rightarrow> StopDt)"

definition driver_step ::
    "bytes_api \<Rightarrow> World \<Rightarrow> AsduPolicy \<Rightarrow> bool \<Rightarrow> Wake \<Rightarrow> Driver \<Rightarrow> (Status \<times> Driver) option" where
  "driver_step bo w policy ft wake d =
     (case wake of
        Wake_Command None \<Rightarrow> Some (Finished (D_Ok ()), d)
      | Wake_Command (Some cmd) \<Rightarrow>
          (let (r, d) = driver_handle bo w policy ft (command_input cmd) d in Some (status_of r, d))
      | Wake_Tick \<Rightarrow> (let (r, d) = driver_handle bo w policy ft Tick d in Some (status_of r, d))
      | Wake_ReadFailed \<Rightarrow> Some (Finished (D_Err Io_Error), d)
      | Wake_Read octets \<Rightarrow>
          (if octets = [] then
             Some (Finished (D_Ok ()), d\<lparr> trace := send_event w (Event_Closed None) (trace d) \<rparr>)
           else
             (case drain bo w policy ft (d\<lparr> rx_buf := rx_buf d @ octets \<rparr>) of
                None \<Rightarrow> None
              | Some (r, d) \<Rightarrow>
                  (if r = D_Ok True \<and> length (rx_buf d) > MAX_RX_BUFFERED then
                     (let tr = trace d @ [Hook (On_protocol_error (Message_Overflow (length (rx_buf d))))]
                      in Some (Finished (D_Err Io_Error), d\<lparr> trace := send_event w (Event_Closed None) tr \<rparr>))
                   else Some (status_of r, d)))))"

fun driver_run ::
    "bytes_api \<Rightarrow> World \<Rightarrow> AsduPolicy \<Rightarrow> bool \<Rightarrow> Wake list \<Rightarrow> Driver \<Rightarrow> (Status \<times> Driver) option" where
  "driver_run bo w policy ft [] d = Some (Running, d)"
| "driver_run bo w policy ft (wake # wakes) d =
     (case driver_step bo w policy ft wake d of
        None \<Rightarrow> None
      | Some (Running, d) \<Rightarrow> driver_run bo w policy ft wakes d
      | Some (Finished r, d) \<Rightarrow> Some (Finished r, d))"

section \<open>The public handles\<close>

text \<open>
  \<^verbatim>\<open>send_asdu\<close> of \<^verbatim>\<open>client104.rs\<close> and \<^verbatim>\<open>server104.rs\<close>: the length check, then the command channel.
\<close>

definition send_asdu :: "bool \<Rightarrow> octets \<Rightarrow> Command driver_result" where
  "send_asdu driver_alive asdu =
     (if length asdu > MAX_ASDU_LEN then D_Err (Protocol_Error (AsduTooLong (length asdu) MAX_ASDU_LEN))
      else if driver_alive then D_Ok (Command_SendAsdu asdu)
      else D_Err DriverGone)"

definition send_payload ::
    "bytes_api \<Rightarrow> 'p payload_impl \<Rightarrow> bool \<Rightarrow> Cot \<Rightarrow> CommonAddress \<Rightarrow> Vsq \<Rightarrow> 'p \<Rightarrow> Command driver_result" where
  "send_payload bo P driver_alive cot ca vsq payload =
     (let bytes = Asdu_encode_to_vec bo (Asdu_from_payload P cot ca vsq payload AsduAddressing_IEC104) AsduAddressing_IEC104
      in send_asdu driver_alive bytes)"

text \<open>
  \<^verbatim>\<open>recv_asdu\<close>: skip to the next ASDU of the event channel, giving up at \<^verbatim>\<open>Closed\<close> or the end of the
  channel; what is left in the channel is returned as well.
\<close>

fun recv_asdu :: "DriverEvent list \<Rightarrow> octets option \<times> DriverEvent list" where
  "recv_asdu [] = (None, [])"
| "recv_asdu (Event_Asdu bytes # evts) = (Some bytes, evts)"
| "recv_asdu (Event_Closed _ # evts) = (None, evts)"
| "recv_asdu (Event_StateChanged _ # evts) = recv_asdu evts"

end
