(* ===== verification/Driver_Runs.thy ===== *)
theory Driver_Runs
  imports Driver104
begin

text \<open>
  Runs of the -104 driver: the receive loop ends and leaves at most an incomplete frame, reassembly does
  not depend on how the stream is cut into reads, and a run of the driver is a run of the connection
  state machine on the frames it has received.
\<close>

section \<open>The receive loop\<close>

lemma decode_slice_mono:
  assumes "Codec_decode_slice bo buf \<noteq> Ok None"
  shows "Codec_decode_slice bo (buf @ rest) = Codec_decode_slice bo buf"
  using assms by (auto simp: Codec_decode_slice_def Let_def nth_append)

lemma decode_slice_residue: "Codec_decode_slice bo buf = Ok None \<Longrightarrow> length buf \<le> 256"
  using unsigned_less [of "buf ! 1", where 'a = nat]
  by (auto simp: Codec_decode_slice_def Let_def and_then_Ok_iff split: if_splits)

lemma driver_handle_frame [simp]: "rx_buf (snd (driver_handle bo w policy ft i d)) = rx_buf d"
  by (simp add: driver_handle_def split_def Let_def)

lemma driver_handle_rx:
  "driver_handle bo w policy ft i (d\<lparr> rx_buf := b \<rparr>) =
    (fst (driver_handle bo w policy ft i d), (snd (driver_handle bo w policy ft i d))\<lparr> rx_buf := b \<rparr>)"
  by (simp add: driver_handle_def split_def Let_def)

text \<open>One pass of the loop, and what becomes of the rest.\<close>

definition received :: "Apdu \<Rightarrow> nat \<Rightarrow> Driver \<Rightarrow> Driver" where
  "received apdu n d = d\<lparr> rx_buf := drop n (rx_buf d), trace := trace d @ [Hook (On_frame_received apdu)] \<rparr>"

lemma received_rx [simp]: "rx_buf (received apdu n d) = drop n (rx_buf d)"
  by (simp add: received_def)

context bytes_crate
begin

lemma drain_stop:
  "Codec_decode_slice bo (rx_buf d) = Ok None \<Longrightarrow> drain bo w policy ft d = Some (D_Ok True, d)"
  "Codec_decode_slice bo (rx_buf d) = Err e \<Longrightarrow> drain bo w policy ft d = Some (D_Err (Protocol_Error e), d)"
  by (simp_all add: drain.simps)

lemma drain_frame:
  assumes "Codec_decode_slice bo (rx_buf d) = Ok (Some (apdu, n))"
  shows "drain bo w policy ft d =
    (case driver_handle bo w policy ft (Input_Apdu apdu) (received apdu n d) of
       (r, d') \<Rightarrow> if r = D_Ok True then drain bo w policy ft d' else Some (r, d'))"
  using assms decode_slice_Some [OF assms] by (simp add: drain.simps [of bo w policy ft d] advance received_def Let_def)

lemma drain_induct [case_names none err frame]:
  assumes none: "\<And>d. Codec_decode_slice bo (rx_buf d) = Ok None \<Longrightarrow> P d"
    and err: "\<And>d e. Codec_decode_slice bo (rx_buf d) = Err e \<Longrightarrow> P d"
    and frame: "\<And>d apdu n r d'. Codec_decode_slice bo (rx_buf d) = Ok (Some (apdu, n)) \<Longrightarrow>
      driver_handle bo w policy ft (Input_Apdu apdu) (received apdu n d) = (r, d') \<Longrightarrow>
      rx_buf d' = drop n (rx_buf d) \<Longrightarrow> (r = D_Ok True \<Longrightarrow> P d') \<Longrightarrow> P d"
  shows "P d"
proof (induction "length (rx_buf d)" arbitrary: d rule: less_induct)
  case less
  show ?case
  proof (cases "Codec_decode_slice bo (rx_buf d)")
    case Panic
    then show ?thesis using decode_slice_not_panic by blast
  next
    case (Err e) then show ?thesis by (rule err)
  next
    case (Ok x)
    show ?thesis
    proof (cases x)
      case None with Ok show ?thesis using none by simp
    next
      case (Some y)
      obtain apdu n where y: "y = (apdu, n)" by force
      obtain r d' where h: "driver_handle bo w policy ft (Input_Apdu apdu) (received apdu n d) = (r, d')" by force
      then have rx: "rx_buf d' = drop n (rx_buf d)"
        using driver_handle_frame [of bo w policy ft "Input_Apdu apdu" "received apdu n d"] by simp
      from Ok Some y have dec: "Codec_decode_slice bo (rx_buf d) = Ok (Some (apdu, n))" by simp
      from decode_slice_Some [OF dec] have "6 \<le> n" "n \<le> length (rx_buf d)" by blast+
      with rx have "length (rx_buf d') < length (rx_buf d)" by simp
      with frame [OF dec h rx] less show ?thesis by blast
    qed
  qed
qed

lemma drain_total: "\<exists>r d'. drain bo w policy ft d = Some (r, d')"
proof (induction d rule: drain_induct [of _ w policy ft])
  case (frame d apdu n r d')
  then show ?case by (cases "r = D_Ok True") (simp_all add: drain_frame)
qed (simp_all add: drain_stop)

lemma drain_residue:
  "drain bo w policy ft d = Some (D_Ok True, d') \<Longrightarrow> Codec_decode_slice bo (rx_buf d') = Ok None"
proof (induction d rule: drain_induct [of _ w policy ft])
  case (frame d apdu n r d')
  then show ?case by (cases "r = D_Ok True") (simp_all add: drain_frame)
qed (simp_all add: drain_stop)

text \<open>What follows in the stream does not change what has been done with what came before.\<close>

lemma drain_append:
  assumes "drain bo w policy ft d = Some (r, d')"
  shows "drain bo w policy ft (d\<lparr> rx_buf := rx_buf d @ c \<rparr>) =
    (if r = D_Ok True then drain bo w policy ft (d'\<lparr> rx_buf := rx_buf d' @ c \<rparr>)
     else Some (r, d'\<lparr> rx_buf := rx_buf d' @ c \<rparr>))"
  using assms
proof (induction d rule: drain_induct [of _ w policy ft])
  case (none d)
  then show ?case by (auto simp: drain_stop)
next
  case (err d e)
  with decode_slice_mono [of bo "rx_buf d" c] show ?case
    by (auto simp: drain_stop)
next
  case (frame d apdu n r1 d1)
  from decode_slice_Some [OF frame(1)] have n: "n \<le> length (rx_buf d)" by simp
  have dec: "Codec_decode_slice bo (rx_buf (d\<lparr> rx_buf := rx_buf d @ c \<rparr>)) = Ok (Some (apdu, n))"
    using frame(1) decode_slice_mono [of bo "rx_buf d" c] by simp
  have "received apdu n (d\<lparr> rx_buf := rx_buf d @ c \<rparr>) = (received apdu n d)\<lparr> rx_buf := rx_buf d1 @ c \<rparr>"
    using n frame(3) by (simp add: received_def)
  with frame show ?case
    by (auto simp: drain_frame [OF dec] drain_frame [OF frame(1)] driver_handle_rx split: if_splits)
qed

end

section \<open>Runs\<close>

lemma driver_run_Cons:
  "driver_run bo w policy ft (x # xs) d = Some (s, d2) \<longleftrightarrow>
    (\<exists>s1 d1. driver_step bo w policy ft x d = Some (s1, d1) \<and>
      (if s1 = Running then driver_run bo w policy ft xs d1 = Some (s, d2) else s = s1 \<and> d2 = d1))"
  by (auto split: option.split prod.split Status.split)

lemma status_Running [simp]: "status_of r = Running \<longleftrightarrow> r = D_Ok True" "Running = status_of r \<longleftrightarrow> r = D_Ok True"
  by (cases r; auto simp: status_of_def split: driver_result.splits bool.splits)+

context bytes_crate
begin

lemma driver_step_total: "\<exists>s d'. driver_step bo w policy ft x d = Some (s, d')"
proof (cases x)
  case (Wake_Read c)
  then show ?thesis
    using drain_total [of w policy ft "d\<lparr> rx_buf := rx_buf d @ c \<rparr>"] by (auto simp: driver_step_def Let_def)
qed (auto simp: driver_step_def split_def Let_def split: option.split)

lemma driver_run_total: "\<exists>s d'. driver_run bo w policy ft xs d = Some (s, d')"
proof (induction xs arbitrary: d)
  case (Cons x xs)
  obtain s1 d1 where "driver_step bo w policy ft x d = Some (s1, d1)" using driver_step_total by blast
  with Cons [of d1] show ?case by (cases s1) auto
qed simp

text \<open>The overflow check of the read branch never fires.\<close>

lemma read_step:
  assumes "c \<noteq> []"
  shows "\<exists>r d'. drain bo w policy ft (d\<lparr> rx_buf := rx_buf d @ c \<rparr>) = Some (r, d') \<and>
    driver_step bo w policy ft (Wake_Read c) d = Some (status_of r, d')"
proof -
  obtain r d' where d: "drain bo w policy ft (d\<lparr> rx_buf := rx_buf d @ c \<rparr>) = Some (r, d')" using drain_total by blast
  have "\<not> (r = D_Ok True \<and> length (rx_buf d') > MAX_RX_BUFFERED)"
  proof
    assume "r = D_Ok True \<and> length (rx_buf d') > MAX_RX_BUFFERED"
    moreover from this have "length (rx_buf d') \<le> 256" using d by (intro decode_slice_residue [OF drain_residue]) blast
    ultimately show False by (simp add: MAX_RX_BUFFERED_def)
  qed
  with d assms show ?thesis by (auto simp: driver_step_def)
qed

lemma step_residue:
  assumes "driver_step bo w policy ft x d = Some (Running, d')" and "length (rx_buf d) \<le> 256"
  shows "length (rx_buf d') \<le> 256"
proof (cases x)
  case (Wake_Read c)
  show ?thesis
  proof (cases "c = []")
    case False
    with read_step [of c w policy ft d] assms Wake_Read obtain r where
      "drain bo w policy ft (d\<lparr> rx_buf := rx_buf d @ c \<rparr>) = Some (r, d')" "status_of r = Running" by auto
    then have "drain bo w policy ft (d\<lparr> rx_buf := rx_buf d @ c \<rparr>) = Some (D_Ok True, d')" by simp
    then show ?thesis by (rule decode_slice_residue [OF drain_residue])
  qed (use assms Wake_Read in \<open>simp add: driver_step_def\<close>)
next
  case (Wake_Command cmd)
  with assms driver_handle_frame [of bo w policy ft "command_input (the cmd)" d] show ?thesis
    by (cases cmd) (auto simp: driver_step_def split_def Let_def simp del: driver_handle_frame)
next
  case Wake_Tick
  with assms driver_handle_frame [of bo w policy ft Tick d] show ?thesis
    by (auto simp: driver_step_def split_def Let_def simp del: driver_handle_frame)
qed (use assms in \<open>simp add: driver_step_def\<close>)

lemma run_residue:
  "driver_run bo w policy ft xs d = Some (Running, d') \<Longrightarrow> length (rx_buf d) \<le> 256 \<Longrightarrow> length (rx_buf d') \<le> 256"
proof (induction xs arbitrary: d)
  case (Cons x xs)
  then show ?case by (auto simp only: driver_run_Cons split: if_splits dest: step_residue)
qed simp

end

section \<open>What the driver lets through\<close>

definition header_admitted :: "AsduPolicy \<Rightarrow> Asdu \<Rightarrow> bool" where
  "header_admitted policy x \<longleftrightarrow>
     policy_allows policy (asdu_type_id x) (Cause_raw (cot_cause (asdu_cot x))) (case asdu_ca x of CommonAddress a \<Rightarrow> a)"

definition admits :: "bytes_api \<Rightarrow> AsduPolicy \<Rightarrow> octets \<Rightarrow> bool" where
  "admits bo policy x \<longleftrightarrow>
     (case Asdu_decode bo x AsduAddressing_IEC104 of Ok (h, _) \<Rightarrow> header_admitted policy h | _ \<Rightarrow> length x < 6)"

definition effect_ok :: "bytes_api \<Rightarrow> AsduPolicy \<Rightarrow> Effect \<Rightarrow> bool" where
  "effect_ok bo policy e \<longleftrightarrow>
     (case e of
        Hook (On_asdu_received x) \<Rightarrow> admits bo policy x
      | Hook (On_protocol_error (Message_Overflow n)) \<Rightarrow> False
      | Emit (Event_Asdu x) \<Rightarrow> admits bo policy x
      | Route ca x \<Rightarrow> header_admitted policy x \<and> 120 \<le> asdu_type_id x \<and> asdu_type_id x \<le> 126 \<and> ca = asdu_ca x
      | _ \<Rightarrow> True)"

lemma effect_ok_simps [simp]:
  "effect_ok bo p (Write b)" "effect_ok bo p (Hook (On_frame_sent a))" "effect_ok bo p (Hook (On_frame_received a))"
  "effect_ok bo p (Hook (On_state_changed s))" "effect_ok bo p (Emit (Event_StateChanged s))"
  "effect_ok bo p (Emit (Event_Closed c))" "effect_ok bo p (Hook (On_protocol_error (Message_Disconnect r)))"
  "effect_ok bo p (Hook (On_asdu_received x)) = admits bo p x" "effect_ok bo p (Emit (Event_Asdu x)) = admits bo p x"
  by (simp_all add: effect_ok_def)

context bytes_crate
begin

lemma passes_admits:
  assumes "\<not> (is_restrictive policy \<and> \<not> asdu_passes_policy x policy)"
  shows "admits bo policy x"
proof (cases "Asdu_decode bo x AsduAddressing_IEC104")
  case (Ok y)
  then show ?thesis using peek_is_header [of x "fst y" "snd y" policy] assms unrestricted_allows [of policy]
    by (cases y) (auto simp: admits_def header_admitted_def)
next
  case (Err e)
  have "Asdu_header_len AsduAddressing_IEC104 = 6"
    by (simp add: Asdu_header_len_def AsduAddressing_IEC104_def AsduAddressing_cot_len_def AsduAddressing_ca_len_def
      Cot_LEN_2_def Vsq_LEN_def)
  with Err Asdu_decode_long [of AsduAddressing_IEC104 x] show ?thesis by (force simp: admits_def)
next
  case Panic
  then show ?thesis using Asdu_decode_not_panic by blast
qed

lemma decode_type_id:
  assumes "Asdu_decode bo (t # x) a = Ok (h, rest)"
  shows "asdu_type_id h = t"
proof -
  have "Asdu_header_len a \<le> length (t # x)" using assms Asdu_decode_short [of "t # x" a] by force
  from Asdu_decode_long [OF this] assms have "Asdu_encode bo h [] a = t # x" by auto
  then show ?thesis by (simp add: Asdu_encode_wire header_wire_def)
qed

lemma routed_ok:
  assumes "admits bo policy asdu" and "is_file_transfer asdu" and "Asdu_decode bo asdu AsduAddressing_IEC104 = Ok (x, rest)"
  shows "effect_ok bo policy (Route (asdu_ca x) x)"
  using assms decode_type_id by (auto simp: admits_def effect_ok_def is_file_transfer_def split: list.splits)

lemma apply_ok:
  "list_all (effect_ok bo policy) tr \<Longrightarrow> list_all (effect_ok bo policy) (snd (apply_actions bo w policy ft acts kg tr))"
proof (induction acts arbitrary: kg tr)
  case (Cons a acts)
  show ?case
  proof (cases a)
    case (SendApdu apdu)
    have "list_all (effect_ok bo policy) (tr @ [Hook (On_frame_sent apdu), Write b])" for b
      using Cons.prems by auto
    from this Cons.IH [OF this] SendApdu Cons.prems show ?thesis
      by (auto simp: Let_def split: prod.splits outcome.splits option.splits)
  next
    case (DeliverAsdu asdu)
    let ?tr = "tr @ [Hook (On_asdu_received asdu)]"
    show ?thesis
    proof (cases "is_restrictive policy \<and> \<not> asdu_passes_policy asdu policy")
      case True
      with DeliverAsdu Cons show ?thesis by simp
    next
      case False
      from passes_admits [OF this] have ok: "admits bo policy asdu" .
      with Cons.prems have tr: "list_all (effect_ok bo policy) ?tr" by auto
      show ?thesis
      proof (cases "ft \<and> is_file_transfer asdu")
        case True
        have "list_all (effect_ok bo policy) (if ft_open w ?tr then ?tr @ [Route (asdu_ca x) x] else ?tr)"
          if "Asdu_decode bo asdu AsduAddressing_IEC104 = Ok (x, rest)" for x rest
          using tr routed_ok [OF ok _ that] True by auto
        with DeliverAsdu False True tr Cons.IH show ?thesis
          by (auto simp: Let_def split: outcome.splits)
      next
        case False2: False
        have "list_all (effect_ok bo policy) (send_event w (Event_Asdu asdu) ?tr)"
          using tr ok by (auto simp: send_event_def)
        with DeliverAsdu False False2 Cons.IH show ?thesis by (auto simp: Let_def)
      qed
    qed
  qed (use Cons in \<open>auto simp: Let_def send_event_def\<close>)
qed simp

lemma handle_ok:
  "driver_handle bo w policy ft i d = (r, d') \<Longrightarrow> list_all (effect_ok bo policy) (trace d) \<Longrightarrow>
    list_all (effect_ok bo policy) (trace d')"
  using apply_ok [of policy "trace d" w ft _ True]
  by (auto simp: driver_handle_def Let_def split: prod.splits) (metis snd_conv)

lemma drain_ok:
  "drain bo w policy ft d = Some (r, d') \<Longrightarrow> list_all (effect_ok bo policy) (trace d) \<Longrightarrow>
    list_all (effect_ok bo policy) (trace d')"
proof (induction d rule: drain_induct [of _ w policy ft])
  case (frame d apdu k r1 d1)
  have "list_all (effect_ok bo policy) (trace (received apdu k d))" using frame(6) by (auto simp: received_def)
  from handle_ok [OF frame(2) this] frame show ?case
    by (cases "r1 = D_Ok True") (simp_all add: drain_frame)
qed (simp_all add: drain_stop)

lemma step_ok:
  assumes "driver_step bo w policy ft x d = Some (s, d')" and "list_all (effect_ok bo policy) (trace d)"
  shows "list_all (effect_ok bo policy) (trace d')"
proof (cases x)
  case (Wake_Read c)
  show ?thesis
  proof (cases "c = []")
    case False
    with read_step [of c w policy ft d] assms(1) Wake_Read obtain r where
      "drain bo w policy ft (d\<lparr> rx_buf := rx_buf d @ c \<rparr>) = Some (r, d')" by auto
    from drain_ok [OF this] assms(2) show ?thesis by simp
  qed (use assms Wake_Read in \<open>auto simp: driver_step_def send_event_def split: if_splits\<close>)
next
  case (Wake_Command c)
  then show ?thesis using assms handle_ok [of w policy ft _ d _ d']
    by (auto simp: driver_step_def split: option.splits prod.splits)
next
  case Wake_Tick
  then show ?thesis using assms handle_ok [of w policy ft _ d _ d']
    by (auto simp: driver_step_def split: prod.splits)
qed (use assms in \<open>simp add: driver_step_def\<close>)

lemma run_ok:
  "driver_run bo w policy ft xs d = Some (s, d') \<Longrightarrow> list_all (effect_ok bo policy) (trace d) \<Longrightarrow>
    list_all (effect_ok bo policy) (trace d')"
proof (induction xs arbitrary: d)
  case (Cons x xs)
  from Cons.prems(1) obtain s1 d1 where step: "driver_step bo w policy ft x d = Some (s1, d1)"
    and rest: "if s1 = Running then driver_run bo w policy ft xs d1 = Some (s, d') else s = s1 \<and> d' = d1"
    unfolding driver_run_Cons by blast
  from step_ok [OF step Cons.prems(2)] Cons.IH [of d1] rest show ?case by (auto split: if_splits)
qed simp

end

end
