(* ===== verification/Driver_Delivery.thy ===== *)
theory Driver_Delivery
  imports Driver_Runs
begin

text \<open>
  A run of the driver is a run of the connection state machine: on the frames it has reassembled, with
  the octets of the frames it was asked to send, and with the ASDUs it was asked to deliver.  Two
  drivers joined by a byte stream therefore inherit the delivery guarantee of the state machine.
\<close>

section \<open>Every frame the state machine sends has 15-bit numbers\<close>

definition numbered :: "Connection \<Rightarrow> bool" where
  "numbered c \<longleftrightarrow> SeqNo_wf (send_next c) \<and> SeqNo_wf (recv_next c) \<and>
     (\<forall>apdu. SendApdu apdu \<in> set (actions c) \<longrightarrow> Input_wf (Input_Apdu apdu))"

lemma numbered_frame [simp]:
  "numbered (conn_state_update g c) = numbered c" "numbered (last_send_any_update h c) = numbered c"
  "numbered (last_recv_any_update h c) = numbered c" "numbered (last_recv_iframe_update h c) = numbered c"
  "numbered (test_sent_update h c) = numbered c" "numbered (unacked_recv_update u c) = numbered c"
  "numbered (pending_update p c) = numbered c" "numbered (sent_update q c) = numbered c"
  by (simp_all add: numbered_def)

lemma Input_wf_apdu [simp]:
  "Input_wf (Input_Apdu (I s r x)) \<longleftrightarrow> SeqNo_wf s \<and> SeqNo_wf r" "Input_wf (Input_Apdu (S r)) \<longleftrightarrow> SeqNo_wf r"
  "Input_wf (Input_Apdu (U f))"
  by (simp_all add: Input_wf_def)

lemma numbered_ops [simp]:
  "numbered c \<Longrightarrow> numbered (transition st c)" "numbered c \<Longrightarrow> numbered (emit_supervisory now c)"
  "numbered c \<Longrightarrow> numbered (emit_apdu (U f) c)" "numbered c \<Longrightarrow> numbered (protocol_error c)"
  "numbered c \<Longrightarrow> numbered (ack_timeout c)" "numbered c \<Longrightarrow> numbered (push_action (Disconnect d) c)"
  "numbered c \<Longrightarrow> numbered (push_action (DeliverAsdu x) c)" "numbered c \<Longrightarrow> numbered (send_iframe x now c)"
  "numbered c \<Longrightarrow> numbered (accept now c)"
  by (auto simp: conn_ops numbered_def send_iframe_def accept_def Let_def)

lemma numbered_flush [simp]: "numbered c \<Longrightarrow> numbered (flush_pending now c)"
proof (induction now c rule: flush_pending.induct)
  case (1 now c)
  then show ?case by (subst flush_pending.simps) (auto simp: Let_def)
qed

lemma numbered_acknowledge [simp]: "numbered c \<Longrightarrow> numbered (acknowledge nr now c)"
  by (simp add: acknowledge_def)

lemma numbered_dispatch: "numbered c \<Longrightarrow> numbered (conn_dispatch i now c)"
proof (cases i)
  case (Input_Apdu apdu)
  have "numbered c \<Longrightarrow> numbered (on_u_frame f now c)" for f c
    by (cases f; cases "conn_role c"; cases "conn_state c") (simp_all add: on_u_frame_def)
  moreover assume "numbered c"
  ultimately show ?thesis using Input_Apdu
    by (cases apdu) (simp_all add: conn_dispatch_def on_apdu_def on_i_frame_accept Let_def)
qed (simp_all add: conn_dispatch_def on_user_startdt_def on_user_stopdt_def on_user_send_def)

lemma handle_numbered:
  assumes "conn_inv c" and "SendApdu apdu \<in> set (snd (conn_handle i now c))"
  shows "Input_wf (Input_Apdu apdu)"
proof -
  from assms(1) have "numbered c" by (simp add: conn_inv_def conn_ok_def window_ok_def numbered_def)
  from numbered_dispatch [OF this] have "numbered (run_timers now (conn_dispatch i now c))"
    by (simp add: run_timers_def Let_def)
  with assms(2) show ?thesis by (simp add: numbered_def conn_handle_def Let_def)
qed

section \<open>What a trace shows\<close>

definition written :: "Effect list \<Rightarrow> octets" where
  "written tr = concat (map (\<lambda>e. case e of Write b \<Rightarrow> b | _ \<Rightarrow> []) tr)"

definition frames_received :: "Effect list \<Rightarrow> Apdu list" where
  "frames_received tr = concat (map (\<lambda>e. case e of Hook (On_frame_received a) \<Rightarrow> [a] | _ \<Rightarrow> []) tr)"

definition asdus_delivered :: "Effect list \<Rightarrow> octets list" where
  "asdus_delivered tr = concat (map (\<lambda>e. case e of Emit (Event_Asdu x) \<Rightarrow> [x] | _ \<Rightarrow> []) tr)"

definition apdus_out :: "Action list \<Rightarrow> Apdu list" where
  "apdus_out acts = concat (map (\<lambda>a. case a of SendApdu p \<Rightarrow> [p] | _ \<Rightarrow> []) acts)"

lemma trace_simps [simp]:
  "written [] = []" "written (xs @ ys) = written xs @ written ys" "written (Write b # tr) = b @ written tr"
  "written (Hook h # tr) = written tr" "written (Emit e # tr) = written tr" "written (Route ca z # tr) = written tr"
  "frames_received [] = []" "frames_received (xs @ ys) = frames_received xs @ frames_received ys"
  "frames_received (Write b # tr) = frames_received tr" "frames_received (Emit e # tr) = frames_received tr" "frames_received (Route ca z # tr) = frames_received tr"
  "frames_received (Hook (On_frame_received a) # tr) = a # frames_received tr" "frames_received (Hook (On_frame_sent a) # tr) = frames_received tr"
  "frames_received (Hook (On_asdu_received x) # tr) = frames_received tr" "frames_received (Hook (On_state_changed s) # tr) = frames_received tr"
  "frames_received (Hook (On_protocol_error m) # tr) = frames_received tr"
  "asdus_delivered [] = []" "asdus_delivered (xs @ ys) = asdus_delivered xs @ asdus_delivered ys"
  "asdus_delivered (Write b # tr) = asdus_delivered tr" "asdus_delivered (Hook h # tr) = asdus_delivered tr" "asdus_delivered (Route ca z # tr) = asdus_delivered tr"
  "asdus_delivered (Emit (Event_Asdu y) # tr) = y # asdus_delivered tr" "asdus_delivered (Emit (Event_StateChanged s) # tr) = asdus_delivered tr"
  "asdus_delivered (Emit (Event_Closed c) # tr) = asdus_delivered tr"
  "apdus_out [] = []" "apdus_out (SendApdu p # acts) = p # apdus_out acts" "apdus_out (DeliverAsdu x # acts) = apdus_out acts"
  "apdus_out (StateChanged s # acts) = apdus_out acts" "apdus_out (Disconnect d # acts) = apdus_out acts"
  "apdus_out (as @ bs) = apdus_out as @ apdus_out bs"
  by (simp_all add: written_def frames_received_def asdus_delivered_def apdus_out_def)

lemma send_event_simps [simp]:
  "written (send_event w e tr) = written tr" "frames_received (send_event w e tr) = frames_received tr"
  "asdus_delivered (send_event w (Event_StateChanged s) tr) = asdus_delivered tr"
  "asdus_delivered (send_event w (Event_Closed c) tr) = asdus_delivered tr"
  by (simp_all add: send_event_def)

section \<open>Applying actions\<close>

text \<open>A buffer that can take a whole APDU, as a growable one can.\<close>

definition roomy :: "bytes_api \<Rightarrow> bool" where
  "roomy bo \<longleftrightarrow> MAX_APDU_LEN \<le> remaining_mut bo []"

definition ships :: "Apdu list \<Rightarrow> bool \<Rightarrow> octets \<Rightarrow> bool" where
  "ships apdus all_sent bs \<longleftrightarrow>
     (\<exists>as. prefix as apdus \<and> list_all Apdu_wf as \<and> prefix bs (concat (map apdu_wire as)) \<and>
       (all_sent \<longrightarrow> as = apdus \<and> bs = concat (map apdu_wire as)))"

lemma ships_Nil [simp]: "ships apdus False []" "ships [] all_sent []"
  unfolding ships_def by (rule exI [of _ "[]"], simp)+

lemma ships_Cons: "Apdu_wf a \<Longrightarrow> ships apdus f bs \<Longrightarrow> ships (a # apdus) f (apdu_wire a @ bs)"
  unfolding ships_def by (elim exE, rule_tac x = "a # as" in exI) auto

lemma ships_cut: "Apdu_wf a \<Longrightarrow> ships (a # apdus) False (take n (apdu_wire a))"
  unfolding ships_def by (rule exI [of _ "[a]"]) (simp add: take_is_prefix)

lemma ships_append:
  "ships xs True bs \<Longrightarrow> ships ys f cs \<Longrightarrow> ships (xs @ ys) f (bs @ cs)"
  unfolding ships_def by (elim exE, rule_tac x = "as @ asa" in exI) auto

lemma ships_more: "ships xs False bs \<Longrightarrow> ships (xs @ ys) False bs"
  unfolding ships_def by (meson append_prefixD prefix_order.trans prefixI)

definition finished_ok :: "bool driver_result \<Rightarrow> bool" where
  "finished_ok r \<longleftrightarrow> (\<exists>b. r = D_Ok b)"

lemma finished_ok_simps [simp]: "finished_ok (D_Ok b)" "\<not> finished_ok (D_Err e)" "\<not> finished_ok D_Panic"
  by (simp_all add: finished_ok_def)

lemma apply_writes:
  assumes "bytes_crate bo" and "roomy bo" and "apply_actions bo w policy ft acts kg tr = (r, tr')"
    and "\<And>a. SendApdu a \<in> set acts \<Longrightarrow> Input_wf (Input_Apdu a)"
  shows "frames_received tr' = frames_received tr \<and>
    (\<exists>bs. written tr' = written tr @ bs \<and> ships (apdus_out acts) (finished_ok r) bs)"
  using assms
proof (induction bo w policy ft acts kg tr rule: apply_actions.induct)
  case (2 bo w policy ft apdu acts kg tr)
  let ?tr = "tr @ [Hook (On_frame_sent apdu)]"
  from 2(5) have num: "Input_wf (Input_Apdu apdu)" by simp
  show ?case
  proof (cases "Apdu_wf apdu")
    case True
    then have enc: "Codec_encode bo apdu [] = (Ok (length (apdu_wire apdu)), apdu_wire apdu)"
      using bytes_crate.Codec_encode_ok [OF 2(2) True, of "[]"] 2(3) by (simp add: roomy_def)
    show ?thesis
    proof (cases "write_fails w ?tr")
      case None
      with 2(4) enc have "apply_actions bo w policy ft acts kg (?tr @ [Write (apdu_wire apdu)]) = (r, tr')" by simp
      from 2(1) [OF refl enc [symmetric] refl None 2(2,3) this] 2(5) obtain bs
        where "frames_received tr' = frames_received tr"
          "written tr' = written tr @ apdu_wire apdu @ bs" "ships (apdus_out acts) (finished_ok r) bs"
        by auto
      with ships_Cons [OF True] show ?thesis by auto
    next
      case (Some n)
      with 2(4) enc ships_cut [OF True, of "apdus_out acts" n] show ?thesis by (auto simp: finished_ok_def)
    qed
  next
    case False
    with num have "Codec_encode bo apdu [] = (Err (AsduTooLong (case apdu of I _ _ x \<Rightarrow> length x | _ \<Rightarrow> 0) MAX_ASDU_LEN), [])"
      by (cases apdu) (auto simp: Apdu_wf_def Codec_encode_def)
    with 2(4) show ?thesis by (auto simp: finished_ok_def)
  qed
qed (auto simp: finished_ok_def Let_def split: if_splits outcome.splits)

text \<open>Once the application has dropped its receiver, it stays dropped.\<close>

definition closed_stays :: "World \<Rightarrow> bool" where
  "closed_stays w \<longleftrightarrow> (\<forall>t t'. prefix t t' \<and> events_open w t' \<longrightarrow> events_open w t)"

lemma closed_staysD: "closed_stays w \<Longrightarrow> \<not> events_open w t \<Longrightarrow> \<not> events_open w (t @ u)"
  unfolding closed_stays_def by (meson prefixI)

lemma apply_closed:
  assumes "closed_stays w" and "\<not> events_open w tr" and "apply_actions bo w policy ft acts kg tr = (r, tr')"
  shows "asdus_delivered tr' = asdus_delivered tr"
  using assms
proof (induction bo w policy ft acts kg tr rule: apply_actions.induct)
  case (2 bo w policy ft apdu acts kg tr)
  then show ?case using closed_staysD [OF 2(2,3)]
    by (auto simp: Let_def split: prod.splits outcome.splits option.splits)
qed (auto simp: Let_def send_event_def closed_staysD split: if_splits outcome.splits)

lemma apply_delivers:
  assumes "closed_stays w" and "\<not> is_restrictive policy" and "\<not> ft" and "apply_actions bo w policy ft acts kg tr = (r, tr')"
  shows "\<exists>ds. asdus_delivered tr' = asdus_delivered tr @ ds \<and> prefix ds (delivered acts) \<and>
    (r = D_Ok True \<longrightarrow> kg \<and> ds = delivered acts)"
  using assms
proof (induction bo w policy ft acts kg tr rule: apply_actions.induct)
  case (2 bo w policy ft apdu acts kg tr)
  then show ?case by (auto simp: Let_def split: prod.splits outcome.splits option.splits)
next
  case (3 bo w policy ft asdu acts kg tr)
  let ?tr = "tr @ [Hook (On_asdu_received asdu)]"
  show ?case
  proof (cases "events_open w ?tr")
    case True
    with 3 obtain ds where "asdus_delivered tr' = asdus_delivered tr @ asdu # ds" "prefix ds (delivered acts)"
      "r = D_Ok True \<longrightarrow> kg \<and> ds = delivered acts" by (auto simp: send_event_def)
    then show ?thesis by (intro exI [of _ "asdu # ds"]) simp
  next
    case False
    with 3 have "apply_actions bo w policy ft acts False ?tr = (r, tr')" by (simp add: send_event_def)
    moreover from 3(4) [OF _ refl _ 3(5-7)] False 3(5-8) have "r \<noteq> D_Ok True" by (auto simp: send_event_def)
    ultimately show ?thesis using apply_closed [OF 3(5) False] by (intro exI [of _ "[]"]) simp
  qed
qed (auto simp: Let_def)

section \<open>The driver simulates the state machine\<close>

definition apdus_in :: "(Input \<times> Instant) list \<Rightarrow> Apdu list" where
  "apdus_in ins = concat (map (\<lambda>(i, _). case i of Input_Apdu a \<Rightarrow> [a] | _ \<Rightarrow> []) ins)"

definition submits :: "Input \<Rightarrow> octets list" where
  "submits i = (case i of SendAsdu x \<Rightarrow> [x] | _ \<Rightarrow> [])"

definition announces :: "Input \<Rightarrow> Effect list" where
  "announces i = (case i of Input_Apdu a \<Rightarrow> [Hook (On_frame_received a)] | _ \<Rightarrow> [])"

definition permissive :: "World \<Rightarrow> AsduPolicy \<Rightarrow> bool \<Rightarrow> bool" where
  "permissive w policy ft \<longleftrightarrow> closed_stays w \<and> \<not> is_restrictive policy \<and> \<not> ft"

definition simulates :: "bool \<Rightarrow> Role \<Rightarrow> Config \<Rightarrow> octets list \<Rightarrow> bool \<Rightarrow> Driver \<Rightarrow> bool" where
  "simulates all_events role cfg subs running d \<longleftrightarrow>
     (\<exists>ins acts. conn_run ins (conn_new role cfg) = (drv_conn d, acts) \<and> (\<forall>(i, t) \<in> set ins. Input_wf i) \<and>
       apdus_in ins = frames_received (trace d) \<and> submitted ins = subs \<and>
       ships (apdus_out acts) running (written (trace d)) \<and>
       (all_events \<longrightarrow> prefix (asdus_delivered (trace d)) (delivered acts) \<and>
         (running \<longrightarrow> asdus_delivered (trace d) = delivered acts)))"

lemma conn_run_snoc:
  "conn_run (xs @ [x]) c =
    (let (c1, a1) = conn_run xs c; (c2, a2) = conn_handle (fst x) (snd x) c1 in (c2, a1 @ a2))"
  by (induction xs arbitrary: c) (simp_all add: split_def Let_def)

lemma simulates_rx [simp]: "simulates ev role cfg subs running (d\<lparr> rx_buf := b \<rparr>) = simulates ev role cfg subs running d"
  by (simp add: simulates_def)

lemma simulates_new: "simulates ev role cfg [] True (driver_new role cfg)"
  unfolding simulates_def
  by (rule exI [of _ "[]"]) (simp add: driver_new_def apdus_in_def submitted_def)

lemma ships_weaken: "ships apdus f bs \<Longrightarrow> ships apdus False bs"
  by (auto simp: ships_def)

lemma simulates_stop:
  assumes "simulates ev role cfg subs running d" and "written tr = written (trace d)"
    and "frames_received tr = frames_received (trace d)" and "asdus_delivered tr = asdus_delivered (trace d)"
  shows "simulates ev role cfg subs False (d\<lparr> trace := tr \<rparr>)"
  using assms unfolding simulates_def by (auto intro: ships_weaken)

lemma simulates_handle:
  assumes bo: "bytes_crate bo" "roomy bo" and ev: "ev \<Longrightarrow> permissive w policy ft"
    and sim: "simulates ev role cfg subs True d" and wf: "Input_wf i"
    and h: "driver_handle bo w policy ft i (d\<lparr> trace := trace d @ announces i \<rparr>) = (r, d')"
  shows "simulates ev role cfg (subs @ submits i) (r = D_Ok True) d'"
proof -
  from sim obtain ins acts where run: "conn_run ins (conn_new role cfg) = (drv_conn d, acts)"
      and ins: "\<forall>(i, t) \<in> set ins. Input_wf i" "apdus_in ins = frames_received (trace d)" "submitted ins = subs"
      and out: "ships (apdus_out acts) True (written (trace d))"
      and dl: "ev \<Longrightarrow> asdus_delivered (trace d) = delivered acts"
    unfolding simulates_def by blast
  let ?now = "clock w (clock_reads d)"
  obtain c acts1 where c: "conn_handle i ?now (drv_conn d) = (c, acts1)" by force
  obtain tr where a: "apply_actions bo w policy ft acts1 True (trace d @ announces i) = (r, tr)"
      and d': "drv_conn d' = c" "trace d' = tr"
    using h c by (auto simp: driver_handle_def Let_def split: prod.splits)
  have "conn_inv (drv_conn d)" using conn_run_inv [OF conn_new_inv ins(1), of role cfg] run by simp
  with c have num: "Input_wf (Input_Apdu a)" if "SendApdu a \<in> set acts1" for a
    using handle_numbered [of "drv_conn d" a i ?now] that by simp
  have ann: "frames_received (announces i) = apdus_in [(i, ?now)]" "written (announces i) = []"
      "asdus_delivered (announces i) = []"
    by (simp_all add: announces_def apdus_in_def split: Input.split)
  from apply_writes [OF bo a num] ann obtain bs where
    tr: "frames_received tr = frames_received (trace d) @ apdus_in [(i, ?now)]" "written tr = written (trace d) @ bs"
      "ships (apdus_out acts1) (finished_ok r) bs"
    by auto
  have ships: "ships (apdus_out (acts @ acts1)) (r = D_Ok True) (written tr)"
  proof (cases "r = D_Ok True")
    case True
    with tr ships_append [OF out] show ?thesis by simp
  next
    case False
    with tr ships_append [OF out ships_weaken [OF tr(3)]] show ?thesis by simp
  qed
  have deliv: "prefix (asdus_delivered tr) (delivered (acts @ acts1)) \<and>
      (r = D_Ok True \<longrightarrow> asdus_delivered tr = delivered (acts @ acts1))" if ev
    using apply_delivers [OF _ _ _ a] ev [OF that] dl [OF that] ann by (auto simp: permissive_def)
  show ?thesis
    unfolding simulates_def
  proof (intro exI conjI)
    show "conn_run (ins @ [(i, ?now)]) (conn_new role cfg) = (drv_conn d', acts @ acts1)"
      by (simp add: conn_run_snoc run c d')
    show "apdus_in (ins @ [(i, ?now)]) = frames_received (trace d')" using ins(2) tr(1) d' by (simp add: apdus_in_def)
    show "submitted (ins @ [(i, ?now)]) = subs @ submits i" using ins(3) by (simp add: submitted_def submits_def)
  qed (use ins wf ships deliv d' in auto)
qed

lemma simulates_drain:
  assumes bo: "bytes_crate bo" "roomy bo" and ev: "ev \<Longrightarrow> permissive w policy ft"
    and "simulates ev role cfg subs True d" and "drain bo w policy ft d = Some (r, d')"
  shows "simulates ev role cfg subs (r = D_Ok True) d'"
  using assms(4,5)
proof (induction d rule: bytes_crate.drain_induct [OF bo(1), of _ w policy ft, case_names none err frame])
  case (none d) then show ?case by (auto simp: bytes_crate.drain_stop [OF bo(1)])
next
  case (err d e)
  then show ?case using simulates_stop [OF err(2), of "trace d"] by (auto simp: bytes_crate.drain_stop [OF bo(1)])
next
  case (frame d apdu n r1 d1)
  have wf: "Input_wf (Input_Apdu apdu)"
    using bytes_crate.decode_slice_Some [OF bo(1) frame(1)] by (auto simp: Input_wf_def split: Apdu.splits)
  have rcv: "received apdu n d = (d\<lparr> rx_buf := drop n (rx_buf d) \<rparr>)\<lparr> trace := trace (d\<lparr> rx_buf := drop n (rx_buf d) \<rparr>) @ announces (Input_Apdu apdu) \<rparr>"
    by (simp add: received_def announces_def)
  have "simulates ev role cfg subs (r1 = D_Ok True) d1"
    using simulates_handle [OF bo ev _ wf frame(2) [unfolded rcv]] frame(5) by (simp add: submits_def)
  with frame show ?case
    by (cases "r1 = D_Ok True") (auto simp: bytes_crate.drain_frame [OF bo(1) frame(1)])
qed

definition commanded :: "Wake \<Rightarrow> octets list" where
  "commanded x = (case x of Wake_Command (Some (Command_SendAsdu asdu)) \<Rightarrow> [asdu] | _ \<Rightarrow> [])"

definition asdus_commanded :: "Wake list \<Rightarrow> octets list" where
  "asdus_commanded xs = concat (map commanded xs)"

lemma status_unit: "status_of r = s \<Longrightarrow> (s = Running) = (r = D_Ok True)"
  by auto

lemma simulates_step:
  assumes bo: "bytes_crate bo" "roomy bo" and ev: "ev \<Longrightarrow> permissive w policy ft"
    and sim: "simulates ev role cfg subs True d" and step: "driver_step bo w policy ft x d = Some (s, d')"
  shows "\<exists>subs'. prefix subs' (commanded x) \<and> (s = Running \<longrightarrow> subs' = commanded x) \<and>
    simulates ev role cfg (subs @ subs') (s = Running) d'"
proof (cases x)
  case (Wake_Command c)
  show ?thesis
  proof (cases c)
    case None
    with Wake_Command step simulates_stop [OF sim, of "trace d"] show ?thesis
      by (intro exI [of _ "[]"]) (auto simp: driver_step_def)
  next
    case (Some cmd)
    obtain r where h: "driver_handle bo w policy ft (command_input cmd) d = (r, d')" "status_of r = s"
      using step Wake_Command Some by (auto simp: driver_step_def split: prod.splits)
    have i: "announces (command_input cmd) = []" "Input_wf (command_input cmd)" "submits (command_input cmd) = commanded x"
      using Wake_Command Some
      by (cases cmd; simp add: announces_def command_input_def Input_wf_def submits_def commanded_def)+
    have "driver_handle bo w policy ft (command_input cmd) (d\<lparr> trace := trace d @ announces (command_input cmd) \<rparr>) = (r, d')"
      using h(1) i(1) by simp
    from simulates_handle [OF bo ev sim i(2) this] h(2) i(3) have "simulates ev role cfg (subs @ commanded x) (s = Running) d'"
      by auto
    then show ?thesis by blast
  qed
next
  case Wake_Tick
  obtain r where h: "driver_handle bo w policy ft Tick d = (r, d')" "status_of r = s"
    using step Wake_Tick by (auto simp: driver_step_def split: prod.splits)
  have "driver_handle bo w policy ft Tick (d\<lparr> trace := trace d @ announces Tick \<rparr>) = (r, d')" "Input_wf Tick"
    using h(1) by (simp_all add: announces_def Input_wf_def)
  from simulates_handle [OF bo ev sim this(2,1)] h(2) have "simulates ev role cfg (subs @ []) (s = Running) d'"
    by (auto simp: submits_def)
  with Wake_Tick show ?thesis by (intro exI [of _ "[]"]) (simp add: commanded_def)
next
  case (Wake_Read c)
  show ?thesis
  proof (cases "c = []")
    case True
    with step Wake_Read simulates_stop [OF sim, of "send_event w (Event_Closed None) (trace d)"] show ?thesis
      by (intro exI [of _ "[]"]) (auto simp: driver_step_def commanded_def)
  next
    case False
    then obtain r where r: "drain bo w policy ft (d\<lparr> rx_buf := rx_buf d @ c \<rparr>) = Some (r, d')" "status_of r = s"
      using bytes_crate.read_step [OF bo(1), of c w policy ft d] step Wake_Read by auto
    have "simulates ev role cfg subs True (d\<lparr> rx_buf := rx_buf d @ c \<rparr>)" using sim by simp
    from simulates_drain [OF bo ev this r(1)] r(2) Wake_Read show ?thesis
      by (intro exI [of _ "[]"]) (auto simp: commanded_def)
  qed
next
  case Wake_ReadFailed
  with step simulates_stop [OF sim, of "trace d"] show ?thesis
    by (intro exI [of _ "[]"]) (auto simp: driver_step_def commanded_def)
qed

lemma simulates_run:
  assumes bo: "bytes_crate bo" "roomy bo" and ev: "ev \<Longrightarrow> permissive w policy ft"
    and "simulates ev role cfg subs True d" and "driver_run bo w policy ft xs d = Some (s, d')"
  shows "\<exists>subs'. prefix subs' (asdus_commanded xs) \<and> simulates ev role cfg (subs @ subs') (s = Running) d'"
  using assms(4,5)
proof (induction xs arbitrary: d subs)
  case Nil
  then show ?case by (auto simp: asdus_commanded_def)
next
  case (Cons x xs)
  obtain s1 d1 where step: "driver_step bo w policy ft x d = Some (s1, d1)"
    and rest: "if s1 = Running then driver_run bo w policy ft xs d1 = Some (s, d') else s = s1 \<and> d' = d1"
    using Cons.prems(2) unfolding driver_run_Cons by blast
  from simulates_step [OF bo ev Cons.prems(1) step] obtain subs1 where
    s1: "prefix subs1 (commanded x)" "s1 = Running \<longrightarrow> subs1 = commanded x"
      "simulates ev role cfg (subs @ subs1) (s1 = Running) d1" by blast
  show ?case
  proof (cases "s1 = Running")
    case True
    with Cons.IH [of "subs @ subs1" d1] s1 rest obtain subs2 where
      "prefix subs2 (asdus_commanded xs)" "simulates ev role cfg (subs @ subs1 @ subs2) (s = Running) d'" by auto
    with s1 True show ?thesis by (intro exI [of _ "subs1 @ subs2"]) (simp add: asdus_commanded_def)
  next
    case False
    with s1 rest show ?thesis by (intro exI [of _ subs1]) (auto simp: asdus_commanded_def)
  qed
qed

section \<open>Reassembly\<close>

lemma apply_frames: "frames_received (snd (apply_actions bo w policy ft acts kg tr)) = frames_received tr"
  by (induction bo w policy ft acts kg tr rule: apply_actions.induct)
    (auto simp: Let_def split: prod.splits outcome.splits option.splits)

lemma driver_handle_frames: "driver_handle bo w policy ft i d = (r, d') \<Longrightarrow>
    frames_received (trace d') = frames_received (trace d) \<and> rx_buf d' = rx_buf d"
  using apply_frames [of bo w policy ft] driver_handle_frame [of bo w policy ft i d]
  by (auto simp: driver_handle_def Let_def split: prod.splits) (metis snd_conv)

text \<open>The frames received so far, the octets buffered and those still to come are the stream of a list of APDUs.\<close>

definition parsing :: "Apdu list \<Rightarrow> octets \<Rightarrow> Driver \<Rightarrow> bool" where
  "parsing as future d \<longleftrightarrow>
     (\<exists>rest. as = frames_received (trace d) @ rest \<and> prefix (rx_buf d @ future) (concat (map apdu_wire rest)))"

lemma stream_head:
  assumes bo: "bytes_crate bo" and "list_all Apdu_wf rest" and "prefix (buf @ future) (concat (map apdu_wire rest))"
    and dec: "Codec_decode_slice bo buf = Ok (Some (apdu, n))"
  obtains rest' where "rest = apdu # rest'" "prefix (drop n buf @ future) (concat (map apdu_wire rest'))"
proof (cases rest)
  case Nil
  with assms(3) dec show ?thesis by (simp add: Codec_decode_slice_def)
next
  case (Cons a rest')
  with assms(2,3) have a: "Apdu_wf a" "prefix (buf @ future) (apdu_wire a @ concat (map apdu_wire rest'))" by simp_all
  then obtain z where "apdu_wire a @ concat (map apdu_wire rest') = buf @ future @ z" by (auto simp: prefix_def)
  from iffD1 [OF append_eq_append_conv2 this]
  consider us where "apdu_wire a @ us = buf" "concat (map apdu_wire rest') = us @ future @ z"
    | us where "apdu_wire a = buf @ us" "us \<noteq> []"
    by (metis append_Nil append_Nil2)
  then show ?thesis
  proof cases
    case 1
    with bytes_crate.decode_slice_wire [OF bo a(1), of us] dec have "apdu = a" "n = length (apdu_wire a)" by auto
    with that Cons 1 show ?thesis by auto
  next
    case 2
    then have "take (length buf) (apdu_wire a) = buf" "length buf < length (apdu_wire a)" by simp_all
    with bytes_crate.decode_slice_prefix [OF bo a(1), of "length buf"] dec show ?thesis by simp
  qed
qed

lemma parsing_drain:
  assumes bo: "bytes_crate bo" and "list_all Apdu_wf as" and "parsing as future d" and "drain bo w policy ft d = Some (r, d')"
  shows "parsing as future d'"
  using assms(3,4)
proof (induction d rule: bytes_crate.drain_induct [OF bo, of _ w policy ft, case_names none err frame])
  case (frame d apdu n r1 d1)
  from frame(5) obtain rest where rest: "as = frames_received (trace d) @ rest" "prefix (rx_buf d @ future) (concat (map apdu_wire rest))"
    unfolding parsing_def by blast
  with assms(2) have "list_all Apdu_wf rest" by simp
  from stream_head [OF bo this rest(2) frame(1)] obtain rest' where
    "rest = apdu # rest'" "prefix (drop n (rx_buf d) @ future) (concat (map apdu_wire rest'))" .
  moreover have "frames_received (trace d1) = frames_received (trace d) @ [apdu]" "rx_buf d1 = drop n (rx_buf d)"
    using driver_handle_frames [OF frame(2)] by (simp_all add: received_def)
  ultimately have "parsing as future d1" using rest(1) unfolding parsing_def by (intro exI [of _ rest']) simp
  with frame show ?case
    by (cases "r1 = D_Ok True") (auto simp: bytes_crate.drain_frame [OF bo frame(1)])
qed (auto simp: bytes_crate.drain_stop [OF bo])

definition bytes_read :: "Wake list \<Rightarrow> octets" where
  "bytes_read xs = concat (map (\<lambda>x. case x of Wake_Read c \<Rightarrow> c | _ \<Rightarrow> []) xs)"

lemma parsing_frame:
  "frames_received (trace d') = frames_received (trace d) \<Longrightarrow> rx_buf d' = rx_buf d \<Longrightarrow> parsing as future d' = parsing as future d"
  by (simp add: parsing_def)

lemma parsing_step:
  assumes bo: "bytes_crate bo" and "list_all Apdu_wf as" and "parsing as (bytes_read [x] @ future) d"
    and step: "driver_step bo w policy ft x d = Some (s, d')"
  shows "parsing as future d'"
proof (cases x)
  case (Wake_Read c)
  show ?thesis
  proof (cases "c = []")
    case True
    with assms Wake_Read show ?thesis by (auto simp: driver_step_def bytes_read_def parsing_def)
  next
    case False
    then obtain r where "drain bo w policy ft (d\<lparr> rx_buf := rx_buf d @ c \<rparr>) = Some (r, d')"
      using bytes_crate.read_step [OF bo, of c w policy ft d] step Wake_Read by auto
    moreover have "parsing as future (d\<lparr> rx_buf := rx_buf d @ c \<rparr>)"
      using assms(3) Wake_Read by (simp add: parsing_def bytes_read_def)
    ultimately show ?thesis using parsing_drain [OF bo assms(2)] by blast
  qed
next
  case (Wake_Command c)
  with step obtain i r where "driver_handle bo w policy ft i d = (r, d') \<or> d' = d"
    by (auto simp: driver_step_def split: option.splits prod.splits)
  with assms(3) Wake_Command show ?thesis
    using parsing_frame [of d' d] driver_handle_frames [of bo w policy ft i d r d'] by (auto simp: bytes_read_def)
next
  case Wake_Tick
  with step obtain r where "driver_handle bo w policy ft Tick d = (r, d')"
    by (auto simp: driver_step_def split: prod.splits)
  with assms(3) Wake_Tick show ?thesis
    using parsing_frame [of d' d] driver_handle_frames [of bo w policy ft Tick d r d'] by (auto simp: bytes_read_def)
qed (use assms in \<open>simp add: driver_step_def bytes_read_def\<close>)

lemma parsing_run:
  assumes bo: "bytes_crate bo" and "list_all Apdu_wf as" and "parsing as (bytes_read xs) d"
    and "driver_run bo w policy ft xs d = Some (s, d')"
  shows "prefix (frames_received (trace d')) as"
proof -
  have "\<exists>future. parsing as future d'"
    using assms(3,4)
  proof (induction xs arbitrary: d)
    case (Cons x xs)
    obtain s1 d1 where step: "driver_step bo w policy ft x d = Some (s1, d1)"
      and rest: "if s1 = Running then driver_run bo w policy ft xs d1 = Some (s, d') else s = s1 \<and> d' = d1"
      using Cons.prems(2) unfolding driver_run_Cons by blast
    have "parsing as (bytes_read [x] @ bytes_read xs) d" using Cons.prems(1) by (simp add: bytes_read_def)
    from parsing_step [OF bo assms(2) this step] have "parsing as (bytes_read xs) d1" .
    with Cons.IH [of d1] rest show ?case by (auto split: if_splits)
  qed auto
  then show ?thesis by (auto simp: parsing_def)
qed

section \<open>Two drivers and a stream between them\<close>

definition data_frames :: "Apdu list \<Rightarrow> (SeqNo \<times> octets) list" where
  "data_frames as = concat (map (\<lambda>a. case a of I s _ x \<Rightarrow> [(s, x)] | _ \<Rightarrow> []) as)"

lemma data_frames_in: "iframes_in ins = data_frames (apdus_in ins)"
  by (induction ins) (auto simp: iframes_in_def apdus_in_def data_frames_def iframe_in_def split: Input.split Apdu.split)

lemma data_frames_out: "iframes_out acts = data_frames (apdus_out acts)"
  by (induction acts) (auto simp: iframes_out_def apdus_out_def data_frames_def iframe_of_def split: Action.split Apdu.split)

lemma data_frames_prefix: "prefix as bs \<Longrightarrow> prefix (data_frames as) (data_frames bs)"
  by (auto simp: data_frames_def prefix_def)

lemma drivers_deliver:
  assumes bo: "bytes_crate bo" "roomy bo"
    and a: "driver_run bo wa pa fta xs (driver_new role cfg) = Some (sa, a)"
    and b: "driver_run bo wb pb ftb ys (driver_new Client cfg') = Some (sb, b)"
    and stream: "prefix (bytes_read ys) (written (trace a))" and perm: "permissive wb pb ftb"
  shows "prefix (asdus_delivered (trace b)) (asdus_commanded xs)"
proof -
  from simulates_run [OF bo _ simulates_new a, of False] obtain subs insa actsa where
    subs: "prefix subs (asdus_commanded xs)" and sa: "submitted insa = subs"
    and ra: "conn_run insa (conn_new role cfg) = (drv_conn a, actsa)" "\<forall>(i, t) \<in> set insa. Input_wf i"
    and ships: "ships (apdus_out actsa) (sa = Running) (written (trace a))"
    unfolding simulates_def by auto
  from ships obtain as where as: "prefix as (apdus_out actsa)" "list_all Apdu_wf as"
    "prefix (written (trace a)) (concat (map apdu_wire as))" unfolding ships_def by blast
  from simulates_run [OF bo _ simulates_new b, of True] perm obtain insb actsb where
    rb: "conn_run insb (conn_new Client cfg') = (drv_conn b, actsb)" "\<forall>(i, t) \<in> set insb. Input_wf i"
    and inb: "apdus_in insb = frames_received (trace b)" and db: "prefix (asdus_delivered (trace b)) (delivered actsb)"
    unfolding simulates_def by auto
  have "parsing as (bytes_read ys) (driver_new Client cfg')"
    using prefix_order.trans [OF stream as(3)] by (simp add: parsing_def driver_new_def)
  from parsing_run [OF bo(1) as(2) this b] as(1) have "prefix (apdus_in insb) (apdus_out actsa)"
    unfolding inb by (rule prefix_order.trans)
  then have "prefix (iframes_in insb) (iframes_out actsa)"
    unfolding data_frames_in data_frames_out by (rule data_frames_prefix)
  with end_to_end_client [OF ra(2) rb(2), of role cfg cfg'] ra(1) rb(1) have "prefix (delivered actsb) (submitted insa)"
    by simp
  with db subs sa show ?thesis by (meson prefix_order.trans)
qed

end
