(* ===== verification/Driver101.thy ===== *)
theory Driver101
  imports Driver104 Link_Runs
begin

text \<open>
  The -101 driver task, \<^verbatim>\<open>crates/iec60870/src/driver101.rs\<close>, in the style of the -104 one: the locals
  \<^verbatim>\<open>conn\<close> and \<^verbatim>\<open>rx_buf\<close> are a record together with the trace of effects; the clock, write failures and
  the liveness of the event receiver are parameters.  Of the log lines the three of the receive branch
  are in the trace, because they tell a processed frame, a resynchronisation and an overflow apart.
\<close>

section \<open>Commands, events, effects\<close>

datatype Command101 = Command101_SendAsdu octets | ResetLink | RequestClass1 | RequestClass2

datatype DriverEvent101 =
    Event101_Asdu octets
  | Event101_LinkStateChanged LinkState
  | Event101_Closed "Reason option"

datatype Effect101 =
    Log_received Frame101
  | Log_resync nat nat
  | Log_overflow nat
  | Write101 octets
  | Emit101 DriverEvent101

record World101 =
  clock101 :: "nat \<Rightarrow> Instant"
  write_fails101 :: "Effect101 list \<Rightarrow> nat option"
  events_open101 :: "Effect101 list \<Rightarrow> bool"

definition MAX_RX_BUFFERED_101 :: nat where "MAX_RX_BUFFERED_101 = 1024"

definition FT12_START_BYTES :: "u8 list" where "FT12_START_BYTES = [0x10, 0x68, 0xE5, 0xA2]"

definition send_event101 :: "World101 \<Rightarrow> DriverEvent101 \<Rightarrow> Effect101 list \<Rightarrow> Effect101 list" where
  "send_event101 w e tr = (if events_open101 w tr then tr @ [Emit101 e] else tr)"

section \<open>Carrying out actions\<close>

fun apply_actions101 ::
    "bytes_api \<Rightarrow> World101 \<Rightarrow> LinkAddressSize \<Rightarrow> LinkAction list \<Rightarrow> bool \<Rightarrow> Effect101 list \<Rightarrow>
      bool driver_result \<times> Effect101 list" where
  "apply_actions101 bo w addr_size [] keep_going tr = (D_Ok keep_going, tr)"
| "apply_actions101 bo w addr_size (SendFrame frame # acts) keep_going tr =
     (case Codec101_encode bo frame [] addr_size of
        Ok (_, buf) \<Rightarrow>
          (case write_fails101 w tr of
             Some n \<Rightarrow> (D_Err Io_Error, tr @ [Write101 (take n buf)])
           | None \<Rightarrow> apply_actions101 bo w addr_size acts keep_going (tr @ [Write101 buf]))
      | _ \<Rightarrow> (D_Panic, tr))"
| "apply_actions101 bo w addr_size (Link_DeliverAsdu asdu # acts) keep_going tr =
     apply_actions101 bo w addr_size acts (keep_going \<and> events_open101 w tr) (send_event101 w (Event101_Asdu asdu) tr)"
| "apply_actions101 bo w addr_size (LinkStateChanged state # acts) keep_going tr =
     apply_actions101 bo w addr_size acts (keep_going \<and> events_open101 w tr)
       (send_event101 w (Event101_LinkStateChanged state) tr)"
| "apply_actions101 bo w addr_size (LinkError reason # acts) keep_going tr =
     apply_actions101 bo w addr_size acts False (send_event101 w (Event101_Closed (Some reason)) tr)"

section \<open>The task\<close>

record Driver101 =
  drv_link :: Link
  rx_buf101 :: octets
  clock_reads101 :: nat
  trace101 :: "Effect101 list"

definition driver101_new :: "LinkRole \<Rightarrow> LinkConfig \<Rightarrow> Driver101 outcome" where
  "driver101_new role config =
     and_then (link_new role Unbalanced config) (\<lambda>conn.
       Ok \<lparr> drv_link = conn, rx_buf101 = [], clock_reads101 = 0, trace101 = [] \<rparr>)"

definition driver101_handle ::
    "bytes_api \<Rightarrow> World101 \<Rightarrow> LinkAddressSize \<Rightarrow> LinkInput \<Rightarrow> Driver101 \<Rightarrow> bool driver_result \<times> Driver101" where
  "driver101_handle bo w addr_size input d =
     (case link_handle input (clock101 w (clock_reads101 d)) (drv_link d) of
        Ok (conn, acts) \<Rightarrow>
          (let (r, tr) = apply_actions101 bo w addr_size acts True (trace101 d)
           in (r, d\<lparr> drv_link := conn, clock_reads101 := Suc (clock_reads101 d), trace101 := tr \<rparr>))
      | _ \<Rightarrow> (D_Panic, d))"

text \<open>How far to skip after a decoding error: \<^verbatim>\<open>position\<close> over the octets after the first.\<close>

fun position :: "('a \<Rightarrow> bool) \<Rightarrow> 'a list \<Rightarrow> nat option" where
  "position P [] = None"
| "position P (x # xs) = (if P x then Some 0 else map_option Suc (position P xs))"

definition resync_skip :: "octets \<Rightarrow> nat" where
  "resync_skip buf =
     (if buf = [] then 0
      else case position (\<lambda>b. b \<in> set FT12_START_BYTES) (tl buf) of Some i \<Rightarrow> i + 1 | None \<Rightarrow> length buf)"

partial_function (option) drain101 ::
    "bytes_api \<Rightarrow> World101 \<Rightarrow> LinkAddressSize \<Rightarrow> Driver101 \<Rightarrow> (bool driver_result \<times> Driver101) option" where
  "drain101 bo w addr_size d =
     (case Codec101_decode_slice (rx_buf101 d) addr_size of
        Panic \<Rightarrow> Some (D_Panic, d)
      | Ok None \<Rightarrow> Some (D_Ok True, d)
      | Err e \<Rightarrow>
          (let skipped = resync_skip (rx_buf101 d)
           in case (if rx_buf101 d = [] then Ok [] else advance bo (rx_buf101 d) skipped) of
                Ok buf \<Rightarrow> Some (D_Ok True, d\<lparr> rx_buf101 := buf, trace101 := trace101 d @ [Log_resync skipped (length buf)] \<rparr>)
              | _ \<Rightarrow> Some (D_Panic, d))
      | Ok (Some (frame, consumed)) \<Rightarrow>
          (case advance bo (rx_buf101 d) consumed of
             Ok buf \<Rightarrow>
               (let d = d\<lparr> rx_buf101 := buf, trace101 := trace101 d @ [Log_received frame] \<rparr>;
                    (r, d) = driver101_handle bo w addr_size (FrameReceived frame) d
                in if r = D_Ok True then drain101 bo w addr_size d else Some (r, d))
           | _ \<Rightarrow> Some (D_Panic, d)))"

declare drain101.simps [code]

datatype Wake101 = Wake101_Command "Command101 option" | Wake101_Tick | Wake101_Read octets | Wake101_ReadFailed

definition command101_input :: "Command101 \<Rightarrow> LinkInput" where
  "command101_input cmd =
     (case cmd of
        Command101_SendAsdu asdu \<Rightarrow> SendUserData asdu
      | ResetLink \<Rightarrow> Do_ResetRemoteLink
      | RequestClass1 \<Rightarrow> Do_RequestUserDataClass1
      | RequestClass2 \<Rightarrow> Do_RequestUserDataClass2)"

definition driver101_step ::
    "bytes_api \<Rightarrow> World101 \<Rightarrow> LinkAddressSize \<Rightarrow> Wake101 \<Rightarrow> Driver101 \<Rightarrow> (Status \<times> Driver101) option" where
  "driver101_step bo w addr_size wake d =
     (case wake of
        Wake101_Command None \<Rightarrow> Some (Finished (D_Ok ()), d)
      | Wake101_Command (Some cmd) \<Rightarrow>
          (let (r, d) = driver101_handle bo w addr_size (command101_input cmd) d in Some (status_of r, d))
      | Wake101_Tick \<Rightarrow> (let (r, d) = driver101_handle bo w addr_size LinkInput_Tick d in Some (status_of r, d))
      | Wake101_ReadFailed \<Rightarrow> Some (Finished (D_Err Io_Error), d)
      | Wake101_Read octets \<Rightarrow>
          (if octets = [] then
             Some (Finished (D_Ok ()), d\<lparr> trace101 := send_event101 w (Event101_Closed None) (trace101 d) \<rparr>)
           else
             (case drain101 bo w addr_size (d\<lparr> rx_buf101 := rx_buf101 d @ octets \<rparr>) of
                None \<Rightarrow> None
              | Some (r, d) \<Rightarrow>
                  (if r = D_Ok True \<and> length (rx_buf101 d) > MAX_RX_BUFFERED_101 then
                     (let tr = trace101 d @ [Log_overflow (length (rx_buf101 d))]
                      in Some (Finished (D_Err Io_Error), d\<lparr> trace101 := send_event101 w (Event101_Closed None) tr \<rparr>))
                   else Some (status_of r, d)))))"

fun driver101_run ::
    "bytes_api \<Rightarrow> World101 \<Rightarrow> LinkAddressSize \<Rightarrow> Wake101 list \<Rightarrow> Driver101 \<Rightarrow> (Status \<times> Driver101) option" where
  "driver101_run bo w addr_size [] d = Some (Running, d)"
| "driver101_run bo w addr_size (wake # wakes) d =
     (case driver101_step bo w addr_size wake d of
        None \<Rightarrow> None
      | Some (Running, d) \<Rightarrow> driver101_run bo w addr_size wakes d
      | Some (Finished r, d) \<Rightarrow> Some (Finished r, d))"

section \<open>The receive loop\<close>

lemma position_Some: "position P xs = Some i \<longleftrightarrow> i < length xs \<and> P (xs ! i) \<and> (\<forall>j < i. \<not> P (xs ! j))"
proof (induction xs arbitrary: i)
  case (Cons x xs)
  show ?case
    by (cases i) (auto simp: Cons.IH less_Suc_eq_0_disj)
qed simp

lemma position_None: "position P xs = None \<longleftrightarrow> (\<forall>x \<in> set xs. \<not> P x)"
  by (induction xs) auto

lemma resync_dropWhile:
  assumes "buf \<noteq> []"
  shows "resync_skip buf \<le> length buf \<and> 0 < resync_skip buf \<and>
    drop (resync_skip buf) buf = dropWhile (\<lambda>b. b \<notin> set FT12_START_BYTES) (tl buf)"
proof -
  let ?P = "\<lambda>b. b \<in> set FT12_START_BYTES"
  have "case position ?P xs of
      Some i \<Rightarrow> i < length xs \<and> drop i xs = dropWhile (\<lambda>b. \<not> ?P b) xs
    | None \<Rightarrow> dropWhile (\<lambda>b. \<not> ?P b) xs = []" for xs
    by (induction xs) (auto split: option.splits)
  from this [of "tl buf"] assms show ?thesis
    by (cases buf) (auto simp: resync_skip_def eq_commute [of "[]"] split: option.splits)
qed

definition received101 :: "Frame101 \<Rightarrow> nat \<Rightarrow> Driver101 \<Rightarrow> Driver101" where
  "received101 frame n d = d\<lparr> rx_buf101 := drop n (rx_buf101 d), trace101 := trace101 d @ [Log_received frame] \<rparr>"

definition resynced :: "Driver101 \<Rightarrow> Driver101" where
  "resynced d =
     (let buf = dropWhile (\<lambda>b. b \<notin> set FT12_START_BYTES) (tl (rx_buf101 d))
      in d\<lparr> rx_buf101 := buf, trace101 := trace101 d @ [Log_resync (length (rx_buf101 d) - length buf) (length buf)] \<rparr>)"

lemma driver101_handle_frame: "rx_buf101 (snd (driver101_handle bo w sz i d)) = rx_buf101 d"
  by (auto simp: driver101_handle_def split_def Let_def split: outcome.splits)

lemma decode101_nonempty: "Codec101_decode_slice buf sz = Err e \<Longrightarrow> buf \<noteq> []"
  by (auto simp: Codec101_decode_slice_def)

lemma ft12_wire_pos: "0 < length (ft12_wire sz frame)"
  by (cases frame) (simp_all add: Let_def)

context bytes_crate
begin

lemma drain101_none: "Codec101_decode_slice (rx_buf101 d) sz = Ok None \<Longrightarrow> drain101 bo w sz d = Some (D_Ok True, d)"
  by (simp add: drain101.simps)

lemma drain101_err:
  assumes "Codec101_decode_slice (rx_buf101 d) sz = Err e"
  shows "drain101 bo w sz d = Some (D_Ok True, resynced d)"
proof -
  from decode101_nonempty [OF assms] have ne: "rx_buf101 d \<noteq> []" .
  note r = resync_dropWhile [OF ne]
  then have "length (dropWhile (\<lambda>b. b \<notin> set FT12_START_BYTES) (tl (rx_buf101 d))) = length (rx_buf101 d) - resync_skip (rx_buf101 d)"
    by (metis length_drop)
  with assms ne r show ?thesis
    by (simp add: drain101.simps advance resynced_def Let_def)
qed

lemma drain101_frame:
  assumes "Codec101_decode_slice (rx_buf101 d) sz = Ok (Some (frame, n))"
  shows "drain101 bo w sz d =
    (case driver101_handle bo w sz (FrameReceived frame) (received101 frame n d) of
       (r, d') \<Rightarrow> if r = D_Ok True then drain101 bo w sz d' else Some (r, d'))"
  using assms decode_ft12_exact [OF assms] by (simp add: drain101.simps [of bo w sz d] advance received101_def Let_def)

lemma drain101_induct [case_names none err frame]:
  assumes none: "\<And>d. Codec101_decode_slice (rx_buf101 d) sz = Ok None \<Longrightarrow> P d"
    and err: "\<And>d e. Codec101_decode_slice (rx_buf101 d) sz = Err e \<Longrightarrow> P d"
    and frame: "\<And>d frame n r d'. Codec101_decode_slice (rx_buf101 d) sz = Ok (Some (frame, n)) \<Longrightarrow>
      driver101_handle bo w sz (FrameReceived frame) (received101 frame n d) = (r, d') \<Longrightarrow>
      rx_buf101 d' = drop n (rx_buf101 d) \<Longrightarrow> (r = D_Ok True \<Longrightarrow> P d') \<Longrightarrow> P d"
  shows "P d"
proof (induction "length (rx_buf101 d)" arbitrary: d rule: less_induct)
  case less
  consider "Codec101_decode_slice (rx_buf101 d) sz = Ok None" | e where "Codec101_decode_slice (rx_buf101 d) sz = Err e"
    | f n where "Codec101_decode_slice (rx_buf101 d) sz = Ok (Some (f, n))"
    using decode_ft12_not_panic [of "rx_buf101 d" sz] by (cases "Codec101_decode_slice (rx_buf101 d) sz") force+
  then show ?case
  proof cases
    case (3 f n)
    obtain r d' where h: "driver101_handle bo w sz (FrameReceived f) (received101 f n d) = (r, d')" by force
    then have rx: "rx_buf101 d' = drop n (rx_buf101 d)"
      using driver101_handle_frame [of bo w sz "FrameReceived f" "received101 f n d"] by (simp add: received101_def)
    from decode_ft12_exact [OF 3] have "n \<le> length (rx_buf101 d)" "take n (rx_buf101 d) = ft12_wire sz f" by blast+
    with ft12_wire_pos [of sz f] have "0 < n" by (cases n) auto
    with \<open>n \<le> length (rx_buf101 d)\<close> rx have "length (rx_buf101 d') < length (rx_buf101 d)" by simp
    with frame [OF 3 h rx] less show ?thesis by blast
  qed (use none err in blast)+
qed

lemma drain101_total: "\<exists>r d'. drain101 bo w sz d = Some (r, d')"
proof (induction d rule: drain101_induct [of sz _ w])
  case (frame d f n r d')
  then show ?case by (cases "r = D_Ok True") (simp_all add: drain101_frame)
qed (simp_all add: drain101_none drain101_err)

end

section \<open>A clean line\<close>

definition frames_logged :: "Effect101 list \<Rightarrow> Frame101 list" where
  "frames_logged tr = concat (map (\<lambda>e. case e of Log_received f \<Rightarrow> [f] | _ \<Rightarrow> []) tr)"

definition resyncs :: "Effect101 list \<Rightarrow> (nat \<times> nat) list" where
  "resyncs tr = concat (map (\<lambda>e. case e of Log_resync n m \<Rightarrow> [(n, m)] | _ \<Rightarrow> []) tr)"

lemma log_simps [simp]:
  "frames_logged [] = []" "frames_logged (xs @ ys) = frames_logged xs @ frames_logged ys"
  "frames_logged (Log_received f # tr) = f # frames_logged tr" "frames_logged (Log_resync n m # tr) = frames_logged tr"
  "frames_logged (Log_overflow n # tr) = frames_logged tr" "frames_logged (Write101 b # tr) = frames_logged tr"
  "frames_logged (Emit101 e # tr) = frames_logged tr"
  "resyncs [] = []" "resyncs (xs @ ys) = resyncs xs @ resyncs ys"
  "resyncs (Log_received f # tr) = resyncs tr" "resyncs (Log_resync n m # tr) = (n, m) # resyncs tr"
  "resyncs (Log_overflow n # tr) = resyncs tr" "resyncs (Write101 b # tr) = resyncs tr" "resyncs (Emit101 e # tr) = resyncs tr"
  by (simp_all add: frames_logged_def resyncs_def)

lemma send_event101_log [simp]:
  "frames_logged (send_event101 w e tr) = frames_logged tr" "resyncs (send_event101 w e tr) = resyncs tr"
  by (simp_all add: send_event101_def)

lemma apply101_log:
  "frames_logged (snd (apply_actions101 bo w sz acts kg tr)) = frames_logged tr \<and>
   resyncs (snd (apply_actions101 bo w sz acts kg tr)) = resyncs tr"
  by (induction bo w sz acts kg tr rule: apply_actions101.induct) (auto split: prod.splits outcome.splits option.splits)

lemma driver101_handle_log:
  "driver101_handle bo w sz i d = (r, d') \<Longrightarrow>
    frames_logged (trace101 d') = frames_logged (trace101 d) \<and> resyncs (trace101 d') = resyncs (trace101 d) \<and> rx_buf101 d' = rx_buf101 d"
  using apply101_log [of bo w sz _ True "trace101 d"]
  by (auto simp: driver101_handle_def Let_def split: prod.splits outcome.splits) (metis snd_conv)+

definition parsing101 :: "LinkAddressSize \<Rightarrow> Frame101 list \<Rightarrow> octets \<Rightarrow> Driver101 \<Rightarrow> bool" where
  "parsing101 sz fs future d \<longleftrightarrow> resyncs (trace101 d) = [] \<and>
     (\<exists>rest. fs = frames_logged (trace101 d) @ rest \<and> prefix (rx_buf101 d @ future) (concat (map (ft12_wire sz) rest)))"

lemma stream101_head:
  assumes "list_all (frame_fits sz) rest" and "prefix (buf @ future) (concat (map (ft12_wire sz) rest))"
  shows "Codec101_decode_slice buf sz = Ok None \<or>
    (\<exists>f rest'. Codec101_decode_slice buf sz = Ok (Some (f, length (ft12_wire sz f))) \<and> rest = f # rest' \<and>
      prefix (drop (length (ft12_wire sz f)) buf @ future) (concat (map (ft12_wire sz) rest')))"
proof (cases rest)
  case Nil
  with assms show ?thesis by (simp add: Codec101_decode_slice_def)
next
  case (Cons f rest')
  with assms have f: "frame_fits sz f" "prefix (buf @ future) (ft12_wire sz f @ concat (map (ft12_wire sz) rest'))" by simp_all
  then obtain z where "ft12_wire sz f @ concat (map (ft12_wire sz) rest') = buf @ future @ z" by (auto simp: prefix_def)
  from iffD1 [OF append_eq_append_conv2 this]
  consider us where "ft12_wire sz f @ us = buf" "concat (map (ft12_wire sz) rest') = us @ future @ z"
    | us where "ft12_wire sz f = buf @ us" "us \<noteq> []"
    by (metis append_Nil append_Nil2)
  then show ?thesis
  proof cases
    case 1
    with decode_ft12_wire [OF f(1), of us] Cons show ?thesis by auto
  next
    case 2
    then have "take (length buf) (ft12_wire sz f) = buf" "length buf < length (ft12_wire sz f)" by simp_all
    with decode_ft12_prefix [OF f(1), of "length buf"] show ?thesis by simp
  qed
qed

definition bytes_read101 :: "Wake101 list \<Rightarrow> octets" where
  "bytes_read101 xs = concat (map (\<lambda>x. case x of Wake101_Read c \<Rightarrow> c | _ \<Rightarrow> []) xs)"

context bytes_crate
begin

lemma parsing101_drain:
  assumes "list_all (frame_fits sz) fs" and "parsing101 sz fs future d" and "drain101 bo w sz d = Some (r, d')"
  shows "parsing101 sz fs future d' \<and> (r = D_Ok True \<longrightarrow> Codec101_decode_slice (rx_buf101 d') sz = Ok None)"
  using assms(2,3)
proof (induction d rule: drain101_induct [of sz _ w])
  case (none d) then show ?case by (auto simp: drain101_none)
next
  case (err d e)
  from err(2) assms(1) obtain rest where "list_all (frame_fits sz) rest" "prefix (rx_buf101 d @ future) (concat (map (ft12_wire sz) rest))"
    unfolding parsing101_def by (metis list_all_append)
  from stream101_head [OF this] err(1) show ?case by auto
next
  case (frame d f n r1 d1)
  from frame(5) assms(1) obtain rest where rest: "fs = frames_logged (trace101 d) @ rest" "list_all (frame_fits sz) rest"
      "prefix (rx_buf101 d @ future) (concat (map (ft12_wire sz) rest))" "resyncs (trace101 d) = []"
    unfolding parsing101_def by (metis list_all_append)
  from stream101_head [OF rest(2,3)] frame(1) obtain rest' where
    "rest = f # rest'" "prefix (drop n (rx_buf101 d) @ future) (concat (map (ft12_wire sz) rest'))" by auto
  moreover have "frames_logged (trace101 d1) = frames_logged (trace101 d) @ [f]" "resyncs (trace101 d1) = []"
    using driver101_handle_log [OF frame(2)] rest(4) by (simp_all add: received101_def)
  ultimately have "parsing101 sz fs future d1"
    using rest(1) frame(3) unfolding parsing101_def by (intro conjI exI [of _ rest']) simp_all
  with frame show ?case by (cases "r1 = D_Ok True") (auto simp: drain101_frame)
qed

end

lemma decode101_residue:
  assumes "Codec101_decode_slice buf sz = Ok None"
  shows "length buf \<le> 1024"
proof -
  have "unat (buf ! 1) \<le> 255" using unsigned_less [of "buf ! 1", where 'a = nat] by simp
  moreover have "LinkAddressSize_len sz \<le> 2" by (cases sz) (simp_all add: LinkAddressSize_len_def)
  ultimately show ?thesis using assms
    by (auto simp: Codec101_decode_slice_def decode_fixed_def decode_variable_def Let_def and_then_Ok_iff split: if_splits option.splits)
qed

lemma driver101_run_Cons:
  "driver101_run bo w sz (x # xs) d = Some (s, d2) \<longleftrightarrow>
    (\<exists>s1 d1. driver101_step bo w sz x d = Some (s1, d1) \<and>
      (if s1 = Running then driver101_run bo w sz xs d1 = Some (s, d2) else s = s1 \<and> d2 = d1))"
  by (auto split: option.split prod.split Status.split)

definition overflowed :: "Effect101 list \<Rightarrow> bool" where
  "overflowed tr \<longleftrightarrow> (\<exists>n. Log_overflow n \<in> set tr)"

lemma overflowed_simps [simp]:
  "\<not> overflowed []" "overflowed (xs @ ys) \<longleftrightarrow> overflowed xs \<or> overflowed ys" "overflowed (Log_received f # tr) = overflowed tr"
  "overflowed (Write101 b # tr) = overflowed tr" "overflowed (Log_resync n m # tr) = overflowed tr" "overflowed (Log_overflow n # tr)"
  "overflowed (send_event101 w e tr) = overflowed tr"
  by (auto simp: overflowed_def send_event101_def)

lemma apply101_overflow: "overflowed (snd (apply_actions101 bo w sz acts kg tr)) = overflowed tr"
  by (induction bo w sz acts kg tr rule: apply_actions101.induct) (auto split: prod.splits outcome.splits option.splits)

lemma driver101_handle_overflow: "driver101_handle bo w sz i d = (r, d') \<Longrightarrow> overflowed (trace101 d') = overflowed (trace101 d)"
  using apply101_overflow [of bo w sz _ True "trace101 d"]
  by (auto simp: driver101_handle_def Let_def split: prod.splits outcome.splits) (metis snd_conv)+

context bytes_crate
begin

lemma drain101_overflow:
  "drain101 bo w sz d = Some (r, d') \<Longrightarrow> overflowed (trace101 d') = overflowed (trace101 d)"
proof (induction d rule: drain101_induct [of sz _ w])
  case (frame d f n r1 d1)
  then show ?case using driver101_handle_overflow [OF frame(2)]
    by (cases "r1 = D_Ok True") (simp_all add: drain101_frame received101_def)
next
  case (err d e)
  then show ?case by (auto simp: drain101_err resynced_def Let_def overflowed_def)
qed (simp add: drain101_none)

lemma clean_step:
  assumes "list_all (frame_fits sz) fs" and p: "parsing101 sz fs (bytes_read101 [x] @ future) d"
    and "\<not> overflowed (trace101 d)" and step: "driver101_step bo w sz x d = Some (s, d')"
  shows "parsing101 sz fs future d' \<and> \<not> overflowed (trace101 d')"
proof -
  have same: ?thesis if "driver101_handle bo w sz i d = (r, d') \<or> d' = d" "bytes_read101 [x] = []" for i r
    using that p assms(3) driver101_handle_log [of bo w sz i d r d'] driver101_handle_overflow [of bo w sz i d r d']
    by (auto simp: parsing101_def)
  show ?thesis
  proof (cases x)
    case (Wake101_Read c)
    show ?thesis
    proof (cases "c = []")
      case True
      with step Wake101_Read have "d' = d\<lparr> trace101 := send_event101 w (Event101_Closed None) (trace101 d) \<rparr>"
        by (simp add: driver101_step_def)
      with p assms(3) True Wake101_Read show ?thesis by (simp add: parsing101_def bytes_read101_def)
    next
      case False
      obtain r e where e: "drain101 bo w sz (d\<lparr> rx_buf101 := rx_buf101 d @ c \<rparr>) = Some (r, e)"
        using drain101_total by blast
      have "parsing101 sz fs future (d\<lparr> rx_buf101 := rx_buf101 d @ c \<rparr>)"
        using p Wake101_Read by (simp add: parsing101_def bytes_read101_def)
      from parsing101_drain [OF assms(1) this e] drain101_overflow [OF e] assms(3)
      have e': "parsing101 sz fs future e" "\<not> overflowed (trace101 e)" "r = D_Ok True \<longrightarrow> length (rx_buf101 e) \<le> 1024"
        by (auto dest: decode101_residue)
      with step Wake101_Read False e have "d' = e" by (auto simp: driver101_step_def MAX_RX_BUFFERED_101_def split: if_splits)
      with e' show ?thesis by simp
    qed
  next
    case (Wake101_Command c)
    with step same show ?thesis
      by (auto simp: driver101_step_def bytes_read101_def split: option.splits prod.splits)
  next
    case Wake101_Tick
    with step same show ?thesis
      by (auto simp: driver101_step_def bytes_read101_def split: prod.splits)
  next
    case Wake101_ReadFailed
    with step same show ?thesis by (auto simp: driver101_step_def bytes_read101_def)
  qed
qed

lemma clean_run:
  assumes "list_all (frame_fits sz) fs" and "parsing101 sz fs (bytes_read101 xs) d" and "\<not> overflowed (trace101 d)"
    and "driver101_run bo w sz xs d = Some (s, d')"
  shows "\<exists>future. parsing101 sz fs future d' \<and> \<not> overflowed (trace101 d')"
  using assms(2-4)
proof (induction xs arbitrary: d)
  case (Cons x xs)
  obtain s1 d1 where step: "driver101_step bo w sz x d = Some (s1, d1)"
    and rest: "if s1 = Running then driver101_run bo w sz xs d1 = Some (s, d') else s = s1 \<and> d' = d1"
    using Cons.prems(3) unfolding driver101_run_Cons by blast
  have "parsing101 sz fs (bytes_read101 [x] @ bytes_read101 xs) d" using Cons.prems(1) by (simp add: bytes_read101_def)
  from clean_step [OF assms(1) this Cons.prems(2) step] Cons.IH [of d1] rest show ?case by (auto split: if_splits)
qed auto

lemma driver101_run_total: "\<exists>s d'. driver101_run bo w sz xs d = Some (s, d')"
proof (induction xs arbitrary: d)
  case (Cons x xs)
  have "\<exists>s1 d1. driver101_step bo w sz x d = Some (s1, d1)"
  proof (cases x)
    case (Wake101_Read c)
    then show ?thesis using drain101_total [of w sz "d\<lparr> rx_buf101 := rx_buf101 d @ c \<rparr>"]
      by (auto simp: driver101_step_def Let_def)
  qed (auto simp: driver101_step_def split_def Let_def split: option.split)
  then obtain s1 d1 where "driver101_step bo w sz x d = Some (s1, d1)" by blast
  with Cons [of d1] show ?case by (cases s1) auto
qed simp

end

end
