(* ===== verification/Driver_Properties.thy ===== *)
theory Driver_Properties
  imports Driver_Delivery Driver101
begin

text \<open>
  The guarantees of the driver tasks: for -104 delivery over a byte stream, independence of how the
  stream is cut, termination and bounds of the receive path, and enforcement of the ASDU policy; for
  -101 reassembly on a clean line and what noise does to it.
\<close>

section \<open>Delivery\<close>


definition demo_world :: World where
  "demo_world = \<lparr> clock = (\<lambda>n. n), write_fails = (\<lambda>_. None), events_open = (\<lambda>_. True), ft_open = (\<lambda>_. True) \<rparr>"

definition demo_bytes :: bytes_api where
  "demo_bytes = \<lparr>
     put_u8 = (\<lambda>buf x. buf @ [x]),
     put_u16_le = (\<lambda>buf w. buf @ u16_to_le_bytes w),
     put_i16_le = (\<lambda>buf w. buf @ u16_to_le_bytes w),
     put_i32_le = (\<lambda>buf v. buf @ u32_to_le_bytes v),
     put_f32_le = (\<lambda>buf v. buf @ u32_to_le_bytes v),
     put_slice = (\<lambda>buf xs. buf @ xs),
     remaining_mut = (\<lambda>buf. 300 - length buf),
     remaining = length,
     get_u8 = (\<lambda>buf. case buf of [] \<Rightarrow> Panic | a # r \<Rightarrow> Ok (a, r)),
     get_u16_le = (\<lambda>buf. case buf of a # b # r \<Rightarrow> Ok (u16_from_le_bytes a b, r) | _ \<Rightarrow> Panic),
     get_i16_le = (\<lambda>buf. case buf of a # b # r \<Rightarrow> Ok (u16_from_le_bytes a b, r) | _ \<Rightarrow> Panic),
     get_i32_le = (\<lambda>buf. case buf of a # b # c # d # r \<Rightarrow> Ok (u32_from_le_bytes a b c d, r) | _ \<Rightarrow> Panic),
     get_f32_le = (\<lambda>buf. case buf of a # b # c # d # r \<Rightarrow> Ok (u32_from_le_bytes a b c d, r) | _ \<Rightarrow> Panic),
     copy_to_slice = (\<lambda>buf n. if n \<le> length buf then Ok (take n buf, drop n buf) else Panic),
     advance = (\<lambda>buf n. if n \<le> length buf then Ok (drop n buf) else Panic) \<rparr>"

definition demo_timers :: Config where
  "demo_timers = \<lparr> cfg_k = 12, cfg_w = 8, cfg_t1 = 15, cfg_t2 = 10, cfg_t3 = 20 \<rparr>"

lemma demo_bytes_laws: "bytes_crate demo_bytes" "roomy demo_bytes"
proof -
  show "bytes_crate demo_bytes"
    by unfold_locales (auto simp: demo_bytes_def split: list.split)
qed (simp add: roomy_def demo_bytes_def MAX_APDU_LEN_def)


definition demo_reads :: "Wake list" where
  "demo_reads = [Wake_Command (Some Command_StartDt), Wake_Read [0x68, 4, 11, 0, 0, 0, 0x68], Wake_Tick,
     Wake_Read [6, 0, 0, 0, 0, 1, 2, 0x68, 5]]"

definition demo_driver :: "Role \<Rightarrow> Wake list \<Rightarrow> (Status \<times> Driver) option" where
  "demo_driver role xs = driver_run demo_bytes demo_world AsduPolicy_new False xs (driver_new role demo_timers)"



section \<open>The receive path\<close>

text \<open>
  C11. Reassembly does not depend on how the stream is cut: reading a list of non-empty chunks one after
  the other ends in the same status, connection state and effects (octets written, events, hooks) as
  reading them joined together; if the driver is still running the two driver states are equal.
\<close>
theorem reads_join:
  assumes "bytes_crate bo" and "cs \<noteq> []" and "\<forall>c \<in> set cs. c \<noteq> []"
    and "driver_run bo w policy ft (map Wake_Read cs) d = Some (s, d1)"
  shows "\<exists>d2. driver_run bo w policy ft [Wake_Read (concat cs)] d = Some (s, d2) \<and>
    drv_conn d2 = drv_conn d1 \<and> trace d2 = trace d1 \<and> (s = Running \<longrightarrow> d2 = d1)"
  using assms(2-4)
proof (induction cs arbitrary: d)
  case (Cons c cs)
  then have c: "c \<noteq> []" by simp
  from bytes_crate.read_step [OF assms(1) c, of w policy ft d] obtain r e where
    e: "drain bo w policy ft (d\<lparr> rx_buf := rx_buf d @ c \<rparr>) = Some (r, e)"
      "driver_step bo w policy ft (Wake_Read c) d = Some (status_of r, e)" by blast
  show ?case
  proof (cases "cs = []")
    case True
    with Cons.prems show ?thesis by (auto intro: exI [of _ d1])
  next
    case False
    have joined: "concat (c # cs) \<noteq> []" using c by simp
    from bytes_crate.read_step [OF assms(1) joined, of w policy ft d] obtain r2 e2 where
      e2: "drain bo w policy ft (d\<lparr> rx_buf := rx_buf d @ c @ concat cs \<rparr>) = Some (r2, e2)"
        "driver_step bo w policy ft (Wake_Read (concat (c # cs))) d = Some (status_of r2, e2)" by auto
    have one: "driver_run bo w policy ft [Wake_Read (concat (c # cs))] d = Some (status_of r2, e2)"
      using e2(2) by (cases "status_of r2") simp_all
    note app = bytes_crate.drain_append [OF assms(1) e(1), of "concat cs"]
    show ?thesis
    proof (cases "r = D_Ok True")
      case True
      with Cons.prems(3) e(2) have run: "driver_run bo w policy ft (map Wake_Read cs) e = Some (s, d1)"
        by (simp add: status_of_def)
      from Cons.IH [OF False _ this] Cons.prems(2) obtain d2 where
        d2: "driver_run bo w policy ft [Wake_Read (concat cs)] e = Some (s, d2)"
          "drv_conn d2 = drv_conn d1" "trace d2 = trace d1" "s = Running \<longrightarrow> d2 = d1" by auto
      have "concat cs \<noteq> []" using False Cons.prems(2) by (cases cs) auto
      from bytes_crate.read_step [OF assms(1) this, of w policy ft e] app True e2(1) have
        "driver_step bo w policy ft (Wake_Read (concat cs)) e = Some (status_of r2, e2)" by auto
      then have "driver_run bo w policy ft [Wake_Read (concat cs)] e = Some (status_of r2, e2)"
        by (cases "status_of r2") simp_all
      with d2 one show ?thesis by auto
    next
      case False
      with app e2(1) have r2: "r2 = r" "e2 = e\<lparr> rx_buf := rx_buf e @ concat cs \<rparr>" by auto
      from False have "status_of r \<noteq> Running" by simp
      with Cons.prems(3) e(2) have "s = status_of r" "d1 = e" by (auto split: Status.splits)
      with one r2 \<open>status_of r \<noteq> Running\<close> show ?thesis by (intro exI [of _ e2]) simp
    qed
  qed
qed simp

theorem reads_join_witness:
  "\<exists>s d1 d2. driver_run demo_bytes demo_world AsduPolicy_new False (map Wake_Read [[0x68], [4, 7, 0], [0, 0, 0x68]])
       (driver_new Server demo_timers) = Some (s, d1) \<and>
     driver_run demo_bytes demo_world AsduPolicy_new False [Wake_Read (concat [[0x68], [4, 7, 0], [0, 0, 0x68]])]
       (driver_new Server demo_timers) = Some (s, d2) \<and> trace d2 = trace d1"
proof -
  obtain s d1 where run: "driver_run demo_bytes demo_world AsduPolicy_new False (map Wake_Read [[0x68], [4, 7, 0], [0, 0, 0x68]])
       (driver_new Server demo_timers) = Some (s, d1)"
    using bytes_crate.driver_run_total [OF demo_bytes_laws(1)] by metis
  from reads_join [OF demo_bytes_laws(1) _ _ this] run show ?thesis by auto
qed

text \<open>
  C13. The driver never hangs in its receive loop: every run of wake-ups has a result. While it runs, at
  most 256 octets of an incomplete frame are buffered between wake-ups, so the limit of 4096 octets is
  never exceeded and the overflow message is never reported.
\<close>
theorem receive_path_bounded:
  assumes "bytes_crate bo"
  shows "\<exists>s d. driver_run bo w policy ft xs (driver_new role cfg) = Some (s, d) \<and>
    (s = Running \<longrightarrow> length (rx_buf d) \<le> 256) \<and> (\<forall>n. Hook (On_protocol_error (Message_Overflow n)) \<notin> set (trace d))"
proof -
  obtain s d where run: "driver_run bo w policy ft xs (driver_new role cfg) = Some (s, d)"
    using bytes_crate.driver_run_total [OF assms] by metis
  moreover have "length (rx_buf d) \<le> 256" if "s = Running"
    using bytes_crate.run_residue [OF assms run [unfolded that]] by (simp add: driver_new_def)
  moreover have "list_all (effect_ok bo policy) (trace d)"
    by (rule bytes_crate.run_ok [OF assms run]) (simp add: driver_new_def)
  then have "Hook (On_protocol_error (Message_Overflow n)) \<notin> set (trace d)" for n by (auto simp: list_all_iff effect_ok_def)
  ultimately show ?thesis by blast
qed

theorem receive_path_bounded_witness:
  "\<exists>s d. demo_driver Client demo_reads = Some (s, d) \<and> (s = Running \<longrightarrow> length (rx_buf d) \<le> 256)"
  using receive_path_bounded [OF demo_bytes_laws(1)] unfolding demo_driver_def by blast

section \<open>The policy\<close>






text \<open>
  Installing a file-transfer provider narrows some policies: when a policy restricts causes or
  common addresses but not the types, the widening that is meant to add the file-transfer types makes
  the type axis an allow-list of those types alone, so that every ASDU of any other type is rejected;
  a policy that does restrict the types keeps what it admitted and gains the file-transfer types on
  that axis.
\<close>
theorem widening_effect:
  assumes "is_restrictive policy"
  shows "(allowed_type_ids policy = None \<longrightarrow>
      (\<forall>t c a. policy_allows (widen_for_file_transfer policy) t c a \<longleftrightarrow>
        120 \<le> t \<and> t \<le> 126 \<and> policy_allows policy t c a)) \<and>
    (\<forall>types. allowed_type_ids policy = Some types \<longrightarrow>
      (\<forall>t c a. policy_allows (widen_for_file_transfer policy) t c a \<longleftrightarrow>
        policy_allows (policy\<lparr> allowed_type_ids := Some (types \<union> {120..126}) \<rparr>) t c a))"
  by (auto simp: widen_types [OF assms] policy_allows_axes get_or_insert_empty_def)

theorem widening_effect_witness:
  "policy_allows (allow_cause AsduPolicy_new Cause_SPONTANEOUS) 1 3 7 \<and>
   \<not> policy_allows (widen_for_file_transfer (allow_cause AsduPolicy_new Cause_SPONTANEOUS)) 1 3 7"
proof -
  let ?p = "allow_cause AsduPolicy_new Cause_SPONTANEOUS"
  have "is_restrictive ?p" "allowed_type_ids ?p = None" "policy_allows ?p 1 3 7"
    by (simp_all add: allow_cause_def AsduPolicy_new_def is_restrictive_def policy_allows_axes Cause_SPONTANEOUS_def
      get_or_insert_empty_def)
  moreover have "\<not> 120 \<le> (1 :: u8)" by (simp add: word_le_nat_alt)
  ultimately show ?thesis using widening_effect [of ?p] by blast
qed

section \<open>The -101 driver\<close>


definition demo_world101 :: World101 where
  "demo_world101 = \<lparr> clock101 = (\<lambda>n. n), write_fails101 = (\<lambda>_. None), events_open101 = (\<lambda>_. True) \<rparr>"

definition demo_line :: LinkConfig where
  "demo_line = \<lparr> lcfg_link_address = LinkAddress 1, lcfg_addr_size = LA_One, lcfg_timeout = 10, lcfg_max_retries = 3 \<rparr>"


text \<open>
  One octet of noise in front postpones everything behind it: whatever follows it in the same read,
  the driver only skips to the next possible start octet and hands nothing to the link layer, however
  many complete frames are there. If more than 1024 octets are left it closes the line with an overflow
  error, although none of them needs to be part of an incomplete frame.
\<close>
theorem noise_postpones:
  assumes "bytes_crate bo" and "rx_buf101 d = []" and "b \<notin> set FT12_START_BYTES"
    and "left = dropWhile (\<lambda>b. b \<notin> set FT12_START_BYTES) rest"
  shows "\<exists>d'. driver101_step bo w sz (Wake101_Read (b # rest)) d =
      Some (if 1024 < length left then Finished (D_Err Io_Error) else Running, d') \<and>
    drv_link d' = drv_link d \<and> rx_buf101 d' = left \<and> frames_logged (trace101 d') = frames_logged (trace101 d) \<and>
    overflowed (trace101 d') = (1024 < length left \<or> overflowed (trace101 d))"
proof -
  from assms(3) have "SingleChar_from_byte b = None" "b \<noteq> START_FIXED" "b \<noteq> START_VAR"
    by (auto simp: FT12_START_BYTES_def SingleChar_from_byte_def START_FIXED_def START_VAR_def)
  then have "Codec101_decode_slice (b # rest) sz = Err (InvalidStartByte START_FIXED b)"
    by (simp add: Codec101_decode_slice_def)
  then have "drain101 bo w sz (d\<lparr> rx_buf101 := b # rest \<rparr>) = Some (D_Ok True, resynced (d\<lparr> rx_buf101 := b # rest \<rparr>))"
    using bytes_crate.drain101_err [OF assms(1), of "d\<lparr> rx_buf101 := b # rest \<rparr>" sz] by simp
  with assms(2,4) show ?thesis
    by (auto simp: driver101_step_def resynced_def Let_def MAX_RX_BUFFERED_101_def status_of_def)
qed

theorem noise_postpones_witness:
  "\<exists>d0 d'. driver101_new Outstation demo_line = Ok d0 \<and>
     driver101_step demo_bytes demo_world101 LA_One (Wake101_Read (0 # [0x10, 0x49, 1, 0x4A, 0x16])) d0 = Some (Running, d') \<and>
     frames_logged (trace101 d') = [] \<and> rx_buf101 d' = [0x10, 0x49, 1, 0x4A, 0x16]"
proof -
  obtain d0 where d0: "driver101_new Outstation demo_line = Ok d0" "rx_buf101 d0 = []" "trace101 d0 = []"
    by (simp add: driver101_new_def link_new_def)
  have "0 \<notin> set FT12_START_BYTES"
    and "[0x10, 0x49, 1, 0x4A, 0x16] = dropWhile (\<lambda>b. b \<notin> set FT12_START_BYTES) [0x10, 0x49, 1, 0x4A, 0x16]"
    by code_simp+
  from noise_postpones [OF demo_bytes_laws(1) d0(2) this, of demo_world101 LA_One] d0 show ?thesis by auto
qed

end
