(* ===== verification/Fs_Time.thy ===== *)
theory Fs_Time
  imports Types_File "HOL-Library.Signed_Division"
begin

text \<open>
  Modification times of files, \<^verbatim>\<open>system_time_to_cp56\<close> and \<^verbatim>\<open>days_to_ymd\<close> of
  \<^verbatim>\<open>crates/iec60870/src/file_transfer/fs.rs\<close>, and the proof that they follow the Gregorian calendar.
  The calendar is the reference definition \<open>next_day\<close>: the day after a date, with the lengths of the
  months and the leap years written out.
\<close>

section \<open>The code\<close>

text \<open>
  The arithmetic of the code is 64-bit; it is written over the integers here, with \<^verbatim>\<open>/\<close> on signed
  numbers truncating towards zero. No intermediate value leaves its range: the unsigned subtractions
  are non-negative by \<open>days_to_ymd_unsigned\<close> below.
\<close>

definition days_to_ymd :: "int \<Rightarrow> i32 \<times> u8 \<times> u8 \<times> u8" where
  "days_to_ymd days =
     (let dow = of_int ((days + 3) mod 7 + 1);
          z = days + 719468;
          era = (if z \<ge> 0 then z else z - 146096) sdiv 146097;
          doe = z - era * 146097;
          yoe = (doe - doe div 1460 + doe div 36524 - doe div 146096) div 365;
          y = yoe + era * 400;
          doy = doe - (365 * yoe + yoe div 4 - yoe div 100);
          mp = (5 * doy + 2) div 153;
          d = of_int (doy - (153 * mp + 2) div 5 + 1);
          m = of_int (if mp < 10 then mp + 3 else mp - 9);
          y = (if m \<le> (2 :: u8) then y + 1 else y)
      in (of_int y, m, d, dow))"

text \<open>A \<^verbatim>\<open>SystemTime\<close> as the duration since the epoch in whole seconds and nanoseconds, \<open>None\<close> before it.\<close>

type_synonym SystemTime = "(nat \<times> nat) option"

definition Cp56Time2a_default :: Cp56Time2a where
  "Cp56Time2a_default =
     \<lparr> cp56_milliseconds = 0, cp56_minute = 0, cp56_hour = 0, cp56_day = 0, cp56_day_of_week = 0, cp56_month = 0,
       cp56_year = 0, cp56_summer_time = False, cp56_invalid = False, cp56_genuine = False \<rparr>"

definition system_time_to_cp56 :: "SystemTime \<Rightarrow> Cp56Time2a" where
  "system_time_to_cp56 t =
     (case t of
        None \<Rightarrow> Cp56Time2a_default
      | Some (total_secs, nanos) \<Rightarrow>
          (let millis_in_sec = of_nat (nanos div 1000000);
               days = total_secs div 86400;
               secs_of_day = total_secs mod 86400;
               hour = of_nat (secs_of_day div 3600);
               minute = of_nat (secs_of_day mod 3600 div 60);
               second = of_nat (secs_of_day mod 60) :: u8;
               millis = ucast second * 1000 + millis_in_sec;
               (year, month, day, day_of_week) = days_to_ymd (int days)
           in Cp56Time2a_default
                \<lparr> cp56_milliseconds := millis, cp56_minute := minute, cp56_hour := hour, cp56_day := day,
                  cp56_day_of_week := day_of_week, cp56_month := month, cp56_year := ucast (year mod 100) \<rparr>))"

section \<open>The reference calendar\<close>

type_synonym date = "int \<times> nat \<times> nat"

definition leap_year :: "int \<Rightarrow> bool" where
  "leap_year y \<longleftrightarrow> 4 dvd y \<and> (\<not> 100 dvd y \<or> 400 dvd y)"

definition month_length :: "bool \<Rightarrow> nat \<Rightarrow> nat" where
  "month_length leap m =
     (if m = 2 then if leap then 29 else 28 else if m \<in> {4, 6, 9, 11} then 30 else 31)"

fun next_day :: "date \<Rightarrow> date" where
  "next_day (y, m, d) =
     (if d < month_length (leap_year y) m then (y, m, Suc d)
      else if m < 12 then (y, Suc m, 1)
      else (y + 1, 1, 1))"

definition valid_date :: "date \<Rightarrow> bool" where
  "valid_date = (\<lambda>(y, m, d). 1 \<le> m \<and> m \<le> 12 \<and> 1 \<le> d \<and> d \<le> month_length (leap_year y) m)"

definition calendar :: "nat \<Rightarrow> date" where
  "calendar n = (next_day ^^ n) (1970, 1, 1)"

lemma next_day_valid: "valid_date x \<Longrightarrow> valid_date (next_day x)"
  by (cases x) (auto simp: valid_date_def month_length_def)

lemma calendar_valid: "valid_date (calendar n)"
  by (induction n) (simp_all add: calendar_def next_day_valid, simp add: valid_date_def month_length_def)

section \<open>Years that start in March\<close>

text \<open>
  The algorithm counts days in years that start in March, within eras of 400 years: \<open>year_start y\<close> is
  the first day of year \<open>y\<close> of an era, \<open>march_leap\<close> tells whether its last month has 29 days.
\<close>

definition year_start :: "int \<Rightarrow> int" where
  "year_start y = 365 * y + y div 4 - y div 100"

definition march_leap :: "int \<Rightarrow> bool" where
  "march_leap y \<longleftrightarrow> leap_year (y + 1)"

definition year_of_era :: "int \<Rightarrow> int" where
  "year_of_era doe = (doe - doe div 1460 + doe div 36524 - doe div 146096) div 365"

lemma dvd_once: "k dvd x \<longleftrightarrow> x = k" if "0 < x" "x \<le> k" for x k :: int
  using that zdvd_imp_le [of k x] by auto

lemma year_digits:
  fixes y :: int
  assumes "0 \<le> y" and "y < 400"
  obtains c q s where "y = 100 * c + 4 * q + s" "0 \<le> c" "c < 4" "0 \<le> q" "q < 25" "0 \<le> s" "s < 4"
proof
  have "y = 100 * (y div 100) + y mod 100" "y mod 100 = 4 * (y mod 100 div 4) + y mod 100 mod 4" by simp_all
  then show "y = 100 * (y div 100) + 4 * (y mod 100 div 4) + y mod 100 mod 4" by linarith
  have "0 \<le> y mod 100" "y mod 100 < 100" by simp_all
  then show "y mod 100 div 4 < 25" by linarith
qed (use assms in simp_all)

lemma digits_div:
  fixes c q s :: int
  assumes "0 \<le> q" "q < 25" "0 \<le> s" "s < 4"
  shows "(100 * c + 4 * q + s) div 4 = 25 * c + q" "(100 * c + 4 * q + s) div 100 = c"
proof -
  have "(100 * c + 4 * q + s) div 4 = (s + 4 * (25 * c + q)) div 4" by (simp add: algebra_simps)
  with assms show "(100 * c + 4 * q + s) div 4 = 25 * c + q" by (simp del: distrib_left_numeral)
  have "(100 * c + 4 * q + s) div 100 = (4 * q + s + 100 * c) div 100" by (simp add: algebra_simps)
  with assms show "(100 * c + 4 * q + s) div 100 = c" by simp
qed

lemma digits_leap:
  fixes c q s :: int
  assumes "0 \<le> c" "c < 4" "0 \<le> q" "q < 25" "0 \<le> s" "s < 4"
  shows "march_leap (100 * c + 4 * q + s) \<longleftrightarrow> s = 3 \<and> (q < 24 \<or> c = 3)"
proof -
  have "100 * c + 4 * q + s + 1 = s + 1 + 4 * (25 * c + q)" by simp
  then have "4 dvd 100 * c + 4 * q + s + 1 \<longleftrightarrow> 4 dvd s + 1" by (metis dvd_add_times_triv_right_iff mult.commute)
  also have "\<dots> \<longleftrightarrow> s = 3" using dvd_once [of "s + 1" 4] assms by auto
  finally have 4: "4 dvd 100 * c + 4 * q + s + 1 \<longleftrightarrow> s = 3" .
  have "100 * c + 4 * q + s + 1 = 4 * q + s + 1 + 100 * c" by simp
  then have "100 dvd 100 * c + 4 * q + s + 1 \<longleftrightarrow> 100 dvd 4 * q + s + 1" by (metis dvd_add_times_triv_right_iff mult.commute)
  also have "\<dots> \<longleftrightarrow> 4 * q + s + 1 = 100" using assms by (intro dvd_once) auto
  finally have 100: "100 dvd 100 * c + 4 * q + s + 1 \<longleftrightarrow> 4 * q + s + 1 = 100" .
  have 400: "400 dvd 100 * c + 4 * q + s + 1 \<longleftrightarrow> 100 * c + 4 * q + s + 1 = 400" using assms by (intro dvd_once) auto
  from assms show ?thesis unfolding march_leap_def leap_year_def 4 100 400 by auto
qed

definition year_length :: "int \<Rightarrow> int" where
  "year_length y = (if march_leap y then 366 else 365)"

lemma year_start_digits:
  fixes c q s :: int
  assumes "0 \<le> q" "q < 25" "0 \<le> s" "s < 4"
  shows "year_start (100 * c + 4 * q + s) = 36524 * c + 1461 * q + 365 * s"
  using digits_div [OF assms, of c] by (simp add: year_start_def algebra_simps)

lemma year_of_era_digits:
  fixes c q s r :: int
  assumes cqs: "0 \<le> c" "c < 4" "0 \<le> q" "q < 25" "0 \<le> s" "s < 4"
    and r: "0 \<le> r" "r < 365 \<or> r = 365 \<and> s = 3 \<and> (q < 24 \<or> c = 3)"
  shows "year_of_era (36524 * c + 1461 * q + 365 * s + r) = 100 * c + 4 * q + s"
proof -
  define doe rest where "doe = 36524 * c + 1461 * q + 365 * s + r" and "rest = 24 * c + q + 365 * s + r"
  have doe: "doe = rest + (25 * c + q) * 1460" by (simp add: doe_def rest_def)
  have a: "doe div 1460 = rest div 1460 + 25 * c + q" unfolding doe by simp
  have rest: "0 \<le> rest" "rest \<le> 1556" "1460 \<le> rest \<Longrightarrow> 269 \<le> r" "r = 365 \<Longrightarrow> 1460 \<le> rest"
    using cqs r by (auto simp: rest_def)
  have b: "doe div 36524 - doe div 146096 = c"
  proof (cases "doe = 146096")
    case True
    then have "c = 3" using cqs r by (auto simp: doe_def)
    with True show ?thesis by simp
  next
    case False
    have "doe < 146096" "0 \<le> doe" using cqs r False by (auto simp: doe_def)
    moreover have "doe div 36524 = c"
      by (rule int_div_pos_eq [of _ _ _ "doe - 36524 * c"]) (use cqs r False in \<open>auto simp: doe_def\<close>)
    ultimately show ?thesis by (simp add: div_pos_pos_trivial)
  qed
  have "doe - doe div 1460 + doe div 36524 - doe div 146096 = 365 * (100 * c + 4 * q + s) + (r - rest div 1460)"
    using a b by (simp add: doe_def)
  moreover have "rest div 1460 = (if 1460 \<le> rest then 1 else 0)"
    using rest(1,2) by (simp add: div_pos_pos_trivial int_div_pos_eq [of rest 1460 1 "rest - 1460"])
  then have "0 \<le> r - rest div 1460" "r - rest div 1460 < 365" using rest r by (auto split: if_splits)
  ultimately show ?thesis unfolding year_of_era_def doe_def [symmetric] by simp
qed

lemma year_of_era_start:
  assumes "0 \<le> y" "y < 400" "0 \<le> r" "r < year_length y"
  shows "year_of_era (year_start y + r) = y"
proof -
  from assms(1,2) obtain c q s where y: "y = 100 * c + 4 * q + s" and cqs: "0 \<le> c" "c < 4" "0 \<le> q" "q < 25" "0 \<le> s" "s < 4"
    by (rule year_digits)
  from assms(3,4) have "0 \<le> r" "r < 365 \<or> r = 365 \<and> s = 3 \<and> (q < 24 \<or> c = 3)"
    by (auto simp: y year_length_def digits_leap [OF cqs] split: if_splits)
  from year_of_era_digits [OF cqs this] show ?thesis unfolding y year_start_digits [OF cqs(3-6)] .
qed

lemma year_start_Suc:
  assumes "0 \<le> y" "y < 400"
  shows "year_start y + year_length y = (if y = 399 then 146097 else year_start (y + 1))"
proof -
  from assms obtain c q s where y: "y = 100 * c + 4 * q + s" and cqs: "0 \<le> c" "c < 4" "0 \<le> q" "q < 25" "0 \<le> s" "s < 4"
    by (rule year_digits)
  have len: "year_length y = (if s = 3 \<and> (q < 24 \<or> c = 3) then 366 else 365)"
    by (simp add: y year_length_def digits_leap [OF cqs])
  have start: "year_start y = 36524 * c + 1461 * q + 365 * s" by (simp add: y year_start_digits [OF cqs(3-6)])
  consider "s < 3" | "s = 3" "q < 24" | "s = 3" "q = 24" "c < 3" | "s = 3" "q = 24" "c = 3" using cqs by linarith
  then show ?thesis
  proof cases
    case 1
    with cqs have "y \<noteq> 399" and Suc: "y + 1 = 100 * c + 4 * q + (s + 1)" by (auto simp: y)
    moreover have "year_start (y + 1) = year_start y + 365"
      unfolding Suc start by (subst year_start_digits) (use 1 cqs in auto)
    ultimately show ?thesis using 1 len by simp
  next
    case 2
    with cqs have "y \<noteq> 399" and Suc: "y + 1 = 100 * c + 4 * (q + 1) + 0" by (auto simp: y)
    moreover have "year_start (y + 1) = year_start y + 366"
      unfolding Suc start by (subst year_start_digits) (use 2 cqs in auto)
    ultimately show ?thesis using 2 len by simp
  next
    case 3
    with cqs have "y \<noteq> 399" and Suc: "y + 1 = 100 * (c + 1) + 4 * 0 + 0" by (auto simp: y)
    moreover have "year_start (y + 1) = year_start y + 365"
      unfolding Suc start by (subst year_start_digits) (use 3 cqs in auto)
    ultimately show ?thesis using 3 len by simp
  next
    case 4
    then have "y = 399" by (simp add: y)
    with 4 show ?thesis using start len by simp
  qed
qed

text \<open>Every day of an era lies in one of its years.\<close>

lemma day_in_year:
  assumes "0 \<le> doe" and "doe < 146097"
  obtains y r where "doe = year_start y + r" "0 \<le> y" "y < 400" "0 \<le> r" "r < year_length y"
proof -
  have "\<exists>y r. int n = year_start y + r \<and> 0 \<le> y \<and> y < 400 \<and> 0 \<le> r \<and> r < year_length y" if "n < 146097" for n
    using that
  proof (induction n)
    case 0
    have "int 0 = year_start 0 + 0 \<and> 0 < year_length 0" by (simp add: year_start_def year_length_def)
    then show ?case by force
  next
    case (Suc n)
    then obtain y r where n: "int n = year_start y + r" "0 \<le> y" "y < 400" "0 \<le> r" "r < year_length y" by auto
    show ?case
    proof (cases "r + 1 < year_length y")
      case True
      with n show ?thesis by (intro exI [of _ y] exI [of _ "r + 1"]) auto
    next
      case False
      with n have "int (Suc n) = year_start y + year_length y" by simp
      with n Suc.prems have "int (Suc n) = year_start (y + 1) + 0" "y + 1 < 400"
        using year_start_Suc [OF n(2,3)] by (auto split: if_splits)
      with n show ?thesis by (intro exI [of _ "y + 1"] exI [of _ 0]) (simp add: year_length_def)
    qed
  qed
  moreover from assms have "nat doe < 146097" "int (nat doe) = doe" by simp_all
  ultimately show ?thesis using that by metis
qed

section \<open>Months\<close>

text \<open>The date in a year that starts in March; the last two months belong to the next calendar year.\<close>

definition month_start :: "int \<Rightarrow> int" where
  "month_start mp = (153 * mp + 2) div 5"

definition month_number :: "int \<Rightarrow> nat" where
  "month_number mp = nat (if mp < 10 then mp + 3 else mp - 9)"

definition march_date :: "int \<Rightarrow> int \<Rightarrow> date" where
  "march_date y doy =
     (let mp = (5 * doy + 2) div 153; m = month_number mp
      in (if m \<le> 2 then y + 1 else y, m, nat (doy - month_start mp + 1)))"

lemma month_iff: "(5 * doy + 2) div 153 = mp \<longleftrightarrow> month_start mp \<le> doy \<and> doy < month_start (mp + 1)"
proof -
  have "(5 * doy + 2) div 153 = mp \<longleftrightarrow> 153 * mp \<le> 5 * doy + 2 \<and> 5 * doy + 2 < 153 * mp + 153" by linarith
  moreover have "month_start mp \<le> doy \<longleftrightarrow> 153 * mp \<le> 5 * doy + 2" for mp unfolding month_start_def by linarith
  from this [of mp] this [of "mp + 1"] have "month_start mp \<le> doy \<longleftrightarrow> 153 * mp \<le> 5 * doy + 2"
    "doy < month_start (mp + 1) \<longleftrightarrow> 5 * doy + 2 < 153 * mp + 153" by (simp_all add: not_le [symmetric])
  ultimately show ?thesis by simp
qed

lemma month_start_less: "month_start mp < month_start (mp + 1)"
proof -
  have "(153 * mp + 2 + 5) div 5 \<le> (153 * (mp + 1) + 2) div 5" by (rule zdiv_mono1) simp_all
  then show ?thesis by (simp add: month_start_def)
qed

lemma month_lengths:
  assumes "0 \<le> mp" "mp \<le> 10"
  shows "month_start (mp + 1) = month_start mp + int (month_length leap (month_number mp))"
    "month_number (mp + 1) = (if month_number mp < 12 then Suc (month_number mp) else 1)" "month_number mp \<noteq> 2"
    "month_number mp \<le> 12" "1 \<le> month_number mp"
proof -
  from assms have "mp \<in> set [0..10]" by simp
  moreover have "set [0..10] = {0, 1, 2, 3, 4, 5, 6, 7, 8, 9, 10 :: int}" by code_simp
  ultimately have mp: "mp \<in> {0, 1, 2, 3, 4, 5, 6, 7, 8, 9, 10}" by blast
  show "month_start (mp + 1) = month_start mp + int (month_length leap (month_number mp))"
    using mp by (elim insertE) (simp_all add: month_start_def month_length_def month_number_def)
  show "month_number (mp + 1) = (if month_number mp < 12 then Suc (month_number mp) else 1)" "month_number mp \<noteq> 2"
    "month_number mp \<le> 12" "1 \<le> month_number mp"
    using mp by (elim insertE; simp add: month_number_def)+
qed

lemma month_range:
  fixes doy :: int
  assumes "0 \<le> doy" "doy < 366" "(5 * doy + 2) div 153 = mp"
  shows "0 \<le> mp" "mp \<le> 10 \<or> mp = 11"
  using assms by linarith+

lemma march_date_bounds:
  assumes "0 \<le> doy" "doy < 366" "march_date y doy = (y', m, d)"
  shows "1 \<le> m" "m \<le> 12" "1 \<le> d" "d \<le> 31"
proof -
  define mp where "mp = (5 * doy + 2) div 153"
  note mp = month_range [OF assms(1,2) mp_def [symmetric]]
  have span: "month_start mp \<le> doy" "doy < month_start (mp + 1)" using month_iff [of doy mp] mp_def by simp_all
  from assms(3) have m: "m = month_number mp" and d: "d = nat (doy - month_start mp + 1)"
    by (simp_all add: march_date_def Let_def mp_def)
  show "1 \<le> m" "m \<le> 12" using mp month_lengths(4,5) [of mp] by (auto simp: m month_number_def)
  show "1 \<le> d" using span by (simp add: d)
  have "month_start (mp + 1) \<le> month_start mp + 31"
    using mp month_lengths(1) [of mp True] by (auto simp: month_length_def month_start_def)
  with span show "d \<le> 31" by (simp add: d)
qed

lemma march_date_next:
  assumes "0 \<le> doy" and "doy + 1 < year_length y"
  shows "march_date y (doy + 1) = next_day (march_date y doy)"
proof -
  have doy: "doy + 1 < 366" "doy < 366" using assms by (auto simp: year_length_def split: if_splits)
  define mp where "mp = (5 * doy + 2) div 153"
  note mp = month_range [OF assms(1) doy(2) mp_def [symmetric]]
  have span: "month_start mp \<le> doy" "doy < month_start (mp + 1)" using month_iff [of doy mp] mp_def by simp_all
  have now: "march_date y doy = (if month_number mp \<le> 2 then y + 1 else y, month_number mp, nat (doy - month_start mp + 1))"
    by (simp add: march_date_def Let_def mp_def)
  show ?thesis
  proof (cases "doy + 1 < month_start (mp + 1)")
    case True
    with span have "(5 * (doy + 1) + 2) div 153 = mp" by (subst month_iff) simp
    then have after: "march_date y (doy + 1) =
        (if month_number mp \<le> 2 then y + 1 else y, month_number mp, Suc (nat (doy - month_start mp + 1)))"
      using span by (simp add: march_date_def Let_def Suc_nat_eq_nat_zadd1)
    have "nat (doy - month_start mp + 1) < month_length (leap_year (if month_number mp \<le> 2 then y + 1 else y)) (month_number mp)"
      using mp(2)
    proof
      assume "mp \<le> 10"
      with mp(1) True span show ?thesis
        using month_lengths(1) [of mp "leap_year (if month_number mp \<le> 2 then y + 1 else y)"]
        by (subst nat_less_iff) linarith+
    next
      assume "mp = 11"
      with assms(2) show ?thesis
        by (auto simp: month_number_def month_length_def month_start_def year_length_def march_leap_def split: if_splits)
    qed
    then show ?thesis by (simp only: now after next_day.simps if_True)
  next
    case False
    with span have Suc: "doy + 1 = month_start (mp + 1)" by simp
    with mp doy have le: "mp \<le> 10" by (auto simp: month_start_def)
    have "month_start (mp + 1) < month_start (mp + 1 + 1)" by (rule month_start_less)
    with Suc have "(5 * (doy + 1) + 2) div 153 = mp + 1" by (subst month_iff) simp
    then have after: "march_date y (doy + 1) =
        (if month_number (mp + 1) \<le> 2 then y + 1 else y, month_number (mp + 1), 1)"
      using Suc by (simp add: march_date_def Let_def)
    have last: "nat (doy - month_start mp + 1) = month_length leap (month_number mp)" for leap
      using month_lengths(1) [OF mp(1) le, of leap] Suc by simp
    show ?thesis unfolding now after next_day.simps last [of "leap_year (if month_number mp \<le> 2 then y + 1 else y)"]
      using month_lengths(2-5) [OF mp(1) le] by auto
  qed
qed

lemma march_date_first: "march_date y 0 = (y, 3, 1)"
  by (simp add: march_date_def month_number_def month_start_def)

lemma march_date_last: "next_day (march_date y (year_length y - 1)) = (y + 1, 3, 1)"
  by (cases "march_leap y")
    (simp_all add: march_date_def month_number_def month_start_def year_length_def march_leap_def month_length_def)

section \<open>The algorithm follows the calendar\<close>

definition civil :: "int \<Rightarrow> date" where
  "civil days =
     (let z = days + 719468; era = z div 146097; doe = z mod 146097; yoe = year_of_era doe
      in march_date (yoe + 400 * era) (doe - year_start yoe))"

lemma leap_year_era: "leap_year (y + 400 * era) = leap_year y"
proof -
  have "k dvd y + 400 * era \<longleftrightarrow> k dvd y" if "k dvd 400" for k :: int
    using that by (metis dvd_add_left_iff dvd_mult2)
  from this [of 4] this [of 100] this [of 400] show ?thesis by (simp add: leap_year_def)
qed

lemma year_length_era: "year_length (y + 400 * era) = year_length y"
  using leap_year_era [of "y + 1" era] by (simp add: year_length_def march_leap_def algebra_simps)

lemma civil_era:
  assumes "days + 719468 = 146097 * era + (year_start y + r)" "0 \<le> y" "y < 400" "0 \<le> r" "r < year_length y"
  shows "civil days = march_date (y + 400 * era) r"
proof -
  have "0 \<le> year_start y + r" using assms(2-4) unfolding year_start_def by linarith
  moreover have "year_start y + r < 146097"
    using year_start_Suc [OF assms(2,3)] assms(2,3,5) unfolding year_start_def by (auto split: if_splits)
  ultimately have "(days + 719468) div 146097 = era" "(days + 719468) mod 146097 = year_start y + r"
    unfolding assms(1) by simp_all
  then show ?thesis using year_of_era_start [OF assms(2-5)] by (simp add: civil_def Let_def)
qed

lemma civil_next: "civil (days + 1) = next_day (civil days)"
proof -
  let ?z = "days + 719468"
  obtain y r where yr: "?z mod 146097 = year_start y + r" "0 \<le> y" "y < 400" "0 \<le> r" "r < year_length y"
    by (rule day_in_year [of "?z mod 146097"]) auto
  define era where "era = ?z div 146097"
  have z: "?z = 146097 * era + (year_start y + r)" unfolding era_def yr(1) [symmetric] by simp
  have now: "civil days = march_date (y + 400 * era) r" by (rule civil_era [OF z yr(2-5)])
  show ?thesis
  proof (cases "r + 1 < year_length y")
    case True
    have "civil (days + 1) = march_date (y + 400 * era) (r + 1)"
      by (rule civil_era) (use z yr True in auto)
    also have "\<dots> = next_day (march_date (y + 400 * era) r)"
      by (rule march_date_next) (use yr True year_length_era in auto)
    finally show ?thesis by (simp add: now)
  next
    case False
    with yr have r: "r = year_length y - 1" by simp
    have "next_day (civil days) = (y + 400 * era + 1, 3, 1)"
      unfolding now r using march_date_last [of "y + 400 * era"] by (simp add: year_length_era)
    moreover have "civil (days + 1) = (y + 400 * era + 1, 3, 1)"
    proof (cases "y = 399")
      case True
      then have "days + 1 + 719468 = 146097 * (era + 1) + (year_start 0 + 0)"
        using z r year_start_Suc [of y] by (simp add: year_start_def)
      then have "civil (days + 1) = march_date (0 + 400 * (era + 1)) 0"
        by (rule civil_era) (simp_all add: year_length_def)
      with True show ?thesis by (simp add: march_date_first)
    next
      case False
      then have "days + 1 + 719468 = 146097 * era + (year_start (y + 1) + 0)"
        using z r yr year_start_Suc [of y] by simp
      then have "civil (days + 1) = march_date (y + 1 + 400 * era) 0"
        by (rule civil_era) (use yr False in \<open>simp_all add: year_length_def\<close>)
      then show ?thesis by (simp add: march_date_first)
    qed
    ultimately show ?thesis by simp
  qed
qed

lemma civil_calendar: "civil (int n) = calendar n"
proof (induction n)
  case 0
  have "civil 0 = march_date (369 + 400 * 4) 306"
    by (rule civil_era) (simp_all add: year_start_def year_length_def)
  then show ?case by (simp add: calendar_def march_date_def month_number_def month_start_def)
next
  case (Suc n)
  then show ?case using civil_next [of "int n"] by (simp add: calendar_def add.commute)
qed

lemma era_floor: "(if z \<ge> 0 then z else z - 146096) sdiv 146097 = z div 146097" for z :: int
proof (cases "z \<ge> 0")
  case False
  then have "(z - 146096) sdiv 146097 = - ((146096 - z) div 146097)" by (simp add: signed_divide_int_def)
  also have "\<dots> = z div 146097" by linarith
  finally show ?thesis using False by simp
qed (simp add: signed_divide_int_def sgn_if)

lemma civil_parts:
  obtains y r era where "days + 719468 = 146097 * era + (year_start y + r)" "0 \<le> y" "y < 400" "0 \<le> r" "r < year_length y"
proof -
  obtain y r where "(days + 719468) mod 146097 = year_start y + r" "0 \<le> y" "y < 400" "0 \<le> r" "r < year_length y"
    by (rule day_in_year [of "(days + 719468) mod 146097"]) auto
  then show ?thesis using that [of "(days + 719468) div 146097" y r] by (metis mult_div_mod_eq)
qed

lemma month_number_u8:
  assumes "0 \<le> mp" "mp \<le> 11"
  shows "(of_int (if mp < 10 then mp + 3 else mp - 9) :: u8) = of_nat (month_number mp)"
    "(of_nat (month_number mp) \<le> (2 :: u8)) = (month_number mp \<le> 2)"
proof -
  show "(of_int (if mp < 10 then mp + 3 else mp - 9) :: u8) = of_nat (month_number mp)"
    using assms by (simp add: month_number_def)
  have "month_number mp \<le> 12" using assms by (auto simp: month_number_def nat_le_iff)
  then show "(of_nat (month_number mp) \<le> (2 :: u8)) = (month_number mp \<le> 2)"
    by (simp add: word_le_nat_alt unsigned_of_nat take_bit_nat_eq_self)
qed

lemma days_to_ymd_civil:
  assumes "civil days = (y, m, d)"
  shows "days_to_ymd days = (of_int y, of_nat m, of_nat d, of_int ((days + 3) mod 7 + 1))"
proof -
  obtain yoe doy era where z: "days + 719468 = 146097 * era + (year_start yoe + doy)"
    and yr: "0 \<le> yoe" "yoe < 400" "0 \<le> doy" "doy < year_length yoe" by (rule civil_parts)
  define mp where "mp = (5 * doy + 2) div 153"
  have "doy < 366" using yr by (simp add: year_length_def split: if_splits)
  note mp = month_range [OF yr(3) this mp_def [symmetric]]
  have "0 \<le> year_start yoe + doy" using yr unfolding year_start_def by linarith
  moreover have "year_start yoe + doy < 146097"
    using year_start_Suc [OF yr(1,2)] yr unfolding year_start_def by (auto split: if_splits)
  ultimately have era: "(days + 719468) div 146097 = era" unfolding z by simp
  have doe: "days + 719468 - era * 146097 = year_start yoe + doy" using z by simp
  have yoe: "((year_start yoe + doy) - (year_start yoe + doy) div 1460 + (year_start yoe + doy) div 36524 -
      (year_start yoe + doy) div 146096) div 365 = yoe"
    using year_of_era_start [OF yr] by (simp add: year_of_era_def)
  have "month_start mp \<le> doy" using month_iff [of doy mp] mp_def by simp
  then have day: "(of_int (doy - (153 * mp + 2) div 5 + 1) :: u8) = of_nat (nat (doy - month_start mp + 1))"
    by (simp add: month_start_def)
  have "civil days = march_date (yoe + 400 * era) doy" by (rule civil_era [OF z yr])
  then have ymd: "y = (if month_number mp \<le> 2 then yoe + era * 400 + 1 else yoe + era * 400)" "m = month_number mp"
      "d = nat (doy - month_start mp + 1)"
    using assms by (simp_all add: march_date_def Let_def mp_def [symmetric] split: if_splits)
  have doy: "year_start yoe + doy - (365 * yoe + yoe div 4 - yoe div 100) = doy" by (simp add: year_start_def)
  have le: "mp \<le> 11" using mp(2) by linarith
  show ?thesis
    unfolding days_to_ymd_def Let_def era_floor era doe yoe doy mp_def [symmetric] month_number_u8 [OF mp(1) le] day ymd
    by (simp only: if_distrib [of of_int])
qed

text \<open>The subtractions on \<^verbatim>\<open>u64\<close> values: all operands and differences are non-negative.\<close>

lemma days_to_ymd_unsigned:
  fixes days :: int
  defines "doe \<equiv> (days + 719468) mod 146097"
  defines "yoe \<equiv> (doe - doe div 1460 + doe div 36524 - doe div 146096) div 365"
  defines "doy \<equiv> doe - (365 * yoe + yoe div 4 - yoe div 100)"
  shows "0 \<le> doe - doe div 1460" "0 \<le> doe - doe div 1460 + doe div 36524 - doe div 146096"
    "0 \<le> 365 * yoe + yoe div 4 - yoe div 100" "0 \<le> doy" "doy < 366" "0 \<le> doy - (153 * ((5 * doy + 2) div 153) + 2) div 5"
proof -
  have "0 \<le> doe" "doe < 146097" by (simp_all add: doe_def)
  then show "0 \<le> doe - doe div 1460" "0 \<le> doe - doe div 1460 + doe div 36524 - doe div 146096" by linarith+
  obtain y r where yr: "doe = year_start y + r" "0 \<le> y" "y < 400" "0 \<le> r" "r < year_length y"
    by (rule day_in_year [OF \<open>0 \<le> doe\<close> \<open>doe < 146097\<close>])
  then have y: "yoe = y" using year_of_era_start [OF yr(2-5)] by (simp add: yoe_def year_of_era_def)
  then show "0 \<le> 365 * yoe + yoe div 4 - yoe div 100" using yr(2) by linarith
  have "doy = r" using yr(1) by (simp add: doy_def y year_start_def)
  then show "0 \<le> doy" "doy < 366" using yr by (auto simp: year_length_def split: if_splits)
  show "0 \<le> doy - (153 * ((5 * doy + 2) div 153) + 2) div 5"
    using month_iff [of doy "(5 * doy + 2) div 153"] by (simp add: month_start_def)
qed

section \<open>Time tags\<close>

lemma calendar_bounds:
  assumes "calendar n = (y, m, d)"
  shows "1 \<le> m" "m \<le> 12" "1 \<le> d" "d \<le> 31"
  using calendar_valid [of n] assms by (auto simp: valid_date_def month_length_def split: if_splits)

lemma calendar_year:
  assumes "calendar n = (y, m, d)"
  shows "1970 \<le> y" "y \<le> 1970 + int n"
proof -
  have "1970 \<le> fst (calendar n) \<and> fst (calendar n) \<le> 1970 + int n"
  proof (induction n)
    case (Suc n)
    have "calendar (Suc n) = next_day (calendar n)" by (simp add: calendar_def)
    with Suc show ?case by (cases "calendar n") auto
  qed (simp add: calendar_def)
  with assms show "1970 \<le> y" "y \<le> 1970 + int n" by simp_all
qed

text \<open>
  The range in which the 32-bit year is exact: less than \<open>2 ^ 31 - 1970\<close> days, more than five million
  years.
\<close>

lemma u8_of_nat: "n < 256 \<Longrightarrow> unat (of_nat n :: u8) = n"
  by (simp add: unsigned_of_nat take_bit_nat_eq_self)

lemma cp56_calendar:
  assumes "calendar (secs div 86400) = (y, m, d)" and "secs div 86400 < 2 ^ 31 - 1970" and "nanos < 1000000000"
    and "x = system_time_to_cp56 (Some (secs, nanos))"
  shows "unat (cp56_year x) = nat (y mod 100)" "unat (cp56_month x) = m" "unat (cp56_day x) = d"
    "unat (cp56_day_of_week x) = (secs div 86400 + 3) mod 7 + 1"
    "unat (cp56_hour x) = secs mod 86400 div 3600" "unat (cp56_minute x) = secs mod 3600 div 60"
    "unat (cp56_milliseconds x) = secs mod 60 * 1000 + nanos div 1000000"
proof -
  let ?n = "secs div 86400"
  have ymd: "days_to_ymd (int ?n) = (of_int y, of_nat m, of_nat d, of_int ((int ?n + 3) mod 7 + 1))"
    by (rule days_to_ymd_civil) (use civil_calendar assms(1) in simp)
  note b = calendar_bounds [OF assms(1)] calendar_year [OF assms(1)]
  note x = assms(4) [unfolded system_time_to_cp56_def option.case prod.case Let_def ymd]
  show "unat (cp56_month x) = m" "unat (cp56_day x) = d"
    using b by (simp_all add: x unsigned_of_nat take_bit_nat_eq_self)
  have "(int ?n + 3) mod 7 + 1 = int ((?n + 3) mod 7 + 1)" by (simp add: of_nat_mod)
  then have "(of_int ((int ?n + 3) mod 7 + 1) :: u8) = of_nat ((?n + 3) mod 7 + 1)" by (metis of_int_of_nat_eq)
  moreover have "(?n + 3) mod 7 + 1 < 256" using mod_less_divisor [of 7 "?n + 3"] by linarith
  moreover have "cp56_day_of_week x = of_int ((int ?n + 3) mod 7 + 1)" by (simp add: x)
  ultimately show "unat (cp56_day_of_week x) = (?n + 3) mod 7 + 1" by (simp only: u8_of_nat)
  have "secs mod 86400 < 86400" "secs mod 3600 < 3600" "secs mod 60 < 60" by simp_all
  then have small: "secs mod 86400 div 3600 < 256" "secs mod 3600 div 60 < 256" "secs mod 60 < 256" by linarith+
  have mods: "secs mod 86400 mod 3600 = secs mod 3600" "secs mod 86400 mod 60 = secs mod 60"
    by (simp_all add: mod_mod_cancel)
  show "unat (cp56_hour x) = secs mod 86400 div 3600" "unat (cp56_minute x) = secs mod 3600 div 60"
    using small by (simp_all add: x mods u8_of_nat)
  have sec: "(ucast (of_nat (secs mod 60) :: u8) :: u16) = of_nat (secs mod 60)"
    using small by (intro word_unat_eq_iff [THEN iffD2]) (simp add: unsigned_ucast_eq unsigned_of_nat take_bit_nat_eq_self)
  have "cp56_milliseconds x = of_nat (secs mod 60 * 1000 + nanos div 1000000)" by (simp add: x mods sec)
  moreover have "nanos div 1000000 < 1000" using assms(3) by linarith
  then have "secs mod 60 * 1000 + nanos div 1000000 < 65536" using \<open>secs mod 60 < 60\<close> by linarith
  ultimately show "unat (cp56_milliseconds x) = secs mod 60 * 1000 + nanos div 1000000"
    by (simp only: unsigned_of_nat) (simp add: take_bit_nat_eq_self)
  have "(of_int y :: i32) = of_nat (nat y)" using b by simp
  moreover have "nat y < 2 ^ 31" using b assms(2) by simp
  ultimately have "(of_int y :: i32) mod 100 = of_nat (nat y mod 100)" by (simp add: word_arith_nat_mod unsigned_of_nat take_bit_nat_eq_self)
  moreover have "nat y mod 100 < 100" "nat (y mod 100) = nat y mod 100" using b by (simp_all add: nat_mod_distrib)
  ultimately show "unat (cp56_year x) = nat (y mod 100)"
    by (simp add: x unsigned_ucast_eq unsigned_of_nat take_bit_nat_eq_self)
qed

end
