(* ===== verification/Fs_Crc.thy ===== *)
theory Fs_Crc
  imports Iec_Prelude
begin

text \<open>
  The CRC that names files, \<^verbatim>\<open>crc16_ibm\<close> and its table in
  \<^verbatim>\<open>crates/iec60870/src/file_transfer/fs.rs\<close>, against a shift register that consumes single bits.
\<close>

section \<open>CRC-16/IBM\<close>

fun crc_entry_loop :: "nat \<Rightarrow> u16 \<Rightarrow> u16" where
  "crc_entry_loop 0 c = c"
| "crc_entry_loop (Suc j) c =
     crc_entry_loop j (if c AND 1 \<noteq> 0 then drop_bit 1 c XOR 0xA001 else drop_bit 1 c)"

definition CRC16_IBM_TABLE :: "u16 list" where
  "CRC16_IBM_TABLE = map (\<lambda>i. crc_entry_loop 8 (of_nat i)) [0..<256]"

definition crc16_ibm :: "octets \<Rightarrow> u16" where
  "crc16_ibm data = foldl (\<lambda>crc b. drop_bit 8 crc XOR CRC16_IBM_TABLE ! unat (ucast crc XOR b)) 0 data"

text \<open>
  Reference: the shift register of the reflected polynomial, one bit at a time, each octet's least
  significant bit first.
\<close>

definition crc_bit :: "u16 \<Rightarrow> bool \<Rightarrow> u16" where
  "crc_bit crc b = (let c = drop_bit 1 crc in if bit crc 0 \<noteq> b then c XOR 0xA001 else c)"

definition octet_bits :: "u8 \<Rightarrow> bool list" where
  "octet_bits b = map (bit b) [0..<8]"

definition crc_bits :: "octets \<Rightarrow> u16" where
  "crc_bits data = foldl crc_bit 0 (concat (map octet_bits data))"

lemma crc_entry_linear:
  "crc_entry_loop j (a XOR b) = crc_entry_loop j a XOR crc_entry_loop j b"
proof (induction j arbitrary: a b)
  case (Suc j)
  have odd: "c AND 1 \<noteq> 0 \<longleftrightarrow> bit c 0" for c :: u16 by (simp add: and_one_eq bit_0 odd_iff_mod_2_eq_one)
  have "(if (a XOR b) AND 1 \<noteq> 0 then drop_bit 1 (a XOR b) XOR 0xA001 else drop_bit 1 (a XOR b)) =
    (if a AND 1 \<noteq> 0 then drop_bit 1 a XOR 0xA001 else drop_bit 1 a) XOR
    (if b AND 1 \<noteq> 0 then drop_bit 1 b XOR 0xA001 else drop_bit 1 b)"
    by (auto simp: odd bit_simps intro!: bit_word_eqI)
  then show ?case by (simp add: Suc.IH)
qed simp

lemma crc_entry_shift: "\<forall>i < n. \<not> bit c i \<Longrightarrow> crc_entry_loop n c = drop_bit n c"
proof (induction n arbitrary: c)
  case (Suc n)
  from Suc.prems have "\<not> bit c 0" by simp
  then have "c AND 1 = 0" by (simp add: and_one_eq bit_0 odd_iff_mod_2_eq_one)
  moreover from Suc.prems have "\<forall>i < n. \<not> bit (drop_bit 1 c) i" by (simp add: bit_simps)
  ultimately show ?case using Suc.IH by (simp add: drop_bit_drop_bit)
qed simp

lemma u16_push_drop: "drop_bit n (push_bit n (drop_bit n (c :: u16))) = drop_bit n c"
proof (rule bit_word_eqI)
  fix i
  show "bit (drop_bit n (push_bit n (drop_bit n c))) i = bit (drop_bit n c) i"
    using bit_imp_le_length [of c "n + i"] by (auto simp: bit_simps)
qed

lemma crc_octet:
  fixes crc :: u16 and b :: u8
  shows "drop_bit 8 crc XOR CRC16_IBM_TABLE ! unat (ucast crc XOR b) = crc_entry_loop 8 (crc XOR ucast b)"
proof -
  let ?lo = "ucast (ucast crc XOR b :: u8) :: u16" and ?hi = "push_bit 8 (drop_bit 8 crc)"
  have "unat (ucast crc XOR b) < 256" using unsigned_less [of "ucast crc XOR b"] by simp
  then have "CRC16_IBM_TABLE ! unat (ucast crc XOR b) = crc_entry_loop 8 ?lo"
    by (simp add: CRC16_IBM_TABLE_def unsigned_of_nat unsigned_ucast_eq take_bit_nat_eq_self_iff)
  moreover have "crc_entry_loop 8 ?hi = drop_bit 8 crc"
    by (subst crc_entry_shift) (auto simp: bit_simps u16_push_drop)
  moreover have "crc XOR ucast b = ?hi XOR ?lo"
    by (rule bit_word_eqI) (auto simp: bit_simps)
  ultimately show ?thesis by (simp add: crc_entry_linear)
qed

lemma crc_bit_entry: "crc_entry_loop (Suc n) (c XOR of_bool b) = crc_entry_loop n (crc_bit c b)"
proof -
  have "(c XOR of_bool b) AND 1 \<noteq> 0 \<longleftrightarrow> odd c \<noteq> b"
    using bit_0 [of "c XOR of_bool b"] bit_0 [of c] by (cases b) (simp_all add: and_one_eq odd_iff_mod_2_eq_one [symmetric] bit_simps)
  moreover have "drop_bit 1 (c XOR of_bool b) = drop_bit 1 c" by (rule bit_word_eqI) (auto simp: bit_simps)
  ultimately show ?thesis by (simp add: crc_bit_def Let_def bit_0)
qed

lemma crc_entry_bits:
  fixes w :: u16
  assumes "\<forall>i \<ge> n. \<not> bit w i"
  shows "crc_entry_loop n (c XOR w) = foldl crc_bit c (map (bit w) [0..<n])"
  using assms
proof (induction n arbitrary: c w)
  case 0
  then have "w = 0" by (auto intro: bit_word_eqI)
  then show ?case by simp
next
  case (Suc n)
  let ?even = "push_bit 1 (drop_bit 1 w)"
  have "c XOR w = (c XOR of_bool (bit w 0)) XOR push_bit m (drop_bit m w)" if m: "\<And>n. n < m \<longleftrightarrow> n = 0" for m
  proof (rule bit_word_eqI)
    fix n assume "n < LENGTH(16)"
    then show "bit (c XOR w) n = bit ((c XOR of_bool (bit w 0)) XOR push_bit m (drop_bit m w)) n"
      using m [of n] by (cases "n = 0") (auto simp: bit_simps not_less)
  qed
  from this [of 1] have split: "c XOR w = (c XOR of_bool (bit w 0)) XOR ?even" by auto
  have "?even AND 1 = 0" by (simp add: and_one_eq mod_2_eq_odd)
  then have "crc_entry_loop (Suc n) ?even = crc_entry_loop n (drop_bit 1 w)" using u16_push_drop [of 1 w] by simp
  then have "crc_entry_loop (Suc n) (c XOR w) = crc_entry_loop n (crc_bit c (bit w 0) XOR drop_bit 1 w)"
    by (simp only: split crc_entry_linear crc_bit_entry [symmetric])
  also have "\<dots> = foldl crc_bit (crc_bit c (bit w 0)) (map (bit (drop_bit 1 w)) [0..<n])"
    using Suc.prems by (intro Suc.IH) (auto simp: bit_simps)
  also have "\<dots> = foldl crc_bit c (bit w 0 # map (bit (drop_bit 1 w)) [0..<n])" by simp
  also have "bit w 0 # map (bit (drop_bit 1 w)) [0..<n] = map (bit w) [0..<Suc n]"
    by (simp add: map_upt_Suc bit_simps del: upt_Suc)
  finally show ?case .
qed

lemma crc_table_bits:
  "drop_bit 8 crc XOR CRC16_IBM_TABLE ! unat (ucast crc XOR b) = foldl crc_bit crc (octet_bits b)"
proof -
  have "map (bit (ucast b :: u16)) [0..<8] = octet_bits b" by (auto simp: octet_bits_def bit_simps)
  moreover have "\<forall>i \<ge> 8. \<not> bit (ucast b :: u16) i" using bit_imp_le_length [of b] by (force simp: bit_simps)
  ultimately show ?thesis using crc_entry_bits [of 8 "ucast b" crc] by (simp add: crc_octet)
qed

lemma crc16_bits: "crc16_ibm data = crc_bits data"
proof -
  have "foldl (\<lambda>crc b. drop_bit 8 crc XOR CRC16_IBM_TABLE ! unat (ucast crc XOR b)) c data =
      foldl crc_bit c (concat (map octet_bits data))" for c
    by (induction data arbitrary: c) (simp_all add: crc_table_bits)
  then show ?thesis by (simp add: crc16_ibm_def crc_bits_def)
qed

text \<open>The register loses nothing: the loop is injective, so a change confined to 16 bits is never absorbed.\<close>

lemma u16_halves:
  fixes c :: u16
  assumes "c AND 1 = 0" and "drop_bit 1 c = 0"
  shows "c = 0"
proof -
  have "\<not> bit c n" for n
  proof (cases n)
    case 0
    have "bit (c AND 1) 0 = bit c 0" by (simp add: bit_simps)
    with 0 show ?thesis unfolding assms(1) by simp
  next
    case (Suc k)
    have "bit (drop_bit 1 c) k = bit c n" by (simp add: Suc bit_simps)
    then show ?thesis unfolding assms(2) by simp
  qed
  then show ?thesis by (auto intro: bit_word_eqI)
qed

lemma crc_feedback: "drop_bit 1 c XOR 0xA001 \<noteq> (0 :: u16)"
proof -
  have "\<not> bit (drop_bit 1 c) 15" using bit_imp_le_length [of c 16] by (auto simp: bit_simps)
  moreover have "bit (0xA001 :: u16) 15" by (simp add: bit_simps)
  ultimately have "bit (drop_bit 1 c XOR 0xA001) 15" by (simp only: bit_xor_iff) simp
  then show ?thesis by (metis bit_0_eq bot_apply bot_bool_def)
qed

lemma crc_entry_zero: "crc_entry_loop n c = 0 \<longleftrightarrow> c = 0"
proof (induction n arbitrary: c)
  case (Suc n)
  show ?case
  proof (cases "c AND 1 = 0")
    case True
    then have "crc_entry_loop (Suc n) c = 0 \<longleftrightarrow> drop_bit 1 c = 0" by (simp only: crc_entry_loop.simps Suc.IH) simp
    with True show ?thesis using u16_halves [of c] by auto
  next
    case False
    then have "crc_entry_loop (Suc n) c \<noteq> 0" using crc_feedback [of c] by (simp only: crc_entry_loop.simps Suc.IH) simp
    with False show ?thesis by auto
  qed
qed simp

lemma word_xor_zero: "x XOR y = 0 \<longleftrightarrow> x = y" for x y :: "'a :: len word"
proof
  assume "x XOR y = 0"
  then have "(x XOR y) XOR y = 0 XOR y" by simp
  then show "x = y" by (simp add: xor.assoc)
qed simp

lemma word_xor_cancel: "x XOR z = y XOR z \<longleftrightarrow> x = y" for x y z :: "'a :: len word"
proof
  assume "x XOR z = y XOR z"
  then have "(x XOR z) XOR z = (y XOR z) XOR z" by simp
  then show "x = y" by (simp add: xor.assoc)
qed simp

lemma word_xor_left: "z XOR x = z XOR y \<longleftrightarrow> x = y" for x y z :: "'a :: len word"
  using word_xor_cancel [of x z y] by (simp add: xor.commute)

lemma crc_entry_inj: "crc_entry_loop n a = crc_entry_loop n b \<longleftrightarrow> a = b"
  using crc_entry_zero [of n "a XOR b"] by (simp add: crc_entry_linear word_xor_zero)

lemma crc_fold_inj: "foldl crc_bit a bs = foldl crc_bit b bs \<longleftrightarrow> a = b"
proof (induction bs arbitrary: a b)
  case (Cons x bs)
  have "crc_bit a x = crc_bit b x \<longleftrightarrow> a = b"
    using crc_entry_inj [of "Suc 0" "a XOR of_bool x" "b XOR of_bool x"] unfolding crc_bit_entry word_xor_cancel by simp
  then show ?case by (simp add: Cons.IH)
qed simp

lemma octet_bits_word:
  "octet_bits p = map (bit (ucast p :: u16)) [0..<8]"
  "octet_bits p @ octet_bits q = map (bit (ucast p OR push_bit 8 (ucast q) :: u16)) [0..<16]"
proof -
  show "octet_bits p = map (bit (ucast p :: u16)) [0..<8]" by (auto simp: octet_bits_def bit_simps)
  have "bit (ucast p OR push_bit 8 (ucast q) :: u16) (i + 8) = bit q i" if "i < 8" for i
    using bit_imp_le_length [of p "i + 8"] that by (auto simp: bit_simps)
  then have "map (bit (ucast p OR push_bit 8 (ucast q) :: u16)) [8..<16] = octet_bits q"
    using map_add_upt [of 8 8, symmetric] by (simp add: octet_bits_def)
  moreover have "map (bit (ucast p OR push_bit 8 (ucast q) :: u16)) [0..<8] = octet_bits p"
    by (auto simp: octet_bits_def bit_simps)
  moreover have "[0..<16] = [0..<8] @ [8..<16 :: nat]" by (simp add: upt_rec)
  ultimately show "octet_bits p @ octet_bits q = map (bit (ucast p OR push_bit 8 (ucast q) :: u16)) [0..<16]" by simp
qed

lemma octets_word_inj:
  fixes p q p' q' :: u8
  assumes "ucast p OR push_bit 8 (ucast q) = (ucast p' OR push_bit 8 (ucast q') :: u16)"
  shows "p = p' \<and> q = q'"
proof -
  from assms have "map (bit (ucast p OR push_bit 8 (ucast q) :: u16)) [0..<16] =
      map (bit (ucast p' OR push_bit 8 (ucast q') :: u16)) [0..<16]" by simp
  then have "octet_bits p @ octet_bits q = octet_bits p' @ octet_bits q'" by (simp only: octet_bits_word(2))
  then have "octet_bits p = octet_bits p'" "octet_bits q = octet_bits q'" by (simp_all add: octet_bits_def)
  then show ?thesis by (auto simp: octet_bits_def intro!: bit_word_eqI)
qed

lemma crc_octets_inj:
  "foldl crc_bit c (octet_bits p) = foldl crc_bit c (octet_bits p') \<longleftrightarrow> p = p'"
  "foldl crc_bit c (octet_bits p @ octet_bits q) = foldl crc_bit c (octet_bits p' @ octet_bits q') \<longleftrightarrow> p = p' \<and> q = q'"
proof -
  have "\<forall>i \<ge> 8. \<not> bit (ucast b :: u16) i" for b :: u8 using bit_imp_le_length [of b] by (force simp: bit_simps)
  then have one: "foldl crc_bit c (octet_bits b) = crc_entry_loop 8 (c XOR ucast b)" for b
    unfolding octet_bits_word(1) by (rule crc_entry_bits [symmetric])
  show "foldl crc_bit c (octet_bits p) = foldl crc_bit c (octet_bits p') \<longleftrightarrow> p = p'"
    unfolding one crc_entry_inj word_xor_left using octets_word_inj [of p 0 p' 0] by auto
  have "\<forall>i \<ge> 16. \<not> bit w i" for w :: u16 using bit_imp_le_length [of w] by force
  then have two: "foldl crc_bit c (octet_bits a @ octet_bits b) = crc_entry_loop 16 (c XOR (ucast a OR push_bit 8 (ucast b)))" for a b
    unfolding octet_bits_word(2) by (rule crc_entry_bits [symmetric])
  show "foldl crc_bit c (octet_bits p @ octet_bits q) = foldl crc_bit c (octet_bits p' @ octet_bits q') \<longleftrightarrow> p = p' \<and> q = q'"
    unfolding two crc_entry_inj word_xor_left using octets_word_inj [of p q p' q'] by blast
qed

lemma crc_burst:
  assumes "crc16_ibm (xs @ u @ ys) = crc16_ibm (xs @ v @ ys)" and "length u = length v" and "length u \<le> 2"
  shows "u = v"
proof -
  from assms(1) obtain c where eq: "foldl crc_bit c (concat (map octet_bits u)) = foldl crc_bit c (concat (map octet_bits v))"
    by (auto simp: crc16_bits crc_bits_def crc_fold_inj)
  from assms(2,3) consider "u = []" "v = []" | p p' where "u = [p]" "v = [p']"
    | p q p' q' where "u = [p, q]" "v = [p', q']"
    by (auto simp: le_Suc_eq length_Suc_conv numeral_2_eq_2)
  then show ?thesis
  proof cases
    case 2
    with eq show ?thesis using crc_octets_inj(1) [of c p p'] by simp
  next
    case 3
    with eq show ?thesis using crc_octets_inj(2) [of c p q p' q'] by simp
  qed simp
qed

end
