(* ===== verification/Fs_Provider.thy ===== *)
theory Fs_Provider
  imports Fs_Time Fs_Crc "HOL-Library.AList" "HOL-Library.Sublist"
begin

text \<open>
  The file-system provider, \<^verbatim>\<open>crates/iec60870/src/file_transfer/fs.rs\<close> with the types of
  \<^verbatim>\<open>provider.rs\<close>: the index of a directory, the operations of the provider, and the reader and writer
  it hands out.

  The regular files are a map from paths to contents; creating, appending to, renaming and removing a
  file change it.  What else the operating system answers is the record \<open>Os\<close>, an argument of every
  operation: the entries of a directory, their types, canonical paths and metadata, which paths are
  symbolic links, and which calls fail.  A path is the list of its components, a component the octets of
  its UTF-8 name (on which \<^verbatim>\<open>to_string_lossy\<close> is the identity).  The hash map of the index is an
  association list.
\<close>

section \<open>Errors and metadata\<close>

datatype FileTransferError =
    NotFound NameOfFile
  | PermissionDenied
  | Ft_Io
  | InvalidState
  | Ft_ChecksumMismatch
  | Collision NameOfFile
  | Ft_Other

type_synonym 'a ft_result = "FileTransferError + 'a"

type_synonym path = "octets list"

record FileMetadata =
  fm_length :: u32
  fm_status :: Sof
  fm_modified :: SystemTime
  fm_modified_cp56 :: Cp56Time2a

record Fs_DirectoryEntry =
  fde_nof :: NameOfFile
  fde_meta :: FileMetadata

definition DirectoryEntry_into_wire :: "Fs_DirectoryEntry \<Rightarrow> DirectoryEntry" where
  "DirectoryEntry_into_wire self =
     \<lparr> de_nof = fde_nof self, de_lof = LengthOfFile (fm_length (fde_meta self)), de_sof = fm_status (fde_meta self),
       de_time = fm_modified_cp56 (fde_meta self) \<rparr>"

definition clamp_u32 :: "nat \<Rightarrow> u32" where
  "clamp_u32 v = of_nat (min v 0xFFFFFFFF)"

definition Sof_default :: Sof where
  "Sof_default = \<lparr> sof_status = 0, sof_last_file = False, sof_sub_directory = False, sof_active = False \<rparr>"

section \<open>The operating system\<close>

type_synonym Files = "path \<Rightarrow> octets option"

record ScanEntry =
  se_path :: path
  se_is_file :: "bool option"
  se_canon :: "path option"

record Os =
  os_canonicalize :: "path \<Rightarrow> path option"
  os_is_dir :: "path \<Rightarrow> bool"
  os_read_dir :: "Files \<Rightarrow> path \<Rightarrow> ScanEntry option list option"
  os_metadata :: "Files \<Rightarrow> path \<Rightarrow> (nat \<times> SystemTime option) option"
  os_symlink :: "Files \<Rightarrow> path \<Rightarrow> bool option"
  os_create_ok :: "path \<Rightarrow> bool"
  os_write_ok :: "path \<Rightarrow> octets \<Rightarrow> nat option"
  os_flush_ok :: "path \<Rightarrow> bool"
  os_rename_ok :: "path \<Rightarrow> path \<Rightarrow> bool"
  os_remove_ok :: "path \<Rightarrow> bool"

text \<open>\<^verbatim>\<open>Path::extension\<close>, \<^verbatim>\<open>Path::strip_prefix\<close> and the octets of a relative path.\<close>

definition octets_of :: "string \<Rightarrow> octets" where
  "octets_of s = map of_char s"

definition path_extension :: "path \<Rightarrow> octets option" where
  "path_extension p =
     (if p = [] \<or> last p = [46, 46] then None
      else case dropWhile (\<lambda>b. b \<noteq> 46) (rev (last p)) of
             [] \<Rightarrow> None
           | _ # before \<Rightarrow> if before = [] then None else Some (rev (takeWhile (\<lambda>b. b \<noteq> 46) (rev (last p)))))"

fun strip_path :: "path \<Rightarrow> path \<Rightarrow> path option" where
  "strip_path [] p = Some p"
| "strip_path (b # bs) [] = None"
| "strip_path (b # bs) (c # cs) = (if b = c then strip_path bs cs else None)"

fun path_octets :: "path \<Rightarrow> octets" where
  "path_octets [] = []"
| "path_octets [c] = c"
| "path_octets (c # cs) = c @ 47 # path_octets cs"

section \<open>The index\<close>

datatype CollisionStrategy = Collision_Error | KeepFirst | KeepLast

type_synonym Index = "(NameOfFile \<times> path) list"

definition file_nof :: "path \<Rightarrow> NameOfFile" where
  "file_nof rel = NameOfFile (crc16_ibm (path_octets rel))"

definition add_to_index :: "CollisionStrategy \<Rightarrow> NameOfFile \<Rightarrow> path \<Rightarrow> Index \<Rightarrow> Index ft_result" where
  "add_to_index collision nof canon idx =
     (if map_of idx nof = None then Inr (AList.update nof canon idx)
      else case collision of
             Collision_Error \<Rightarrow> Inl (Collision nof)
           | KeepFirst \<Rightarrow> Inr idx
           | KeepLast \<Rightarrow> Inr (AList.update nof canon idx))"

fun scan_loop :: "path \<Rightarrow> CollisionStrategy \<Rightarrow> ScanEntry option list \<Rightarrow> Index \<Rightarrow> Index ft_result" where
  "scan_loop base collision [] idx = Inr idx"
| "scan_loop base collision (None # entries) idx = Inl Ft_Io"
| "scan_loop base collision (Some entry # entries) idx =
     (case se_is_file entry of
        None \<Rightarrow> Inl Ft_Io
      | Some False \<Rightarrow> scan_loop base collision entries idx
      | Some True \<Rightarrow>
          (if path_extension (se_path entry) = Some (octets_of ''partial'') then scan_loop base collision entries idx
           else
             (case se_canon entry of
                None \<Rightarrow> Inl Ft_Io
              | Some canon \<Rightarrow>
                  (case strip_path base canon of
                     None \<Rightarrow> scan_loop base collision entries idx
                   | Some rel \<Rightarrow>
                       (case add_to_index collision (file_nof rel) canon idx of
                          Inl e \<Rightarrow> Inl e
                        | Inr idx \<Rightarrow> scan_loop base collision entries idx)))))"

definition scan_dir :: "Os \<Rightarrow> Files \<Rightarrow> path \<Rightarrow> CollisionStrategy \<Rightarrow> Index ft_result" where
  "scan_dir os files base collision =
     (case os_read_dir os files base of
        None \<Rightarrow> Inl Ft_Io
      | Some entries \<Rightarrow> scan_loop base collision entries [])"

record FsProvider =
  fsp_base_dir :: path
  fsp_collision :: CollisionStrategy
  fsp_index :: Index

definition with_collision_strategy :: "Os \<Rightarrow> Files \<Rightarrow> path \<Rightarrow> CollisionStrategy \<Rightarrow> FsProvider ft_result" where
  "with_collision_strategy os files base_dir collision =
     (case os_canonicalize os base_dir of
        None \<Rightarrow> Inl Ft_Other
      | Some base_abs \<Rightarrow>
          (if \<not> os_is_dir os base_abs then Inl Ft_Other
           else case scan_dir os files base_abs collision of
                  Inl e \<Rightarrow> Inl e
                | Inr index \<Rightarrow> Inr \<lparr> fsp_base_dir = base_abs, fsp_collision = collision, fsp_index = index \<rparr>))"

definition fs_provider_new :: "Os \<Rightarrow> Files \<Rightarrow> path \<Rightarrow> FsProvider ft_result" where
  "fs_provider_new os files base_dir = with_collision_strategy os files base_dir Collision_Error"

definition rescan :: "Os \<Rightarrow> Files \<Rightarrow> FsProvider \<Rightarrow> nat ft_result \<times> FsProvider" where
  "rescan os files self =
     (case scan_dir os files (fsp_base_dir self) (fsp_collision self) of
        Inl e \<Rightarrow> (Inl e, self)
      | Inr new_index \<Rightarrow> (Inr (length new_index), self\<lparr> fsp_index := new_index \<rparr>))"

definition resolve :: "FsProvider \<Rightarrow> NameOfFile \<Rightarrow> path ft_result" where
  "resolve self nof = (case map_of (fsp_index self) nof of Some p \<Rightarrow> Inr p | None \<Rightarrow> Inl (NotFound nof))"

section \<open>Directory, metadata, reading\<close>

fun nof_value :: "NameOfFile \<Rightarrow> nat" where
  "nof_value (NameOfFile v) = unat v"

definition directory_entry :: "bool \<Rightarrow> NameOfFile \<Rightarrow> nat \<Rightarrow> SystemTime option \<Rightarrow> Fs_DirectoryEntry" where
  "directory_entry is_last nof len modified =
     (let modified = (case modified of Some t \<Rightarrow> t | None \<Rightarrow> Some (0, 0))
      in \<lparr> fde_nof = nof,
           fde_meta =
             \<lparr> fm_length = clamp_u32 len,
               fm_status = \<lparr> sof_status = 0, sof_last_file = is_last, sof_sub_directory = False, sof_active = False \<rparr>,
               fm_modified = modified, fm_modified_cp56 = system_time_to_cp56 modified \<rparr> \<rparr>)"

fun directory_loop :: "Os \<Rightarrow> Files \<Rightarrow> nat \<Rightarrow> nat \<Rightarrow> Index \<Rightarrow> Fs_DirectoryEntry list" where
  "directory_loop os files count i [] = []"
| "directory_loop os files count i ((nof, path) # entries) =
     (case os_metadata os files path of
        None \<Rightarrow> directory_loop os files count (Suc i) entries
      | Some (len, modified) \<Rightarrow>
          directory_entry (i + 1 = count) nof len modified # directory_loop os files count (Suc i) entries)"

definition list_directory :: "Os \<Rightarrow> Files \<Rightarrow> FsProvider \<Rightarrow> Fs_DirectoryEntry list ft_result" where
  "list_directory os files self =
     (let entries = sort_key (\<lambda>(k, _). nof_value k) (fsp_index self)
      in Inr (directory_loop os files (length entries) 0 entries))"

definition lookup :: "Os \<Rightarrow> Files \<Rightarrow> FsProvider \<Rightarrow> NameOfFile \<Rightarrow> FileMetadata option ft_result" where
  "lookup os files self nof =
     (case resolve self nof of
        Inl (NotFound _) \<Rightarrow> Inr None
      | Inl e \<Rightarrow> Inl e
      | Inr path \<Rightarrow>
          (case os_metadata os files path of
             None \<Rightarrow> Inl Ft_Io
           | Some (len, modified) \<Rightarrow>
               (let modified = (case modified of Some t \<Rightarrow> t | None \<Rightarrow> Some (0, 0))
                in Inr (Some \<lparr> fm_length = clamp_u32 len, fm_status = Sof_default, fm_modified = modified,
                              fm_modified_cp56 = system_time_to_cp56 modified \<rparr>))))"

text \<open>An open file is the part of its contents that has not been read.\<close>

definition open_read :: "Os \<Rightarrow> Files \<Rightarrow> FsProvider \<Rightarrow> NameOfFile \<Rightarrow> octets ft_result" where
  "open_read os files self nof =
     (case resolve self nof of
        Inl e \<Rightarrow> Inl e
      | Inr path \<Rightarrow>
          (case os_symlink os files path of
             None \<Rightarrow> Inl Ft_Io
           | Some True \<Rightarrow> Inl PermissionDenied
           | Some False \<Rightarrow> (case files path of None \<Rightarrow> Inl Ft_Io | Some content \<Rightarrow> Inr content)))"

text \<open>\<open>got\<close> is what \<^verbatim>\<open>read\<close> returns: an error or the number of octets it has put into the buffer.\<close>

definition read_segment :: "nat option \<Rightarrow> nat \<Rightarrow> octets \<Rightarrow> octets option ft_result \<times> octets" where
  "read_segment got max_bytes file =
     (if max_bytes = 0 then (Inr (Some []), file)
      else case got of
             None \<Rightarrow> (Inl Ft_Io, file)
           | Some n \<Rightarrow> (if n = 0 then (Inr None, file) else (Inr (Some (take n file)), drop n file)))"

section \<open>Writing\<close>

definition hex_digit :: "nat \<Rightarrow> u8" where
  "hex_digit d = of_nat (if d < 10 then 48 + d else 55 + d)"

definition hex4 :: "nat \<Rightarrow> octets" where
  "hex4 v = map (\<lambda>k. hex_digit (v div 16 ^ k mod 16)) [3, 2, 1, 0]"

definition upload_target :: "FsProvider \<Rightarrow> NameOfFile \<Rightarrow> path" where
  "upload_target self nof =
     fsp_base_dir self @ [octets_of ''upload_'' @ hex4 (nof_value nof) @ octets_of ''.bin'']"

definition with_partial_suffix :: "path \<Rightarrow> path" where
  "with_partial_suffix p = butlast p @ [last p @ octets_of ''.partial'']"

record FsWriter =
  fw_file :: bool
  fw_partial :: path
  fw_final_path :: path
  fw_provider :: bool

definition open_write :: "Os \<Rightarrow> Files \<Rightarrow> FsProvider \<Rightarrow> NameOfFile \<Rightarrow> u32 \<Rightarrow> FsWriter ft_result \<times> Files" where
  "open_write os files self nof expected_length =
     (case (case resolve self nof of
              Inr p \<Rightarrow> Inr p
            | Inl (NotFound _) \<Rightarrow> Inr (upload_target self nof)
            | Inl e \<Rightarrow> Inl e) of
        Inl e \<Rightarrow> (Inl e, files)
      | Inr final_path \<Rightarrow>
          (let partial = with_partial_suffix final_path
           in if os_symlink os files final_path = Some True then (Inl PermissionDenied, files)
              else if os_symlink os files partial = Some True then (Inl PermissionDenied, files)
              else if os_create_ok os partial then
                (Inr \<lparr> fw_file = True, fw_partial = partial, fw_final_path = final_path, fw_provider = True \<rparr>,
                 files(partial \<mapsto> []))
              else (Inl Ft_Io, files)))"

definition append_to :: "path \<Rightarrow> octets \<Rightarrow> Files \<Rightarrow> Files" where
  "append_to p octets files = files(p := map_option (\<lambda>c. c @ octets) (files p))"

text \<open>\<^verbatim>\<open>write_all\<close> fails after a number of octets, or writes them all.\<close>

definition write_segment :: "Os \<Rightarrow> octets \<Rightarrow> FsWriter \<Rightarrow> Files \<Rightarrow> unit ft_result \<times> Files" where
  "write_segment os bytes self files =
     (if \<not> fw_file self then (Inl InvalidState, files)
      else case os_write_ok os (fw_partial self) bytes of
             Some n \<Rightarrow> (Inl Ft_Io, append_to (fw_partial self) (take n bytes) files)
           | None \<Rightarrow> (Inr (), append_to (fw_partial self) bytes files))"

definition finalize :: "Os \<Rightarrow> bool \<Rightarrow> FsWriter \<Rightarrow> FsProvider \<Rightarrow> Files \<Rightarrow> unit ft_result \<times> FsProvider \<times> Files" where
  "finalize os success self provider files =
     (if fw_file self \<and> \<not> os_flush_ok os (fw_partial self) then (Inl Ft_Io, provider, files)
      else if success then
        (if \<not> os_rename_ok os (fw_partial self) (fw_final_path self) then (Inl Ft_Io, provider, files)
         else
           (let files = files(fw_final_path self := files (fw_partial self), fw_partial self := None);
                provider = (if fw_provider self then snd (rescan os files provider) else provider)
            in (Inr (), provider, files)))
      else (Inr (), provider, if os_remove_ok os (fw_partial self) then files(fw_partial self := None) else files))"

section \<open>What the index holds\<close>

lemma strip_path_iff [simp]: "strip_path base p = Some rel \<longleftrightarrow> p = base @ rel"
  by (induction base p rule: strip_path.induct) auto

lemma strip_path_append [simp]: "strip_path base (base @ rel) = Some rel"
  by simp

definition index_ok :: "path \<Rightarrow> Index \<Rightarrow> bool" where
  "index_ok base idx \<longleftrightarrow>
     distinct (map fst idx) \<and> list_all (\<lambda>(nof, p). \<exists>rel. p = base @ rel \<and> nof = file_nof rel) idx"

lemma index_ok_Nil [simp]: "index_ok base []"
  by (simp add: index_ok_def)

lemma index_ok_update: "index_ok base idx \<Longrightarrow> index_ok base (AList.update (file_nof rel) (base @ rel) idx)"
proof -
  assume ok: "index_ok base idx"
  then have "distinct (map fst idx)" "list_all (\<lambda>(nof, p). \<exists>rel. p = base @ rel \<and> nof = file_nof rel) idx"
    by (simp_all add: index_ok_def)
  moreover from this(2) have "list_all (\<lambda>(nof, p). \<exists>rel. p = base @ rel \<and> nof = file_nof rel)
      (AList.update (file_nof rel) (base @ rel) idx)"
    by (induction idx) auto
  ultimately show ?thesis by (simp add: index_ok_def distinct_update)
qed

lemma index_ok_add:
  "index_ok base idx \<Longrightarrow> add_to_index collision (file_nof rel) (base @ rel) idx = Inr idx' \<Longrightarrow> index_ok base idx'"
  by (auto simp: add_to_index_def index_ok_update split: if_splits CollisionStrategy.splits)

lemma index_ok_loop: "index_ok base idx \<Longrightarrow> scan_loop base collision entries idx = Inr idx' \<Longrightarrow> index_ok base idx'"
proof (induction entries arbitrary: idx)
  case (Cons x entries)
  then obtain e where e: "x = Some e" by (cases x) auto
  consider "scan_loop base collision entries idx = Inr idx'"
    | rel idx1 where "add_to_index collision (file_nof rel) (base @ rel) idx = Inr idx1"
        "scan_loop base collision entries idx1 = Inr idx'"
    using Cons.prems(2) by (auto simp: e split: option.split_asm bool.split_asm if_split_asm sum.split_asm)
  then show ?case using Cons.IH Cons.prems(1) index_ok_add by cases blast+
qed simp

lemma index_ok_scan: "scan_dir os files base collision = Inr idx \<Longrightarrow> index_ok base idx"
  by (auto simp: scan_dir_def split: option.splits dest: index_ok_loop [rotated])

definition provider_ok :: "FsProvider \<Rightarrow> bool" where
  "provider_ok self \<longleftrightarrow> index_ok (fsp_base_dir self) (fsp_index self)"

lemma provider_ok_new: "with_collision_strategy os files base_dir collision = Inr self \<Longrightarrow> provider_ok self"
  by (auto simp: with_collision_strategy_def provider_ok_def split: option.splits if_splits sum.splits intro: index_ok_scan)

lemma provider_ok_rescan: "provider_ok self \<Longrightarrow> provider_ok (snd (rescan os files self))"
  by (auto simp: rescan_def provider_ok_def split: sum.splits intro: index_ok_scan)

lemma base_dir_rescan [simp]: "fsp_base_dir (snd (rescan os files self)) = fsp_base_dir self"
  by (auto simp: rescan_def split: sum.splits)

lemma provider_ok_finalize:
  "provider_ok self \<Longrightarrow> finalize os success w self files = (r, self', files') \<Longrightarrow>
    provider_ok self' \<and> fsp_base_dir self' = fsp_base_dir self"
  by (auto simp: finalize_def Let_def provider_ok_rescan split: if_splits)

lemma resolve_ok:
  assumes "provider_ok self" and "resolve self nof = Inr p"
  obtains rel where "p = fsp_base_dir self @ rel" "nof = file_nof rel"
  using assms by (fastforce simp: provider_ok_def index_ok_def list_all_iff resolve_def split: option.splits dest: map_of_SomeD)

text \<open>
  The files a scan considers, in the order of the listing: regular files without the extension
  \<^verbatim>\<open>partial\<close> inside the base directory, each under the CRC of its relative path.
\<close>

fun readable :: "ScanEntry option \<Rightarrow> bool" where
  "readable (Some e) = (\<exists>b c. se_is_file e = Some b \<and> (b \<longrightarrow> se_canon e = Some c))"
| "readable None = False"

fun candidates :: "path \<Rightarrow> ScanEntry option list \<Rightarrow> Index" where
  "candidates base [] = []"
| "candidates base (None # entries) = candidates base entries"
| "candidates base (Some e # entries) =
     (case se_canon e of
        None \<Rightarrow> candidates base entries
      | Some canon \<Rightarrow>
          (case strip_path base canon of
             None \<Rightarrow> candidates base entries
           | Some rel \<Rightarrow>
               (if se_is_file e = Some True \<and> path_extension (se_path e) \<noteq> Some (octets_of ''partial'')
                then (file_nof rel, canon) # candidates base entries else candidates base entries)))"

fun add_all :: "CollisionStrategy \<Rightarrow> Index \<Rightarrow> Index \<Rightarrow> Index ft_result" where
  "add_all collision [] idx = Inr idx"
| "add_all collision ((nof, canon) # cs) idx =
     (case add_to_index collision nof canon idx of Inl e \<Rightarrow> Inl e | Inr idx \<Rightarrow> add_all collision cs idx)"

lemma scan_loop_candidates:
  "list_all readable entries \<Longrightarrow> scan_loop base collision entries idx = add_all collision (candidates base entries) idx"
proof (induction entries arbitrary: idx)
  case (Cons x entries)
  then obtain e b where e: "x = Some e" "se_is_file e = Some b" "b \<longrightarrow> (\<exists>c. se_canon e = Some c)" by (cases x) auto
  show ?case
  proof (cases b)
    case True
    with e obtain canon where "se_canon e = Some canon" by blast
    with Cons e True show ?thesis by (cases "strip_path base canon") (auto split: sum.splits)
  next
    case False
    with Cons e show ?thesis by (auto split: option.splits)
  qed
qed simp

lemma add_first: "\<exists>idx'. add_all KeepFirst cs idx = Inr idx' \<and> map_of idx' = map_of (idx @ cs)"
proof (induction cs arbitrary: idx)
  case (Cons c cs)
  obtain nof canon where c: "c = (nof, canon)" by (cases c)
  obtain idx1 where "add_to_index KeepFirst nof canon idx = Inr idx1" "map_of cs ++ map_of idx1 = map_of (c # cs) ++ map_of idx"
    by (cases "map_of idx nof") (auto simp: add_to_index_def update_conv' c fun_eq_iff map_add_def split: option.splits)
  with Cons [of idx1] show ?case by (auto simp: c)
qed simp

lemma add_last: "\<exists>idx'. add_all KeepLast cs idx = Inr idx' \<and> map_of idx' = map_of (rev cs @ idx)"
proof (induction cs arbitrary: idx)
  case (Cons c cs)
  obtain nof canon where c: "c = (nof, canon)" by (cases c)
  have "add_to_index KeepLast nof canon idx = Inr (AList.update nof canon idx)" by (simp add: add_to_index_def)
  with Cons [of "AList.update nof canon idx"] show ?case
    by (auto simp: c update_conv' fun_eq_iff map_add_def split: option.splits)
qed simp

lemma add_distinct:
  assumes "distinct (map fst cs)" and "fst ` set cs \<inter> fst ` set idx = {}"
  shows "\<exists>idx'. add_all Collision_Error cs idx = Inr idx' \<and> map_of idx' = map_of (idx @ cs)"
  using assms
proof (induction cs arbitrary: idx)
  case (Cons c cs)
  obtain nof canon where c: "c = (nof, canon)" by (cases c)
  with Cons.prems have new: "map_of idx nof = None" "map_of cs nof = None" by (auto simp: map_of_eq_None_iff)
  with Cons.prems c have "distinct (map fst cs)" "fst ` set cs \<inter> fst ` set (AList.update nof canon idx) = {}"
    by (auto simp: dom_update)
  from Cons.IH [OF this] obtain idx' where "add_all Collision_Error cs (AList.update nof canon idx) = Inr idx'"
    "map_of idx' = map_of cs ++ map_of (AList.update nof canon idx)" by auto
  moreover have "map_of cs ++ map_of (AList.update nof canon idx) = (map_of cs)(nof \<mapsto> canon) ++ map_of idx"
    using new by (auto simp: update_conv' fun_eq_iff map_add_def split: option.splits)
  ultimately show ?case using new by (simp add: c add_to_index_def)
qed simp

lemma add_collides:
  assumes "\<not> (distinct (map fst cs) \<and> fst ` set cs \<inter> fst ` set idx = {})"
  shows "\<exists>nof. add_all Collision_Error cs idx = Inl (Collision nof)"
  using assms
proof (induction cs arbitrary: idx)
  case (Cons c cs)
  obtain nof canon where c: "c = (nof, canon)" by (cases c)
  show ?case
  proof (cases "map_of idx nof")
    case None
    with Cons.prems c have "\<not> (distinct (map fst cs) \<and> fst ` set cs \<inter> fst ` set (AList.update nof canon idx) = {})"
      by (auto simp: dom_update map_of_eq_None_iff)
    from Cons.IH [OF this] None show ?thesis by (simp add: c add_to_index_def)
  qed (simp add: c add_to_index_def)
qed simp

section \<open>The directory\<close>

lemma nof_value_inj: "nof_value a = nof_value b \<longleftrightarrow> a = b"
  by (cases a; cases b) (simp add: word_unat_eq_iff)

lemma directory_loop_set:
  "e \<in> set (directory_loop os files count i es) \<longleftrightarrow>
     (\<exists>k < length es. \<exists>len t. os_metadata os files (snd (es ! k)) = Some (len, t) \<and>
       e = directory_entry (i + k + 1 = count) (fst (es ! k)) len t)"
proof (induction es arbitrary: i)
  case (Cons x es)
  obtain nof p where x: "x = (nof, p)" by (cases x)
  show ?case
    unfolding x length_Cons Ex_less_Suc2 nth_Cons_0 nth_Cons_Suc
    by (cases "os_metadata os files p") (simp_all add: Cons.IH split_paired_all case_prod_beta)
qed simp

lemma sorted_wrt_subseq: "subseq xs ys \<Longrightarrow> sorted_wrt P ys \<Longrightarrow> sorted_wrt P xs"
proof (induction rule: list_emb.induct)
  case (list_emb_Cons2 x y xs ys)
  then have "set xs \<subseteq> set ys" by (auto elim: list_emb_set)
  with list_emb_Cons2 show ?case by auto
qed auto

lemma sorted_last_iff:
  fixes f :: "'a \<Rightarrow> 'b :: linorder"
  assumes "sorted_wrt (<) (map f xs)" and "k < length xs"
  shows "Suc k = length xs \<longleftrightarrow> (\<forall>x \<in> set xs. f x \<le> f (xs ! k))"
proof
  assume last: "Suc k = length xs"
  have "f (xs ! j) \<le> f (xs ! k)" if "j < length xs" for j
    using assms that last by (cases "j = k") (auto simp: sorted_wrt_iff_nth_less intro!: less_imp_le)
  then show "\<forall>x \<in> set xs. f x \<le> f (xs ! k)" by (auto simp: in_set_conv_nth)
next
  assume le: "\<forall>x \<in> set xs. f x \<le> f (xs ! k)"
  have "\<not> Suc k < length xs"
  proof
    assume "Suc k < length xs"
    then have "f (xs ! k) < f (xs ! Suc k)" "xs ! Suc k \<in> set xs" using assms(1) by (auto simp: sorted_wrt_iff_nth_less)
    with le show False by (meson leD)
  qed
  with assms(2) show "Suc k = length xs" by simp
qed

lemma directory_loop_nofs: "subseq (map fde_nof (directory_loop os files count i es)) (map fst es)"
  by (induction os files count i es rule: directory_loop.induct) (auto simp: directory_entry_def Let_def split: option.splits)

section \<open>Uploads\<close>

fun write_segments :: "Os \<Rightarrow> octets list \<Rightarrow> FsWriter \<Rightarrow> Files \<Rightarrow> Files option" where
  "write_segments os [] w files = Some files"
| "write_segments os (c # cs) w files =
     (case write_segment os c w files of
        (Inl _, _) \<Rightarrow> None
      | (Inr _, files) \<Rightarrow> write_segments os cs w files)"

lemma write_segments_append:
  assumes "write_segments os cs w files = Some files'" and "files (fw_partial w) = Some c"
  shows "files' = files(fw_partial w \<mapsto> c @ concat cs)"
  using assms
proof (induction cs arbitrary: files c)
  case (Cons x cs)
  from Cons.prems have "write_segments os cs w (append_to (fw_partial w) x files) = Some files'"
    by (auto simp: write_segment_def split: if_splits option.splits)
  from Cons.IH [OF this, of "c @ x"] Cons.prems(2) show ?case by (auto simp: append_to_def fun_eq_iff)
qed auto

lemma open_write_ok:
  assumes "provider_ok self" and "open_write os files self nof len = (Inr w, files')"
  shows "\<exists>rel. fw_final_path w = fsp_base_dir self @ rel" "fw_partial w = with_partial_suffix (fw_final_path w)"
    "files' = files(fw_partial w \<mapsto> [])" "resolve self nof = Inl (NotFound nof) \<Longrightarrow> fw_final_path w = upload_target self nof"
proof -
  have "(\<exists>rel. fw_final_path w = fsp_base_dir self @ rel) \<and> fw_partial w = with_partial_suffix (fw_final_path w) \<and>
      files' = files(fw_partial w \<mapsto> []) \<and> (resolve self nof = Inl (NotFound nof) \<longrightarrow> fw_final_path w = upload_target self nof)"
  proof (cases "resolve self nof")
    case (Inl e)
    then have "e = NotFound nof" by (auto simp: resolve_def split: option.splits)
    with assms(2) Inl show ?thesis by (auto simp: open_write_def upload_target_def Let_def split: if_splits)
  next
    case (Inr p)
    then obtain rel where "p = fsp_base_dir self @ rel" using resolve_ok [OF assms(1)] by blast
    with assms(2) Inr show ?thesis by (auto simp: open_write_def Let_def split: if_splits)
  qed
  then show "\<exists>rel. fw_final_path w = fsp_base_dir self @ rel" "fw_partial w = with_partial_suffix (fw_final_path w)"
    "files' = files(fw_partial w \<mapsto> [])" "resolve self nof = Inl (NotFound nof) \<Longrightarrow> fw_final_path w = upload_target self nof"
    by blast+
qed

lemma partial_differs: "with_partial_suffix p \<noteq> p"
proof
  assume eq: "with_partial_suffix p = p"
  have "last (with_partial_suffix p) = last p @ octets_of ''.partial''" by (simp add: with_partial_suffix_def)
  with eq have "octets_of ''.partial'' = []" by simp
  then show False by (simp add: octets_of_def)
qed

end
