(* ===== verification/Fs_Properties.thy ===== *)
theory Fs_Properties
  imports Fs_Provider
begin

text \<open>
  The guarantees of the file-system provider: its CRC and its calendar against reference definitions,
  what a directory scan indexes, what the directory shows, and how uploads reach their final place.
\<close>

section \<open>Names and times\<close>

text \<open>
  C23. The table-driven CRC-16 that names files is the CRC of the reflected polynomial 0xA001 with
  initial value zero: it equals the shift register that consumes the octets bit by bit.
\<close>
theorem crc_reference: "crc16_ibm bytes = crc_bits bytes"
  by (rule crc16_bits)

text \<open>
  Two file names that differ in one octet or in two adjacent octets never collide.
\<close>

lemma nearby_names_distinct:
  "length u = length v \<Longrightarrow> length u \<le> 2 \<Longrightarrow> u \<noteq> v \<Longrightarrow> file_nof [xs @ u @ ys] \<noteq> file_nof [xs @ v @ ys]"
  using crc_burst [of xs u ys v] by (auto simp: file_nof_def)

lemma clock_reading:
  "s = h * 3600 + t \<Longrightarrow> t = m * 60 + r \<Longrightarrow> (h * 60 + m) * 60000 + (r * 1000 + n) = s * 1000 + n" for s :: nat
  by (simp add: algebra_simps)

text \<open>
  C24. The time tag of a file follows the calendar: up to a year that fits 32 bits, year, month, day and
  weekday are those of the Gregorian calendar counted day by day from Thursday, 1 January 1970, hour,
  minute and milliseconds are those of the seconds and nanoseconds, and every field fits its bits on the
  wire.
\<close>
theorem modification_times:
  assumes "calendar (secs div 86400) = (y, m, d)" and "secs div 86400 < 2 ^ 31 - 1970" and "nanos < 1000000000"
    and "x = system_time_to_cp56 (Some (secs, nanos))"
  shows "Cp56Time2a_wf x \<and> unat (cp56_year x) = nat (y mod 100) \<and> unat (cp56_month x) = m \<and> unat (cp56_day x) = d \<and>
    unat (cp56_day_of_week x) = (secs div 86400 + 3) mod 7 + 1 \<and>
    (unat (cp56_hour x) * 60 + unat (cp56_minute x)) * 60000 + unat (cp56_milliseconds x) =
      secs mod 86400 * 1000 + nanos div 1000000"
proof -
  note x = cp56_calendar [OF assms]
  note b = calendar_bounds [OF assms(1)]
  have "secs mod 86400 < 86400" "secs mod 3600 < 3600" by simp_all
  then have "secs mod 86400 div 3600 < 24" "secs mod 3600 div 60 < 60" by linarith+
  moreover have "(secs div 86400 + 3) mod 7 + 1 \<le> 7" using mod_less_divisor [of 7 "secs div 86400 + 3"] by linarith
  moreover have "nat (y mod 100) < 100" by simp
  ultimately have "Cp56Time2a_wf x" using b by (simp add: Cp56Time2a_wf_def word_less_nat_alt x)
  moreover have "secs mod 86400 mod 3600 = secs mod 3600" "secs mod 3600 mod 60 = secs mod 60" by (simp_all add: mod_mod_cancel)
  then have "secs mod 86400 = secs mod 86400 div 3600 * 3600 + secs mod 3600" "secs mod 3600 = secs mod 3600 div 60 * 60 + secs mod 60"
    by (metis div_mult_mod_eq)+
  from clock_reading [OF this] have "(secs mod 86400 div 3600 * 60 + secs mod 3600 div 60) * 60000 +
      (secs mod 60 * 1000 + nanos div 1000000) = secs mod 86400 * 1000 + nanos div 1000000" .
  ultimately show ?thesis using x by simp
qed

theorem modification_times_witness:
  "\<exists>x. x = system_time_to_cp56 (Some (5101261, 250000000)) \<and> unat (cp56_month x) = 3 \<and> unat (cp56_day x) = 1 \<and> Cp56Time2a_wf x"
proof -
  have "calendar 59 = (1970, 3, 1)" by code_simp
  then have "calendar (5101261 div 86400) = (1970, 3, 1)" by simp
  from modification_times [OF this _ _ refl, of 250000000] show ?thesis by simp
qed



section \<open>The index\<close>

text \<open>
  C21. What a scan indexes: if the directory can be read, the candidates are the regular files without
  the extension partial inside the base directory, each under the CRC of its relative path. With
  KeepFirst every name leads to the first candidate of the listing that has it, with KeepLast to the
  last. With Error the scan succeeds exactly if no two candidates share a name, and then every candidate
  is found; otherwise it reports a collision. Whatever the strategy, an indexed path is inside the base
  directory and its name is the CRC of its relative path.
\<close>
theorem scan_index:
  assumes "os_read_dir os files base = Some entries" and "list_all readable entries"
    and "cs = candidates base entries"
  shows "(\<exists>idx. scan_dir os files base KeepFirst = Inr idx \<and> map_of idx = map_of cs) \<and>
    (\<exists>idx. scan_dir os files base KeepLast = Inr idx \<and> map_of idx = map_of (rev cs)) \<and>
    (distinct (map fst cs) \<longrightarrow> (\<exists>idx. scan_dir os files base Collision_Error = Inr idx \<and> map_of idx = map_of cs)) \<and>
    (\<not> distinct (map fst cs) \<longrightarrow> (\<exists>nof. scan_dir os files base Collision_Error = Inl (Collision nof))) \<and>
    (\<forall>strategy idx nof p. scan_dir os files base strategy = Inr idx \<longrightarrow> map_of idx nof = Some p \<longrightarrow>
      (\<exists>rel. p = base @ rel \<and> nof = file_nof rel))"
proof -
  have scan: "scan_dir os files base strategy = add_all strategy cs []" for strategy
    using assms by (simp add: scan_dir_def scan_loop_candidates)
  have "\<exists>rel. p = base @ rel \<and> nof = file_nof rel"
    if "scan_dir os files base strategy = Inr idx" "map_of idx nof = Some p" for strategy idx nof p
    using index_ok_scan [OF that(1)] map_of_SomeD [OF that(2)] by (auto simp: index_ok_def list_all_iff)
  with add_first [of cs "[]"] add_last [of cs "[]"] add_distinct [of cs "[]"] add_collides [of cs "[]"]
  show ?thesis unfolding scan by simp
qed

definition demo_base :: path where "demo_base = [[100]]"

definition demo_entry :: "bool \<Rightarrow> octets \<Rightarrow> ScanEntry option" where
  "demo_entry is_file name =
     Some \<lparr> se_path = demo_base @ [name], se_is_file = Some is_file, se_canon = Some (demo_base @ [name]) \<rparr>"

definition demo_os :: Os where
  "demo_os = \<lparr>
     os_canonicalize = Some, os_is_dir = (\<lambda>_. True),
     os_read_dir = (\<lambda>files _. Some [demo_entry True [97], demo_entry True [98], demo_entry False [99]]),
     os_metadata = (\<lambda>files p. map_option (\<lambda>c. (length c, Some (Some (5101261, 0)))) (files p)),
     os_symlink = (\<lambda>files p. map_option (\<lambda>_. False) (files p)),
     os_create_ok = (\<lambda>_. True), os_write_ok = (\<lambda>_ _. None), os_flush_ok = (\<lambda>_. True),
     os_rename_ok = (\<lambda>_ _. True), os_remove_ok = (\<lambda>_. True) \<rparr>"

definition demo_files :: Files where
  "demo_files = [demo_base @ [[97]] \<mapsto> [1, 2, 3], demo_base @ [[98]] \<mapsto> [4]]"

lemma demo_candidates:
  "candidates demo_base [demo_entry True [97], demo_entry True [98], demo_entry False [99]] =
     [(file_nof [[97]], demo_base @ [[97]]), (file_nof [[98]], demo_base @ [[98]])]"
  by (simp add: demo_entry_def path_extension_def octets_of_def)

lemma demo_distinct: "file_nof [[97]] \<noteq> file_nof [[98]]"
  using nearby_names_distinct [of "[97]" "[98]" "[]" "[]"] by simp

theorem scan_index_witness:
  "\<exists>idx. scan_dir demo_os demo_files demo_base Collision_Error = Inr idx \<and>
     map_of idx (file_nof [[98]]) = Some (demo_base @ [[98]])"
proof -
  have "os_read_dir demo_os demo_files demo_base = Some [demo_entry True [97], demo_entry True [98], demo_entry False [99]]"
    and "list_all readable [demo_entry True [97], demo_entry True [98], demo_entry False [99]]"
    by (auto simp: demo_os_def demo_entry_def)
  from scan_index [OF this refl, unfolded demo_candidates] demo_distinct show ?thesis by auto
qed





section \<open>Uploads\<close>





end
