(* ===== verification/Ft_Task.thy ===== *)
theory Ft_Task
  imports Session_Runs Driver104 Fs_Provider
begin

text \<open>
  The file-transfer service, \<^verbatim>\<open>crates/iec60870/src/file_transfer/service.rs\<close> with the configuration and
  the traits of \<^verbatim>\<open>provider.rs\<close> and the events of \<^verbatim>\<open>events.rs\<close>: a table of sessions, one for each
  common address and file name, driven by requests of the application, by file-transfer ASDUs of the
  peer and by ticks.

  The provider is a trait object: a record of functions over the provider's state \<open>'p\<close>, readers \<open>'r\<close>
  and writers \<open>'w\<close>. The one-shot sender of a reply is a number. The hash map of sessions is an
  association list, and the order in which \<^verbatim>\<open>on_tick\<close> visits its keys is a parameter, as are the clock
  and whether the driver still receives commands. What the service does to the outside is a trace.
\<close>

section \<open>Configuration, events, provider\<close>

record FileTransferConfig =
  ftc_max_segment_bytes :: nat
  ftc_max_section_bytes :: u32
  ftc_idle_timeout :: Duration
  ftc_max_concurrent_sessions :: nat
  ftc_max_inbound_file_bytes :: u32

definition FileTransferConfig_default :: FileTransferConfig where
  "FileTransferConfig_default =
     \<lparr> ftc_max_segment_bytes = 240, ftc_max_section_bytes = 0xFFFFFFFF, ftc_idle_timeout = Duration_from_secs 30,
       ftc_max_concurrent_sessions = 8, ftc_max_inbound_file_bytes = 16 * 1024 * 1024 \<rparr>"

datatype FileTransferOutcome = Outcome_Completed u32 | Outcome_Failed FailureReason

datatype FileTransferEvent =
    Ft_Started CommonAddress NameOfFile SessionRole
  | Ft_SegmentTransferred CommonAddress NameOfFile u32
  | Ft_Finished CommonAddress NameOfFile FileTransferOutcome

record ('p, 'r, 'w) provider_api =
  prov_lookup :: "NameOfFile \<Rightarrow> 'p \<Rightarrow> FileMetadata option ft_result"
  prov_open_read :: "NameOfFile \<Rightarrow> 'p \<Rightarrow> 'r ft_result"
  prov_open_write :: "NameOfFile \<Rightarrow> u32 \<Rightarrow> 'p \<Rightarrow> 'w ft_result \<times> 'p"
  prov_read :: "nat \<Rightarrow> 'r \<Rightarrow> octets option ft_result \<times> 'r"
  prov_write :: "octets \<Rightarrow> 'w \<Rightarrow> 'p \<Rightarrow> unit ft_result \<times> 'p"
  prov_finalize :: "bool \<Rightarrow> 'w \<Rightarrow> 'p \<Rightarrow> unit ft_result \<times> 'p"

section \<open>State\<close>

type_synonym session_key = "CommonAddress \<times> NameOfFile"

datatype Intent = Fetch CommonAddress NameOfFile nat | Push CommonAddress NameOfFile nat

record ('r, 'w) ActiveSession =
  act_session :: Session
  act_reader :: "'r option"
  act_writer :: "'w option"
  act_reply :: "nat option"
  act_last_tick :: Instant

datatype Ft_Effect =
    Ft_Reply nat "u32 ft_result"
  | Ft_Command octets
  | Ft_Event FileTransferEvent

record Ft_World =
  ft_clock :: "nat \<Rightarrow> Instant"
  ft_driver_open :: "Ft_Effect list \<Rightarrow> bool"
  ft_key_order :: "session_key list \<Rightarrow> session_key list"

record ('p, 'r, 'w) Ft_Service =
  svc_config :: FileTransferConfig
  svc_provider :: 'p
  svc_sessions :: "(session_key \<times> ('r, 'w) ActiveSession) list"
  svc_clock_reads :: nat
  svc_trace :: "Ft_Effect list"

definition ft_build :: "'p \<Rightarrow> FileTransferConfig \<Rightarrow> ('p, 'r, 'w) Ft_Service" where
  "ft_build provider config =
     \<lparr> svc_config = config, svc_provider = provider, svc_sessions = [], svc_clock_reads = 0, svc_trace = [] \<rparr>"

definition session_config :: "('p, 'r, 'w) Ft_Service \<Rightarrow> SessionConfig" where
  "session_config self =
     \<lparr> max_segment_bytes = ftc_max_segment_bytes (svc_config self), idle_timeout = ftc_idle_timeout (svc_config self),
       scfg_ioa = Ioa 0 \<rparr>"

text \<open>Effects and the clock; \<^verbatim>\<open>get_mut\<close> and \<^verbatim>\<open>insert\<close> of the table.\<close>

definition ft_log :: "Ft_Effect \<Rightarrow> ('p, 'r, 'w) Ft_Service \<Rightarrow> ('p, 'r, 'w) Ft_Service" where
  "ft_log e self = self\<lparr> svc_trace := svc_trace self @ [e] \<rparr>"

definition ft_now :: "Ft_World \<Rightarrow> ('p, 'r, 'w) Ft_Service \<Rightarrow> Instant \<times> ('p, 'r, 'w) Ft_Service" where
  "ft_now w self = (ft_clock w (svc_clock_reads self), self\<lparr> svc_clock_reads := Suc (svc_clock_reads self) \<rparr>)"

definition get_session :: "session_key \<Rightarrow> ('p, 'r, 'w) Ft_Service \<Rightarrow> ('r, 'w) ActiveSession option" where
  "get_session key self = map_of (svc_sessions self) key"

definition put_session :: "session_key \<Rightarrow> ('r, 'w) ActiveSession \<Rightarrow> ('p, 'r, 'w) Ft_Service \<Rightarrow> ('p, 'r, 'w) Ft_Service" where
  "put_session key active self = self\<lparr> svc_sessions := AList.update key active (svc_sessions self) \<rparr>"

section \<open>Carrying out actions\<close>

definition ft_send ::
    "bytes_api \<Rightarrow> Ft_World \<Rightarrow> 'x payload_impl \<Rightarrow> CommonAddress \<Rightarrow> 'x \<Rightarrow> ('p, 'r, 'w) Ft_Service \<Rightarrow> ('p, 'r, 'w) Ft_Service" where
  "ft_send bo w P ca payload self =
     (let asdu = Asdu_from_payload P (Cot_with Cause_FILE_TRANSFER) ca (Vsq_single 1) payload AsduAddressing_IEC104;
          buf = Asdu_encode bo asdu [] AsduAddressing_IEC104
      in if ft_driver_open w (svc_trace self) then ft_log (Ft_Command buf) self else self)"

definition pump_reader ::
    "('p, 'r, 'w) provider_api \<Rightarrow> Ft_World \<Rightarrow> session_key \<Rightarrow> nat \<Rightarrow> ('p, 'r, 'w) Ft_Service \<Rightarrow>
      SessionAction list \<times> ('p, 'r, 'w) Ft_Service" where
  "pump_reader api w key max_bytes self =
     (case get_session key self of
        None \<Rightarrow> ([], self)
      | Some active \<Rightarrow>
          (case act_reader active of
             None \<Rightarrow> ([], self)
           | Some r \<Rightarrow>
               (let (got, r) = prov_read api max_bytes r;
                    chunk = (case got of Inr (Some c) \<Rightarrow> c | Inr None \<Rightarrow> [] | Inl e \<Rightarrow> []);
                    (now, self) = ft_now w self;
                    (session, acts) = session_step (SegmentReady chunk) now (act_session active)
                in (acts, put_session key (active\<lparr> act_reader := Some r, act_session := session \<rparr>) self))))"

definition deliver_segment ::
    "('p, 'r, 'w) provider_api \<Rightarrow> session_key \<Rightarrow> octets \<Rightarrow> ('p, 'r, 'w) Ft_Service \<Rightarrow> ('p, 'r, 'w) Ft_Service" where
  "deliver_segment api key bytes self =
     (case get_session key self of
        None \<Rightarrow> self
      | Some active \<Rightarrow>
          (let self = (case act_writer active of
                         Some wr \<Rightarrow> self\<lparr> svc_provider := snd (prov_write api bytes wr (svc_provider self)) \<rparr>
                       | None \<Rightarrow> self)
           in ft_log (Ft_Event (Ft_SegmentTransferred (fst key) (snd key) (of_nat (length bytes)))) self))"

definition failure_to_error :: "FailureReason \<Rightarrow> FileTransferError" where
  "failure_to_error reason =
     (case reason of
        Timeout \<Rightarrow> Ft_Other
      | PeerRejected \<Rightarrow> Ft_Other
      | LocallyRejected \<Rightarrow> Ft_Other
      | SectionChecksumMismatch \<Rightarrow> Ft_ChecksumMismatch
      | ProtocolViolation \<Rightarrow> Ft_Other
      | Aborted \<Rightarrow> Ft_Other)"

definition finalize_session ::
    "('p, 'r, 'w) provider_api \<Rightarrow> session_key \<Rightarrow> FileTransferOutcome \<Rightarrow> ('p, 'r, 'w) Ft_Service \<Rightarrow> ('p, 'r, 'w) Ft_Service" where
  "finalize_session api key outcome self =
     (case get_session key self of
        None \<Rightarrow> self
      | Some active \<Rightarrow>
          (let self = self\<lparr> svc_sessions := AList.delete key (svc_sessions self) \<rparr>;
               success = (case outcome of Outcome_Completed _ \<Rightarrow> True | Outcome_Failed _ \<Rightarrow> False);
               self = (case act_writer active of
                         Some wr \<Rightarrow> self\<lparr> svc_provider := snd (prov_finalize api success wr (svc_provider self)) \<rparr>
                       | None \<Rightarrow> self);
               result = (case outcome of Outcome_Completed bytes \<Rightarrow> Inr bytes | Outcome_Failed reason \<Rightarrow> Inl (failure_to_error reason));
               self = (case act_reply active of Some reply \<Rightarrow> ft_log (Ft_Reply reply result) self | None \<Rightarrow> self)
           in ft_log (Ft_Event (Ft_Finished (fst key) (snd key) outcome)) self))"

text \<open>One action of the queue: the actions it adds at the end and the new state.\<close>

definition perform ::
    "bytes_api \<Rightarrow> ('p, 'r, 'w) provider_api \<Rightarrow> Ft_World \<Rightarrow> session_key \<Rightarrow> SessionAction \<Rightarrow> ('p, 'r, 'w) Ft_Service \<Rightarrow>
      SessionAction list \<times> ('p, 'r, 'w) Ft_Service" where
  "perform bo api w key action self =
     (case action of
        SendFileReady a \<Rightarrow> ([], ft_send bo w (F_FR_NA_1_impl bo) (fst key) a self)
      | SendSectionReady a \<Rightarrow> ([], ft_send bo w (F_SR_NA_1_impl bo) (fst key) a self)
      | SendSelectCall a \<Rightarrow> ([], ft_send bo w (F_SC_NA_1_impl bo) (fst key) a self)
      | SendLastSection a \<Rightarrow> ([], ft_send bo w (F_LS_NA_1_impl bo) (fst key) a self)
      | SendAckFile a \<Rightarrow> ([], ft_send bo w (F_AF_NA_1_impl bo) (fst key) a self)
      | SendSegment a \<Rightarrow> ([], ft_send bo w (F_SG_NA_1_impl bo) (fst key) a self)
      | RequestNextSegment max_bytes \<Rightarrow> pump_reader api w key max_bytes self
      | DeliverSegment bytes \<Rightarrow> ([], deliver_segment api key bytes self)
      | Action_Completed bytes \<Rightarrow> ([], finalize_session api key (Outcome_Completed bytes) self)
      | Action_Failed reason \<Rightarrow> ([], finalize_session api key (Outcome_Failed reason) self))"

partial_function (option) apply_queue ::
    "bytes_api \<Rightarrow> ('p, 'r, 'w) provider_api \<Rightarrow> Ft_World \<Rightarrow> session_key \<Rightarrow> SessionAction list \<Rightarrow> ('p, 'r, 'w) Ft_Service \<Rightarrow>
      ('p, 'r, 'w) Ft_Service option" where
  "apply_queue bo api w key queue self =
     (case queue of
        [] \<Rightarrow> Some self
      | action # queue \<Rightarrow>
          (let (extra, self) = perform bo api w key action self
           in apply_queue bo api w key (queue @ extra) self))"

declare apply_queue.simps [code]

section \<open>Requests, ASDUs, ticks\<close>

definition ft_reply :: "nat \<Rightarrow> u32 ft_result \<Rightarrow> ('p, 'r, 'w) Ft_Service \<Rightarrow> ('p, 'r, 'w) Ft_Service" where
  "ft_reply reply result self = ft_log (Ft_Reply reply result) self"

text \<open>The common end of both requests: a new session is started, entered into the table, and its actions applied.\<close>

definition begin_session ::
    "bytes_api \<Rightarrow> ('p, 'r, 'w) provider_api \<Rightarrow> Ft_World \<Rightarrow> session_key \<Rightarrow> SessionRole \<Rightarrow> u32 \<Rightarrow> 'r option \<Rightarrow> 'w option \<Rightarrow>
      nat \<Rightarrow> ('p, 'r, 'w) Ft_Service \<Rightarrow> ('p, 'r, 'w) Ft_Service option" where
  "begin_session bo api w key role len reader writer reply self =
     (let session = session_new role (snd key) (session_config self);
          (now, self) = ft_now w self;
          self = ft_log (Ft_Event (Ft_Started (fst key) (snd key) role)) self;
          (session, acts) = session_step (Session_Start len) now session;
          active = \<lparr> act_session = session, act_reader = reader, act_writer = writer, act_reply = Some reply, act_last_tick = now \<rparr>
      in apply_queue bo api w key acts (put_session key active self))"

definition on_intent ::
    "bytes_api \<Rightarrow> ('p, 'r, 'w) provider_api \<Rightarrow> Ft_World \<Rightarrow> Intent \<Rightarrow> ('p, 'r, 'w) Ft_Service \<Rightarrow> ('p, 'r, 'w) Ft_Service option" where
  "on_intent bo api w intent self =
     (case intent of
        Fetch ca nof reply \<Rightarrow>
          (if get_session (ca, nof) self \<noteq> None then Some (ft_reply reply (Inl InvalidState) self)
           else if length (svc_sessions self) \<ge> ftc_max_concurrent_sessions (svc_config self) then
             Some (ft_reply reply (Inl InvalidState) self)
           else
             (case prov_open_write api nof 0 (svc_provider self) of
                (Inl e, p) \<Rightarrow> Some (ft_reply reply (Inl e) (self\<lparr> svc_provider := p \<rparr>))
              | (Inr wr, p) \<Rightarrow>
                  begin_session bo api w (ca, nof) Receiver 0 None (Some wr) reply (self\<lparr> svc_provider := p \<rparr>)))
      | Push ca nof reply \<Rightarrow>
          (if get_session (ca, nof) self \<noteq> None then Some (ft_reply reply (Inl InvalidState) self)
           else if length (svc_sessions self) \<ge> ftc_max_concurrent_sessions (svc_config self) then
             Some (ft_reply reply (Inl InvalidState) self)
           else
             (case prov_lookup api nof (svc_provider self) of
                Inl e \<Rightarrow> Some (ft_reply reply (Inl e) self)
              | Inr None \<Rightarrow> Some (ft_reply reply (Inl (NotFound nof)) self)
              | Inr (Some meta) \<Rightarrow>
                  (case prov_open_read api nof (svc_provider self) of
                     Inl e \<Rightarrow> Some (ft_reply reply (Inl e) self)
                   | Inr rd \<Rightarrow> begin_session bo api w (ca, nof) Sender (fm_length meta) (Some rd) None reply self))))"

definition peek_nof :: "Asdu \<Rightarrow> NameOfFile option" where
  "peek_nof asdu =
     (let bytes = asdu_payload asdu
      in if length bytes < 5 then None else Some (NameOfFile (u16_from_le_bytes (bytes ! 3) (bytes ! 4))))"

definition decode_as :: "'x payload_impl \<Rightarrow> ('x \<Rightarrow> SessionInput) \<Rightarrow> Asdu \<Rightarrow> SessionInput option outcome" where
  "decode_as P mk asdu =
     (case Asdu_decode_payload P asdu AsduAddressing_IEC104 of
        Ok x \<Rightarrow> Ok (Some (mk x))
      | Err _ \<Rightarrow> Ok None
      | Panic \<Rightarrow> Panic)"

definition decode_ft_asdu :: "bytes_api \<Rightarrow> Asdu \<Rightarrow> SessionInput option outcome" where
  "decode_ft_asdu bo asdu =
     (if asdu_type_id asdu = 120 then decode_as (F_FR_NA_1_impl bo) FileReady asdu
      else if asdu_type_id asdu = 121 then decode_as (F_SR_NA_1_impl bo) SectionReady asdu
      else if asdu_type_id asdu = 122 then decode_as (F_SC_NA_1_impl bo) SelectCall asdu
      else if asdu_type_id asdu = 123 then decode_as (F_LS_NA_1_impl bo) LastSection asdu
      else if asdu_type_id asdu = 124 then decode_as (F_AF_NA_1_impl bo) AckFile asdu
      else if asdu_type_id asdu = 125 then decode_as (F_SG_NA_1_impl bo) Segment asdu
      else Ok None)"

text \<open>
  A passive session for an unsolicited ASDU. \<open>None\<close> is the early return of the caller; a panic of the
  decoder is passed on.
\<close>

definition accept_session ::
    "bytes_api \<Rightarrow> ('p, 'r, 'w) provider_api \<Rightarrow> Ft_World \<Rightarrow> session_key \<Rightarrow> Asdu \<Rightarrow> ('p, 'r, 'w) Ft_Service \<Rightarrow>
      (bool \<times> ('p, 'r, 'w) Ft_Service) outcome" where
  "accept_session bo api w key asdu self =
     (if length (svc_sessions self) \<ge> ftc_max_concurrent_sessions (svc_config self) then Ok (False, self)
      else if asdu_type_id asdu = 120 then
        (case Asdu_decode_payload (F_FR_NA_1_impl bo) asdu AsduAddressing_IEC104 of
           Panic \<Rightarrow> Panic
         | Err _ \<Rightarrow> Ok (False, self)
         | Ok fr \<Rightarrow>
             (if (case fr_lof fr of LengthOfFile n \<Rightarrow> n) > ftc_max_inbound_file_bytes (svc_config self) then Ok (False, self)
              else
                (case prov_open_write api (snd key) 0 (svc_provider self) of
                   (Inl e, p) \<Rightarrow> Ok (False, self\<lparr> svc_provider := p \<rparr>)
                 | (Inr wr, p) \<Rightarrow>
                     (let self = self\<lparr> svc_provider := p \<rparr>;
                          (now, self) = ft_now w self;
                          active = \<lparr> act_session = session_new Receiver (snd key) (session_config self), act_reader = None,
                                     act_writer = Some wr, act_reply = None, act_last_tick = now \<rparr>;
                          self = ft_log (Ft_Event (Ft_Started (fst key) (snd key) Receiver)) self
                      in Ok (True, put_session key active self)))))
      else if asdu_type_id asdu = 122 then
        (case prov_lookup api (snd key) (svc_provider self) of
           Inr (Some meta) \<Rightarrow>
             (case prov_open_read api (snd key) (svc_provider self) of
                Inl e \<Rightarrow> Ok (False, self)
              | Inr rd \<Rightarrow>
                  (let session = session_new Sender (snd key) (session_config self);
                       (now, self) = ft_now w self;
                       (session, _) = session_step (Session_Start (fm_length meta)) now session;
                       (now, self) = ft_now w self;
                       active = \<lparr> act_session = session, act_reader = Some rd, act_writer = None, act_reply = None, act_last_tick = now \<rparr>;
                       self = ft_log (Ft_Event (Ft_Started (fst key) (snd key) Sender)) self
                   in Ok (True, put_session key active self)))
         | _ \<Rightarrow> Ok (False, self))
      else Ok (False, self))"

definition on_incoming ::
    "bytes_api \<Rightarrow> ('p, 'r, 'w) provider_api \<Rightarrow> Ft_World \<Rightarrow> CommonAddress \<Rightarrow> Asdu \<Rightarrow> ('p, 'r, 'w) Ft_Service \<Rightarrow>
      ('p, 'r, 'w) Ft_Service outcome option" where
  "on_incoming bo api w ca asdu self =
     (case peek_nof asdu of
        None \<Rightarrow> Some (Ok self)
      | Some nof \<Rightarrow>
          (case (if get_session (ca, nof) self = None then accept_session bo api w (ca, nof) asdu self else Ok (True, self)) of
             Panic \<Rightarrow> Some Panic
           | Err e \<Rightarrow> Some (Err e)
           | Ok (False, self) \<Rightarrow> Some (Ok self)
           | Ok (True, self) \<Rightarrow>
               (case decode_ft_asdu bo asdu of
                  Panic \<Rightarrow> Some Panic
                | Err e \<Rightarrow> Some (Err e)
                | Ok None \<Rightarrow> Some (Ok self)
                | Ok (Some input) \<Rightarrow>
                    (case get_session (ca, nof) self of
                       None \<Rightarrow> Some Panic
                     | Some active \<Rightarrow>
                         (let (now, self) = ft_now w self;
                              (session, acts) = session_step input now (act_session active);
                              active = active\<lparr> act_last_tick := now, act_session := session \<rparr>
                          in map_option Ok (apply_queue bo api w (ca, nof) acts (put_session (ca, nof) active self)))))))"

fun tick_keys ::
    "bytes_api \<Rightarrow> ('p, 'r, 'w) provider_api \<Rightarrow> Ft_World \<Rightarrow> Instant \<Rightarrow> session_key list \<Rightarrow> ('p, 'r, 'w) Ft_Service \<Rightarrow>
      ('p, 'r, 'w) Ft_Service option" where
  "tick_keys bo api w now [] self = Some self"
| "tick_keys bo api w now (key # keys) self =
     (case get_session key self of
        None \<Rightarrow> tick_keys bo api w now keys self
      | Some active \<Rightarrow>
          (let (session, acts) = session_step Session_Tick now (act_session active);
               self = put_session key (active\<lparr> act_session := session \<rparr>) self
           in case (if acts = [] then Some self else apply_queue bo api w key acts self) of
                None \<Rightarrow> None
              | Some self \<Rightarrow> tick_keys bo api w now keys self))"

definition ft_on_tick ::
    "bytes_api \<Rightarrow> ('p, 'r, 'w) provider_api \<Rightarrow> Ft_World \<Rightarrow> ('p, 'r, 'w) Ft_Service \<Rightarrow> ('p, 'r, 'w) Ft_Service option" where
  "ft_on_tick bo api w self =
     (let (now, self) = ft_now w self
      in tick_keys bo api w now (ft_key_order w (map fst (svc_sessions self))) self)"

section \<open>The task\<close>

datatype Ft_Wake = Ft_Intent Intent | Ft_Incoming CommonAddress Asdu | Ft_Tick

definition ft_step ::
    "bytes_api \<Rightarrow> ('p, 'r, 'w) provider_api \<Rightarrow> Ft_World \<Rightarrow> Ft_Wake \<Rightarrow> ('p, 'r, 'w) Ft_Service \<Rightarrow>
      ('p, 'r, 'w) Ft_Service outcome option" where
  "ft_step bo api w wake self =
     (case wake of
        Ft_Intent intent \<Rightarrow> map_option Ok (on_intent bo api w intent self)
      | Ft_Incoming ca asdu \<Rightarrow> on_incoming bo api w ca asdu self
      | Ft_Tick \<Rightarrow> map_option Ok (ft_on_tick bo api w self))"

fun ft_run ::
    "bytes_api \<Rightarrow> ('p, 'r, 'w) provider_api \<Rightarrow> Ft_World \<Rightarrow> Ft_Wake list \<Rightarrow> ('p, 'r, 'w) Ft_Service \<Rightarrow>
      ('p, 'r, 'w) Ft_Service outcome option" where
  "ft_run bo api w [] self = Some (Ok self)"
| "ft_run bo api w (wake # wakes) self =
     (case ft_step bo api w wake self of
        None \<Rightarrow> None
      | Some Panic \<Rightarrow> Some Panic
      | Some (Err e) \<Rightarrow> Some (Err e)
      | Some (Ok self) \<Rightarrow> ft_run bo api w wakes self)"

end
