(* ===== verification/Ft_Runs.thy ===== *)
theory Ft_Runs
  imports Ft_Task "HOL-Library.Multiset"
begin

text \<open>
  Invariants and termination of the file-transfer service. The work queue of \<^verbatim>\<open>apply_actions\<close> is followed
  action by action; the table is observed through its lookup function.
\<close>

section \<open>The table\<close>

lemma alist_update_length:
  "length (AList.update k v al) = (if map_of al k = None then Suc (length al) else length al)"
  by (induction al) auto

lemma get_simps [simp]:
  "get_session k (put_session key a self) = (if k = key then Some a else get_session k self)"
  "get_session k (ft_log e self) = get_session k self"
  "get_session k (self\<lparr> svc_provider := p \<rparr>) = get_session k self"
  "get_session k (self\<lparr> svc_clock_reads := n \<rparr>) = get_session k self"
  "get_session k (self\<lparr> svc_sessions := AList.delete key (svc_sessions self) \<rparr>) =
     (if k = key then None else get_session k self)"
  by (simp_all add: get_session_def put_session_def ft_log_def update_conv' delete_conv')

lemma table_simps [simp]:
  "svc_config (put_session key a self) = svc_config self" "svc_trace (put_session key a self) = svc_trace self"
  "svc_sessions (ft_log e self) = svc_sessions self" "svc_config (ft_log e self) = svc_config self"
  "svc_trace (ft_log e self) = svc_trace self @ [e]"
  by (simp_all add: put_session_def ft_log_def)

section \<open>Sessions step by step\<close>

definition is_verdict :: "SessionAction \<Rightarrow> bool" where
  "is_verdict a \<longleftrightarrow> (\<exists>n. a = Action_Completed n) \<or> (\<exists>r. a = Action_Failed r)"

definition verdict_pending :: "Session \<Rightarrow> bool" where
  "verdict_pending s \<longleftrightarrow> list_ex is_verdict (ses_actions s)"

text \<open>What every handler keeps: identity, and that a terminal session has a verdict among its actions.\<close>

definition handles :: "Session \<Rightarrow> Session \<Rightarrow> bool" where
  "handles s s' \<longleftrightarrow>
     ses_role s' = ses_role s \<and> ses_nof s' = ses_nof s \<and> ses_config s' = ses_config s \<and>
     (ses_state s \<noteq> Idle \<longrightarrow> ses_state s' \<noteq> Idle) \<and>
     (is_terminal s' \<longrightarrow> is_terminal s \<or> verdict_pending s') \<and> (verdict_pending s \<longrightarrow> verdict_pending s')"

lemma handles_refl [simp]: "handles s s"
  by (simp add: handles_def)

lemma handles_trans: "handles a b \<Longrightarrow> handles b c \<Longrightarrow> handles a c"
  by (auto simp: handles_def)

lemmas handles_defs = handles_def is_terminal_def verdict_pending_def is_verdict_def ses_emit_def

lemma handles_fail [simp]: "handles s (ses_fail r s)"
  by (auto simp: handles_defs ses_fail_def)

lemma handles_timeout: "handles s (check_timeout now s)"
  by (auto simp: check_timeout_def split: option.split) (simp_all add: handles_defs)

lemma handles_ops:
  "handles s (on_start len s)" "handles s (on_file_ready fr now s)" "handles s (on_section_ready sr now s)"
  "handles s (on_select_call sc now s)" "handles s (on_last_section ls now s)" "handles s (on_ack_file af now s)"
  "handles s (on_segment sg now s)" "handles s (on_segment_ready bytes now s)"
  by (auto simp: ses_ops handles_defs ses_fail_def request_next_segment_def Let_def split: SessionRole.split ScqAction.split)

lemma handles_dispatch: "handles s (session_dispatch input now s)"
  by (simp add: session_dispatch_def handles_ops split: SessionInput.split)

lemma step_keeps:
  assumes "session_step input now s = (s', acts)" and "ses_actions s = []"
  shows "ses_role s' = ses_role s \<and> ses_nof s' = ses_nof s \<and> ses_config s' = ses_config s \<and> ses_actions s' = [] \<and>
    (ses_state s \<noteq> Idle \<longrightarrow> ses_state s' \<noteq> Idle) \<and>
    (if is_terminal s then s' = s \<and> acts = [] else is_terminal s' \<longrightarrow> list_ex is_verdict acts)"
proof (cases "is_terminal s")
  case True
  with assms show ?thesis by (simp add: session_step_def)
next
  case False
  let ?t = "check_timeout now (session_dispatch input now s)"
  have "handles s ?t" by (rule handles_trans [OF handles_dispatch handles_timeout])
  moreover from False assms(1) have "s' = ?t\<lparr> ses_actions := [] \<rparr>" "acts = ses_actions ?t"
    by (simp_all add: session_step_def Let_def)
  ultimately show ?thesis using False by (simp add: handles_def verdict_pending_def is_terminal_def)
qed

section \<open>The invariant\<close>

definition active_ok :: "session_key \<Rightarrow> ('r, 'w) ActiveSession \<Rightarrow> bool" where
  "active_ok key a \<longleftrightarrow>
     ses_nof (act_session a) = snd key \<and> ses_actions (act_session a) = [] \<and>
     (case ses_role (act_session a) of
        Receiver \<Rightarrow> act_writer a \<noteq> None \<and> act_reader a = None
      | Sender \<Rightarrow> act_reader a \<noteq> None \<and> act_writer a = None)"

definition resting :: "('r, 'w) ActiveSession \<Rightarrow> bool" where
  "resting a \<longleftrightarrow> ses_state (act_session a) \<noteq> Idle \<and> \<not> is_terminal (act_session a)"

definition table_ok :: "('p, 'r, 'w) Ft_Service \<Rightarrow> bool" where
  "table_ok self \<longleftrightarrow>
     distinct (map fst (svc_sessions self)) \<and>
     length (svc_sessions self) \<le> ftc_max_concurrent_sessions (svc_config self) \<and>
     (\<forall>key a. get_session key self = Some a \<longrightarrow>
       active_ok key a \<and> ses_config (act_session a) = session_config self)"

definition service_ok :: "('p, 'r, 'w) Ft_Service \<Rightarrow> bool" where
  "service_ok self \<longleftrightarrow> table_ok self \<and> (\<forall>key a. get_session key self = Some a \<longrightarrow> resting a)"

text \<open>
  While the actions of one session are being applied, that session may be terminal, but then its verdict
  is in the queue.
\<close>

definition queue_ok :: "session_key \<Rightarrow> SessionAction list \<Rightarrow> ('p, 'r, 'w) Ft_Service \<Rightarrow> bool" where
  "queue_ok key queue self \<longleftrightarrow>
     table_ok self \<and> (\<forall>k a. k \<noteq> key \<longrightarrow> get_session k self = Some a \<longrightarrow> resting a) \<and>
     (\<forall>a. get_session key self = Some a \<longrightarrow>
       ses_state (act_session a) \<noteq> Idle \<and> (is_terminal (act_session a) \<longrightarrow> list_ex is_verdict queue))"

lemma session_config_simps [simp]:
  "session_config (put_session key a self) = session_config self" "session_config (ft_log e self) = session_config self"
  "session_config (self\<lparr> svc_provider := p \<rparr>) = session_config self"
  "session_config (self\<lparr> svc_sessions := l \<rparr>) = session_config self"
  "session_config (self\<lparr> svc_clock_reads := n \<rparr>) = session_config self"
  by (simp_all add: session_config_def)

lemma table_ok_frame [simp]:
  "table_ok (ft_log e self) = table_ok self" "table_ok (self\<lparr> svc_provider := p \<rparr>) = table_ok self"
  "table_ok (self\<lparr> svc_clock_reads := n \<rparr>) = table_ok self"
  by (simp_all add: table_ok_def)

lemma queue_ok_frame [simp]:
  "queue_ok key q (ft_log e self) = queue_ok key q self" "queue_ok key q (self\<lparr> svc_provider := p \<rparr>) = queue_ok key q self"
  "queue_ok key q (self\<lparr> svc_clock_reads := n \<rparr>) = queue_ok key q self"
  by (simp_all add: queue_ok_def)

lemma service_ok_frame [simp]:
  "service_ok (ft_log e self) = service_ok self" "service_ok (self\<lparr> svc_provider := p \<rparr>) = service_ok self"
  "service_ok (self\<lparr> svc_clock_reads := n \<rparr>) = service_ok self"
  by (simp_all add: service_ok_def)

lemma table_ok_get:
  "table_ok self \<Longrightarrow> get_session key self = Some a \<Longrightarrow> active_ok key a \<and> ses_config (act_session a) = session_config self"
  unfolding table_ok_def by blast

lemma queue_ok_get:
  "queue_ok key queue self \<Longrightarrow> get_session key self = Some a \<Longrightarrow>
    active_ok key a \<and> ses_config (act_session a) = session_config self \<and> ses_state (act_session a) \<noteq> Idle \<and>
    (is_terminal (act_session a) \<longrightarrow> list_ex is_verdict queue)"
  unfolding queue_ok_def using table_ok_get by blast

lemma queue_ok_change:
  assumes "queue_ok key queue self" and "table_ok self'" and "\<And>k. k \<noteq> key \<Longrightarrow> get_session k self' = get_session k self"
    and "\<And>a. get_session key self' = Some a \<Longrightarrow>
      ses_state (act_session a) \<noteq> Idle \<and> (is_terminal (act_session a) \<longrightarrow> list_ex is_verdict queue')"
  shows "queue_ok key queue' self'"
  using assms unfolding queue_ok_def by metis

lemma table_ok_put:
  assumes "table_ok self" and "active_ok key a" and "ses_config (act_session a) = session_config self"
    and "get_session key self \<noteq> None \<or> length (svc_sessions self) < ftc_max_concurrent_sessions (svc_config self)"
  shows "table_ok (put_session key a self)"
  using assms unfolding table_ok_def
  by (auto simp: put_session_def distinct_update alist_update_length get_session_def [symmetric] split: if_splits)
    (simp_all add: get_session_def update_conv' split: if_splits)

lemma table_ok_delete:
  "table_ok self \<Longrightarrow> table_ok (self\<lparr> svc_sessions := AList.delete key (svc_sessions self) \<rparr>)"
  unfolding table_ok_def using length_delete_le [of key "svc_sessions self"]
  by (auto simp: distinct_delete split: if_splits)

lemma queue_ok_Nil: "queue_ok key [] self = service_ok self"
proof -
  have "list_ex is_verdict [] = False" by simp
  then show ?thesis unfolding queue_ok_def service_ok_def resting_def by metis
qed

lemma queue_ok_gone:
  "queue_ok key (a # queue) self \<Longrightarrow> queue_ok key queue (self\<lparr> svc_sessions := AList.delete key (svc_sessions self) \<rparr>)"
proof -
  assume ok: "queue_ok key (a # queue) self"
  then have table: "table_ok self" by (simp add: queue_ok_def)
  show ?thesis by (rule queue_ok_change [OF ok table_ok_delete [OF table]]) simp_all
qed

lemma queue_ok_pass: "\<not> is_verdict a \<Longrightarrow> queue_ok key (a # queue) self \<Longrightarrow> queue_ok key queue self"
  by (simp add: queue_ok_def)

section \<open>The work queue\<close>

lemma apply_queue_induct [consumes 1, case_names Nil Cons]:
  assumes "apply_queue bo api w key queue self = Some self'"
    and "\<And>self. P [] self self"
    and "\<And>action queue self extra self1 self'. perform bo api w key action self = (extra, self1) \<Longrightarrow>
      P (queue @ extra) self1 self' \<Longrightarrow> P (action # queue) self self'"
  shows "P queue self self'"
proof -
  have "bo' = bo \<and> api' = api \<and> w' = w \<and> key' = key \<longrightarrow> P queue self self'"
    if "apply_queue bo' api' w' key' queue self = Some self'" for bo' api' w' key'
  proof (rule apply_queue.raw_induct [where P = "\<lambda>bo' api' w' key' queue self self'.
      bo' = bo \<and> api' = api \<and> w' = w \<and> key' = key \<longrightarrow> P queue self self'", OF _ that])
    fix f bo' api' w' key' queue self self'
    assume IH: "\<And>bo' api' w' key' queue self self'. f bo' api' w' key' queue self = Some self' \<Longrightarrow>
        bo' = bo \<and> api' = api \<and> w' = w \<and> key' = key \<longrightarrow> P queue self self'"
      and eq: "(case queue of [] \<Rightarrow> Some self
        | action # queue \<Rightarrow> let (extra, self) = perform bo' api' w' key' action self in f bo' api' w' key' (queue @ extra) self) = Some self'"
    show "bo' = bo \<and> api' = api \<and> w' = w \<and> key' = key \<longrightarrow> P queue self self'"
    proof (cases queue)
      case Nil
      with eq assms(2) show ?thesis by simp
    next
      case (Cons action rest)
      obtain extra self1 where perf: "perform bo' api' w' key' action self = (extra, self1)" by fastforce
      with eq Cons have "f bo' api' w' key' (rest @ extra) self1 = Some self'" by simp
      from IH [OF this] assms(3) perf Cons show ?thesis by blast
    qed
  qed
  with assms(1) show ?thesis by blast
qed

lemma apply_queue_simps [simp]:
  "apply_queue bo api w key [] self = Some self"
  "apply_queue bo api w key (action # queue) self =
     (let (extra, self) = perform bo api w key action self in apply_queue bo api w key (queue @ extra) self)"
  by (subst apply_queue.simps, simp)+

lemma send_frame [simp]:
  "get_session k (ft_send bo w P ca x self) = get_session k self" "queue_ok key q (ft_send bo w P ca x self) = queue_ok key q self"
  "svc_sessions (ft_send bo w P ca x self) = svc_sessions self"
  by (simp_all add: ft_send_def Let_def)

lemma now_frame:
  "ft_now w self = (now, self1) \<Longrightarrow> self1 = self\<lparr> svc_clock_reads := Suc (svc_clock_reads self) \<rparr>"
  by (simp add: ft_now_def)

lemma queue_ok_step:
  assumes ok: "queue_ok key (a # queue) self" and a: "\<not> is_verdict a" and act: "get_session key self = Some active"
    and step: "session_step input now (act_session active) = (session, acts)"
    and same: "act_session active' = session" "active_ok key active'"
  shows "queue_ok key (queue @ acts) (put_session key active' self)"
proof -
  note s = queue_ok_get [OF ok act]
  from s have "ses_actions (act_session active) = []" by (simp add: active_ok_def)
  note keeps = step_keeps [OF step this]
  show ?thesis
  proof (rule queue_ok_change [OF ok])
    show "table_ok (put_session key active' self)"
      using ok act same keeps s by (intro table_ok_put) (simp_all add: queue_ok_def)
  next
    fix b assume "get_session key (put_session key active' self) = Some b"
    then show "ses_state (act_session b) \<noteq> Idle \<and> (is_terminal (act_session b) \<longrightarrow> list_ex is_verdict (queue @ acts))"
      using same keeps s a by (cases "is_terminal (act_session active)") auto
  qed simp
qed

lemma pump_ok:
  assumes ok: "queue_ok key (RequestNextSegment n # queue) self" and "pump_reader api w key n self = (extra, self1)"
  shows "queue_ok key (queue @ extra) self1"
proof (cases "get_session key self")
  case None
  with assms show ?thesis by (auto simp: pump_reader_def is_verdict_def intro: queue_ok_pass)
next
  case (Some active)
  show ?thesis
  proof (cases "act_reader active")
    case None
    with assms Some show ?thesis by (auto simp: pump_reader_def is_verdict_def intro: queue_ok_pass)
  next
    case (Some r)
    obtain got r' where read: "prov_read api n r = (got, r')" by fastforce
    obtain chunk now session where step: "session_step (SegmentReady chunk) now (act_session active) = (session, extra)"
      and self1: "self1 = put_session key (active\<lparr> act_reader := Some r', act_session := session \<rparr>)
        (self\<lparr> svc_clock_reads := Suc (svc_clock_reads self) \<rparr>)"
      using assms(2) \<open>get_session key self = Some active\<close> Some read
      by (auto simp: pump_reader_def ft_now_def Let_def split: prod.splits)
    from queue_ok_get [OF ok \<open>get_session key self = Some active\<close>] have "active_ok key active" by simp
    then have "active_ok key (active\<lparr> act_reader := Some r', act_session := session \<rparr>)"
      using step_keeps [OF step] Some by (auto simp: active_ok_def split: SessionRole.splits)
    then show ?thesis
      unfolding self1 using ok \<open>get_session key self = Some active\<close> step
      by (intro queue_ok_step [where active = active]) (auto simp: is_verdict_def)
  qed
qed

lemma deliver_ok: "queue_ok key q (deliver_segment api k bytes self) = queue_ok key q self"
  by (auto simp: deliver_segment_def Let_def split: option.split)

lemma finalize_ok: "queue_ok key (a # queue) self \<Longrightarrow> queue_ok key queue (finalize_session api key outcome self)"
proof (cases "get_session key self")
  case None
  assume "queue_ok key (a # queue) self"
  then have "queue_ok key queue self" by (rule queue_ok_change) (use \<open>queue_ok key (a # queue) self\<close> None in \<open>simp_all add: queue_ok_def\<close>)
  with None show ?thesis by (simp add: finalize_session_def)
next
  case (Some active)
  assume "queue_ok key (a # queue) self"
  from queue_ok_gone [OF this] Some show ?thesis
    by (auto simp: finalize_session_def Let_def split: option.split)
qed

lemma perform_ok:
  assumes "queue_ok key (action # queue) self" and "perform bo api w key action self = (extra, self1)"
  shows "queue_ok key (queue @ extra) self1"
proof (cases action)
  case (RequestNextSegment n)
  with assms show ?thesis using pump_ok [of key n queue self] by (simp add: perform_def)
next
  case (Action_Completed n)
  with assms show ?thesis using finalize_ok [of key action queue self] by (auto simp: perform_def)
next
  case (Action_Failed r)
  with assms show ?thesis using finalize_ok [of key action queue self] by (auto simp: perform_def)
qed (use assms in \<open>auto simp: perform_def deliver_ok is_verdict_def intro: queue_ok_pass\<close>)

lemma apply_queue_ok:
  "apply_queue bo api w key queue self = Some self' \<Longrightarrow> queue_ok key queue self \<Longrightarrow> service_ok self'"
  by (induction rule: apply_queue_induct) (auto simp: queue_ok_Nil dest: perform_ok)

section \<open>Requests, ASDUs, ticks\<close>

definition others_ok :: "session_key \<Rightarrow> ('p, 'r, 'w) Ft_Service \<Rightarrow> bool" where
  "others_ok key self \<longleftrightarrow> table_ok self \<and> (\<forall>k a. k \<noteq> key \<longrightarrow> get_session k self = Some a \<longrightarrow> resting a)"

lemma others_ok_frame [simp]:
  "others_ok key (ft_log e self) = others_ok key self" "others_ok key (self\<lparr> svc_provider := p \<rparr>) = others_ok key self"
  "others_ok key (self\<lparr> svc_clock_reads := n \<rparr>) = others_ok key self"
  by (simp_all add: others_ok_def)

lemma service_others: "service_ok self \<Longrightarrow> others_ok key self"
  unfolding service_ok_def others_ok_def by blast

lemma others_put:
  assumes "others_ok key self" and "active_ok key a" and "ses_config (act_session a) = session_config self"
    and "get_session key self \<noteq> None \<or> length (svc_sessions self) < ftc_max_concurrent_sessions (svc_config self)"
  shows "others_ok key (put_session key a self)"
  using assms table_ok_put [OF _ assms(2-4)] unfolding others_ok_def get_simps by presburger

lemma queue_ok_insert:
  assumes "others_ok key self" and "active_ok key a" and "ses_config (act_session a) = session_config self"
    and "get_session key self \<noteq> None \<or> length (svc_sessions self) < ftc_max_concurrent_sessions (svc_config self)"
    and "ses_state (act_session a) \<noteq> Idle" and "is_terminal (act_session a) \<Longrightarrow> list_ex is_verdict acts"
  shows "queue_ok key acts (put_session key a self)"
  using others_put [OF assms(1-4)] assms(5,6) by (simp add: others_ok_def queue_ok_def)

lemma start_step:
  assumes "session_step (Session_Start len) now (session_new role nof cfg) = (s, acts)"
  shows "ses_role s = role" "ses_nof s = nof" "ses_config s = cfg" "ses_actions s = []" "ses_state s \<noteq> Idle" "\<not> is_terminal s"
    "\<not> list_ex is_verdict acts"
  using assms by (cases role; auto simp: session_step_def session_dispatch_def on_start_def session_new_def is_terminal_def
    check_timeout_def ses_emit_def is_verdict_def Let_def)+

lemma begin_queue:
  assumes "service_ok self" and "get_session key self = None"
    and "length (svc_sessions self) < ftc_max_concurrent_sessions (svc_config self)"
    and "case role of Receiver \<Rightarrow> wr \<noteq> None \<and> rd = None | Sender \<Rightarrow> rd \<noteq> None \<and> wr = None"
  shows "\<exists>acts a. act_reply a = Some reply \<and>
    (let self1 = ft_log (Ft_Event (Ft_Started (fst key) (snd key) role)) (self\<lparr> svc_clock_reads := Suc (svc_clock_reads self) \<rparr>)
     in queue_ok key acts (put_session key a self1) \<and>
        begin_session bo api w key role len rd wr reply self = apply_queue bo api w key acts (put_session key a self1))"
proof -
  let ?now = "ft_clock w (svc_clock_reads self)"
  let ?self1 = "ft_log (Ft_Event (Ft_Started (fst key) (snd key) role)) (self\<lparr> svc_clock_reads := Suc (svc_clock_reads self) \<rparr>)"
  obtain s acts where step: "session_step (Session_Start len) ?now (session_new role (snd key) (session_config self)) = (s, acts)"
    by fastforce
  let ?a = "\<lparr> act_session = s, act_reader = rd, act_writer = wr, act_reply = Some reply, act_last_tick = ?now \<rparr>"
  have "begin_session bo api w key role len rd wr reply self = apply_queue bo api w key acts (put_session key ?a ?self1)"
    using step by (simp add: begin_session_def ft_now_def Let_def)
  moreover have "queue_ok key acts (put_session key ?a ?self1)"
    by (rule queue_ok_insert)
      (use assms start_step [OF step] service_others in \<open>simp_all add: active_ok_def split: SessionRole.splits\<close>)
  moreover have "act_reply ?a = Some reply" by simp
  ultimately show ?thesis unfolding Let_def by blast
qed

lemma begin_ok:
  assumes "service_ok self" and "get_session key self = None"
    and "length (svc_sessions self) < ftc_max_concurrent_sessions (svc_config self)"
    and "case role of Receiver \<Rightarrow> wr \<noteq> None \<and> rd = None | Sender \<Rightarrow> rd \<noteq> None \<and> wr = None"
    and "begin_session bo api w key role len rd wr reply self = Some self'"
  shows "service_ok self'"
  using begin_queue [OF assms(1-4), of reply bo api w len] assms(5) apply_queue_ok unfolding Let_def by fastforce

lemma intent_ok:
  assumes "service_ok self" and "on_intent bo api w intent self = Some self'"
  shows "service_ok self'"
proof (cases intent)
  case (Fetch ca nof reply)
  with assms show ?thesis
    by (auto simp: on_intent_def ft_reply_def split: if_splits prod.splits sum.splits
      dest!: begin_ok [rotated 4])
next
  case (Push ca nof reply)
  with assms show ?thesis
    by (auto simp: on_intent_def ft_reply_def split: if_splits prod.splits sum.splits option.splits
      dest!: begin_ok [rotated 4])
qed

text \<open>
  A passive session accepted for a request of the peer is at rest; one accepted for an announcement is
  still idle, and the announcement decodes.
\<close>

definition accepted :: "bytes_api \<Rightarrow> session_key \<Rightarrow> Asdu \<Rightarrow> ('p, 'r, 'w) Ft_Service \<Rightarrow> bool" where
  "accepted bo key asdu self \<longleftrightarrow>
     service_ok self \<or>
     others_ok key self \<and> (\<exists>a fr. get_session key self = Some a \<and> active_ok key a \<and>
       act_session a = session_new Receiver (snd key) (session_config self) \<and> decode_ft_asdu bo asdu = Ok (Some (FileReady fr)))"

lemma accept_ok:
  assumes ok: "service_ok self" and none: "get_session key self = None"
    and acc: "accept_session bo api w key asdu self = Ok (b, self1)"
  shows "if b then accepted bo key asdu self1 \<and> get_session key self1 \<noteq> None else service_ok self1"
proof (cases "asdu_type_id asdu = 120 \<and> b")
  case True
  then obtain fr wr p now where fr: "Asdu_decode_payload (F_FR_NA_1_impl bo) asdu AsduAddressing_IEC104 = Ok fr"
    and room: "length (svc_sessions self) < ftc_max_concurrent_sessions (svc_config self)"
    and self1: "self1 = put_session key \<lparr> act_session = session_new Receiver (snd key) (session_config self), act_reader = None,
        act_writer = Some wr, act_reply = None, act_last_tick = now \<rparr>
      (ft_log (Ft_Event (Ft_Started (fst key) (snd key) Receiver)) (self\<lparr> svc_provider := p, svc_clock_reads := Suc (svc_clock_reads self) \<rparr>))"
    using acc by (auto simp: accept_session_def ft_now_def Let_def split: if_splits outcome.splits prod.splits sum.splits)
  have "decode_ft_asdu bo asdu = Ok (Some (FileReady fr))" using fr True by (simp add: decode_ft_asdu_def decode_as_def)
  moreover have "others_ok key self1"
    unfolding self1 by (rule others_put) (use service_others [OF ok] room in \<open>simp_all add: active_ok_def session_new_def\<close>)
  ultimately show ?thesis using True unfolding accepted_def
    by (auto simp: self1 active_ok_def session_new_def)
next
  case False
  show ?thesis
  proof (cases b)
    case True
    with False acc have "asdu_type_id asdu = 122" by (auto simp: accept_session_def split: if_splits)
    then obtain len now session acts rd now' where
        step: "session_step (Session_Start len) now (session_new Sender (snd key) (session_config self)) = (session, acts)"
      and room: "length (svc_sessions self) < ftc_max_concurrent_sessions (svc_config self)"
      and self1: "self1 = put_session key \<lparr> act_session = session, act_reader = Some rd, act_writer = None, act_reply = None,
          act_last_tick = now' \<rparr> (ft_log (Ft_Event (Ft_Started (fst key) (snd key) Sender))
            (self\<lparr> svc_clock_reads := Suc (Suc (svc_clock_reads self)) \<rparr>))"
      using acc True by (auto simp: accept_session_def ft_now_def Let_def split: if_splits option.splits prod.splits sum.splits)
    have "queue_ok key [] self1"
      unfolding self1 by (rule queue_ok_insert)
        (use service_others [OF ok] room start_step [OF step] in \<open>simp_all add: active_ok_def\<close>)
    with True show ?thesis by (simp add: accepted_def queue_ok_Nil self1)
  next
    case False
    with acc ok have "service_ok self1"
      by (auto simp: accept_session_def ft_now_def Let_def split: if_splits option.splits prod.splits sum.splits outcome.splits)
    with False show ?thesis by simp
  qed
qed

lemma incoming_step_ok:
  assumes acc: "accepted bo key asdu self" and act: "get_session key self = Some active"
    and dec: "decode_ft_asdu bo asdu = Ok (Some input)"
    and step: "session_step input now (act_session active) = (session, acts)"
  shows "queue_ok key acts (put_session key (active\<lparr> act_last_tick := t, act_session := session \<rparr>) self)"
proof (cases "service_ok self")
  case True
  then have "table_ok self" "resting active" using act unfolding service_ok_def by blast+
  from table_ok_get [OF this(1) act] have a: "active_ok key active" "ses_config (act_session active) = session_config self" by simp_all
  then have "ses_actions (act_session active) = []" by (simp add: active_ok_def)
  note keeps = step_keeps [OF step this]
  show ?thesis
    by (rule queue_ok_insert) (use service_others [OF True] a act keeps \<open>resting active\<close> in \<open>auto simp: active_ok_def resting_def split: SessionRole.splits\<close>)
next
  case False
  with acc act obtain fr where a: "others_ok key self" "active_ok key active"
      "act_session active = session_new Receiver (snd key) (session_config self)" "input = FileReady fr"
    using dec by (auto simp: accepted_def)
  then have "session = (session_new Receiver (snd key) (session_config self))\<lparr> ses_state := Session_Failed \<rparr>"
      "acts = [Action_Failed ProtocolViolation]"
    using step unsolicited_file_ready [of fr now "snd key" "session_config self"] by simp_all
  then show ?thesis using a act
    by (intro queue_ok_insert) (auto simp: active_ok_def session_new_def is_verdict_def)
qed

text \<open>
  An ASDU either leaves the service with a possibly accepted session, or steps one session and applies
  its actions.
\<close>

lemma incoming_cases:
  assumes "service_ok self"
  obtains (ignored) "on_incoming bo api w ca asdu self = Some (Ok self)"
  | (undecodable) nof where "(\<nexists>b self1. accept_session bo api w (ca, nof) asdu self = Ok (b, self1)) \<or> (\<nexists>x. decode_ft_asdu bo asdu = Ok x)"
      "\<And>self'. on_incoming bo api w ca asdu self \<noteq> Some (Ok self')"
  | (routed) nof b self1 where
      "self1 = self \<or> get_session (ca, nof) self = None \<and> accept_session bo api w (ca, nof) asdu self = Ok (b, self1)"
      "service_ok self1" "on_incoming bo api w ca asdu self = Some (Ok self1)"
  | (stepped) nof b self1 active now session acts self2 where
      "self1 = self \<or> get_session (ca, nof) self = None \<and> accept_session bo api w (ca, nof) asdu self = Ok (b, self1)"
      "get_session (ca, nof) self1 = Some active"
      "self2 = put_session (ca, nof) (active\<lparr> act_last_tick := now, act_session := session \<rparr>)
         (self1\<lparr> svc_clock_reads := Suc (svc_clock_reads self1) \<rparr>)"
      "queue_ok (ca, nof) acts self2"
      "on_incoming bo api w ca asdu self = map_option Ok (apply_queue bo api w (ca, nof) acts self2)"
proof (cases "peek_nof asdu")
  case None
  with ignored show ?thesis by (simp add: on_incoming_def)
next
  case (Some nof)
  let ?key = "(ca, nof)"
  let ?acc = "if get_session ?key self = None then accept_session bo api w ?key asdu self else Ok (True, self)"
  show ?thesis
  proof (cases "\<exists>b self1. ?acc = Ok (b, self1)")
    case False
    then have "\<And>self'. on_incoming bo api w ca asdu self \<noteq> Some (Ok self')"
      using Some unfolding on_incoming_def by (cases ?acc) auto
    moreover have "\<nexists>b self1. accept_session bo api w ?key asdu self = Ok (b, self1)"
      using False by (auto split: if_splits)
    ultimately show ?thesis using undecodable by blast
  next
    case True
    then obtain b self1 where acc: "?acc = Ok (b, self1)" by blast
    then have via: "self1 = self \<or> get_session ?key self = None \<and> accept_session bo api w ?key asdu self = Ok (b, self1)"
      by (auto split: if_splits)
    have ok: "if b then accepted bo ?key asdu self1 \<and> get_session ?key self1 \<noteq> None else service_ok self1"
    proof (cases "get_session ?key self = None")
      case True
      with acc have "accept_session bo api w ?key asdu self = Ok (b, self1)" by simp
      from accept_ok [OF assms True this] show ?thesis .
    next
      case False
      with acc assms show ?thesis by (simp add: accepted_def)
    qed
    show ?thesis
    proof (cases "b \<and> (\<nexists>x. decode_ft_asdu bo asdu = Ok x)")
      case True
      then have "\<And>self'. on_incoming bo api w ca asdu self \<noteq> Some (Ok self')"
        using Some acc unfolding on_incoming_def by (cases "decode_ft_asdu bo asdu") auto
      with True show ?thesis using undecodable [of nof] by blast
    next
      case dec: False
      show ?thesis
      proof (cases "b \<and> decode_ft_asdu bo asdu \<noteq> Ok None")
        case False
        with ok have "service_ok self1" by (auto simp: accepted_def split: if_splits)
        moreover have "on_incoming bo api w ca asdu self = Some (Ok self1)"
          using False Some acc unfolding on_incoming_def by (cases b) auto
        ultimately show ?thesis using routed via by blast
      next
        case True
        with ok dec obtain active input where act: "get_session ?key self1 = Some active" and acc1: "accepted bo ?key asdu self1"
          and input: "decode_ft_asdu bo asdu = Ok (Some input)" and b: b by (auto split: if_splits)
        let ?now = "ft_clock w (svc_clock_reads self1)" and ?self1 = "self1\<lparr> svc_clock_reads := Suc (svc_clock_reads self1) \<rparr>"
        obtain session acts where step: "session_step input ?now (act_session active) = (session, acts)" by fastforce
        let ?self2 = "put_session ?key (active\<lparr> act_last_tick := ?now, act_session := session \<rparr>) ?self1"
        have "on_incoming bo api w ca asdu self = map_option Ok (apply_queue bo api w ?key acts ?self2)"
          using Some acc b input act step unfolding on_incoming_def by (simp add: ft_now_def)
        moreover have "accepted bo ?key asdu ?self1" using acc1 by (simp add: accepted_def)
        then have "queue_ok ?key acts ?self2" by (rule incoming_step_ok [OF _ _ input step]) (simp add: act)
        ultimately show ?thesis using stepped via act by blast
      qed
    qed
  qed
qed

lemma incoming_ok:
  assumes "service_ok self" and "on_incoming bo api w ca asdu self = Some (Ok self')"
  shows "service_ok self'"
  using assms(1)
proof (cases rule: incoming_cases [of self bo api w ca asdu])
  case (stepped nof b self1 active now session acts self2)
  with assms(2) show ?thesis using apply_queue_ok by auto
qed (use assms in auto)

lemma tick_step_ok:
  assumes "service_ok self" and "get_session key self = Some active"
    and "session_step Session_Tick now (act_session active) = (session, acts)"
  shows "queue_ok key acts (put_session key (active\<lparr> act_session := session \<rparr>) self)"
proof -
  have "table_ok self" "resting active" using assms(1,2) unfolding service_ok_def by blast+
  from table_ok_get [OF this(1) assms(2)] have a: "active_ok key active" "ses_config (act_session active) = session_config self" by simp_all
  then have "ses_actions (act_session active) = []" by (simp add: active_ok_def)
  note keeps = step_keeps [OF assms(3) this]
  show ?thesis
    by (rule queue_ok_insert) (use service_others [OF assms(1)] a assms(2) keeps \<open>resting active\<close> in
      \<open>auto simp: active_ok_def resting_def split: SessionRole.splits\<close>)
qed

lemma tick_keys_Cons:
  assumes "service_ok self" and "get_session key self = Some active"
  shows "\<exists>session acts. session_step Session_Tick now (act_session active) = (session, acts) \<and>
    queue_ok key acts (put_session key (active\<lparr> act_session := session \<rparr>) self) \<and>
    tick_keys bo api w now (key # keys) self =
      (case apply_queue bo api w key acts (put_session key (active\<lparr> act_session := session \<rparr>) self) of
         None \<Rightarrow> None
       | Some self1 \<Rightarrow> tick_keys bo api w now keys self1)"
proof -
  obtain session acts where step: "session_step Session_Tick now (act_session active) = (session, acts)" by fastforce
  with assms(2) show ?thesis using tick_step_ok [OF assms step] by (cases "acts = []") simp_all
qed

lemma tick_keys_ok:
  "service_ok self \<Longrightarrow> tick_keys bo api w now keys self = Some self' \<Longrightarrow> service_ok self'"
proof (induction keys arbitrary: self)
  case (Cons key keys)
  show ?case
  proof (cases "get_session key self")
    case None
    with Cons show ?thesis by simp
  next
    case (Some active)
    from tick_keys_Cons [OF Cons.prems(1) Some, of now bo api w keys] Cons.IH Cons.prems(2) apply_queue_ok
    show ?thesis by (metis option.case_eq_if option.collapse option.distinct(1))
  qed
qed simp

lemma ft_step_ok: "service_ok self \<Longrightarrow> ft_step bo api w wake self = Some (Ok self') \<Longrightarrow> service_ok self'"
  by (cases wake) (auto simp: ft_step_def ft_on_tick_def ft_now_def Let_def intro: intent_ok incoming_ok dest: tick_keys_ok [rotated])

lemma ft_run_ok: "ft_run bo api w wakes self = Some (Ok self') \<Longrightarrow> service_ok self \<Longrightarrow> service_ok self'"
proof (induction wakes arbitrary: self)
  case (Cons wake wakes)
  then obtain self1 where "ft_step bo api w wake self = Some (Ok self1)" "ft_run bo api w wakes self1 = Some (Ok self')"
    by (auto split: option.splits outcome.splits)
  with Cons ft_step_ok show ?case by blast
qed simp

lemma service_ok_build [simp]: "service_ok (ft_build p cfg)"
  by (simp add: service_ok_def table_ok_def ft_build_def get_session_def)

end
