(* ===== verification/Ft_Replies.thy ===== *)
theory Ft_Replies
  imports Ft_Runs
begin

text \<open>
  Two more invariants of the file-transfer service: every request is answered once, and the work queue
  of a step always empties, given a reader that reaches the end of its file.
\<close>

section \<open>Replies\<close>

definition reply_of :: "Ft_Effect \<Rightarrow> nat option" where
  "reply_of e = (case e of Ft_Reply n _ \<Rightarrow> Some n | _ \<Rightarrow> None)"

definition replies :: "Ft_Effect list \<Rightarrow> nat list" where
  "replies tr = List.map_filter reply_of tr"

definition waiting :: "(session_key \<times> ('r, 'w) ActiveSession) list \<Rightarrow> nat list" where
  "waiting l = List.map_filter (\<lambda>x. act_reply (snd x)) l"

definition balance :: "('p, 'r, 'w) Ft_Service \<Rightarrow> nat multiset" where
  "balance self = mset (replies (svc_trace self)) + mset (waiting (svc_sessions self))"

lemma replies_simps [simp]:
  "replies [] = []" "replies (tr @ tr') = replies tr @ replies tr'"
  "replies [Ft_Reply n r] = [n]" "replies [Ft_Command c] = []" "replies [Ft_Event ev] = []"
  by (simp_all add: replies_def reply_of_def map_filter_def)

lemma waiting_simps [simp]:
  "waiting [] = []" "waiting (x # l) = (case act_reply (snd x) of Some n \<Rightarrow> n # waiting l | None \<Rightarrow> waiting l)"
  by (simp_all add: waiting_def map_filter_simps split: option.split)

lemma waiting_replace:
  "map_of l key = Some a \<Longrightarrow> act_reply b = act_reply a \<Longrightarrow> mset (waiting (AList.update key b l)) = mset (waiting l)"
  by (induction l) (auto split: option.splits)

lemma waiting_new:
  "map_of l key = None \<Longrightarrow> mset (waiting (AList.update key a l)) = mset (waiting l) + mset_set (set_option (act_reply a))"
  by (induction l) (auto split: option.splits)

lemma waiting_delete:
  assumes "distinct (map fst l)" and "map_of l key = Some a"
  shows "mset (waiting l) = mset (waiting (AList.delete key l)) + mset_set (set_option (act_reply a))"
  using assms
proof (induction l)
  case (Cons x l)
  show ?case
  proof (cases "fst x = key")
    case True
    with Cons.prems have "AList.delete key l = l" by (auto simp: delete_id)
    with True Cons.prems show ?thesis by (cases x) (auto split: option.split)
  next
    case False
    with Cons show ?thesis by (cases x) (auto split: option.split)
  qed
qed simp

lemma balance_frame [simp]:
  "balance (self\<lparr> svc_provider := p \<rparr>) = balance self" "balance (self\<lparr> svc_clock_reads := n \<rparr>) = balance self"
  "balance (ft_log (Ft_Event ev) self) = balance self" "balance (ft_log (Ft_Command c) self) = balance self"
  "balance (ft_log (Ft_Reply n r) self) = add_mset n (balance self)"
  by (simp_all add: balance_def ft_log_def)

lemma balance_put:
  "get_session key self = Some a \<Longrightarrow> act_reply b = act_reply a \<Longrightarrow> balance (put_session key b self) = balance self"
  "get_session key self = None \<Longrightarrow> balance (put_session key b self) = balance self + mset_set (set_option (act_reply b))"
  by (simp_all add: balance_def put_session_def get_session_def waiting_replace waiting_new)

lemma balance_send [simp]: "balance (ft_send bo w P ca x self) = balance self"
  by (simp add: ft_send_def Let_def)

lemma balance_pump: "pump_reader api w key n self = (extra, self1) \<Longrightarrow> balance self1 = balance self"
  by (auto simp: pump_reader_def ft_now_def Let_def balance_put(1) split: option.splits prod.splits)

lemma balance_deliver: "balance (deliver_segment api key bytes self) = balance self"
  by (auto simp: deliver_segment_def Let_def split: option.split)

lemma balance_finalize:
  assumes "table_ok self"
  shows "balance (finalize_session api key outcome self) = balance self"
proof (cases "get_session key self")
  case None
  then show ?thesis by (simp add: finalize_session_def)
next
  case (Some a)
  have "balance self = balance (self\<lparr> svc_sessions := AList.delete key (svc_sessions self) \<rparr>) + mset_set (set_option (act_reply a))"
    using waiting_delete [of "svc_sessions self" key a] assms Some by (simp add: balance_def table_ok_def get_session_def)
  with Some show ?thesis
    by (cases "act_reply a"; cases "act_writer a") (simp_all add: finalize_session_def Let_def)
qed

lemma balance_perform:
  "perform bo api w key action self = (extra, self1) \<Longrightarrow> table_ok self \<Longrightarrow> balance self1 = balance self"
  by (cases action) (auto simp: perform_def balance_pump balance_deliver balance_finalize)

lemma balance_queue:
  "apply_queue bo api w key queue self = Some self' \<Longrightarrow> queue_ok key queue self \<Longrightarrow> balance self' = balance self"
proof (induction rule: apply_queue_induct)
  case (Cons action queue self extra self1 self')
  then have "table_ok self" by (simp add: queue_ok_def)
  from Cons perform_ok balance_perform [OF Cons.hyps this] show ?case by fastforce
qed simp

fun requests :: "Ft_Wake list \<Rightarrow> nat list" where
  "requests [] = []"
| "requests (Ft_Intent (Fetch _ _ n) # wakes) = n # requests wakes"
| "requests (Ft_Intent (Push _ _ n) # wakes) = n # requests wakes"
| "requests (_ # wakes) = requests wakes"

lemma balance_begin:
  assumes "service_ok self" and "get_session key self = None"
    and "length (svc_sessions self) < ftc_max_concurrent_sessions (svc_config self)"
    and "case role of Receiver \<Rightarrow> wr \<noteq> None \<and> rd = None | Sender \<Rightarrow> rd \<noteq> None \<and> wr = None"
    and "begin_session bo api w key role len rd wr reply self = Some self'"
  shows "balance self' = add_mset reply (balance self)"
proof -
  define self1 where "self1 = ft_log (Ft_Event (Ft_Started (fst key) (snd key) role)) (self\<lparr> svc_clock_reads := Suc (svc_clock_reads self) \<rparr>)"
  from begin_queue [OF assms(1-4), of reply bo api w len, unfolded Let_def, folded self1_def] assms(5)
  obtain acts a where a: "act_reply a = Some reply" "queue_ok key acts (put_session key a self1)"
    "apply_queue bo api w key acts (put_session key a self1) = Some self'" by auto
  have "get_session key self1 = None" "balance self1 = balance self" using assms(2) by (simp_all add: self1_def)
  with balance_queue [OF a(3,2)] balance_put(2) [of key self1 a] a(1) show ?thesis by simp
qed

lemma balance_intent:
  assumes "service_ok self" and "on_intent bo api w intent self = Some self'"
  shows "balance self' = balance self + mset (requests [Ft_Intent intent])"
proof (cases intent)
  case (Fetch ca nof reply)
  with assms show ?thesis
    by (auto simp: on_intent_def ft_reply_def split: if_splits prod.splits sum.splits dest!: balance_begin [rotated 4])
next
  case (Push ca nof reply)
  with assms show ?thesis
    by (auto simp: on_intent_def ft_reply_def split: if_splits prod.splits sum.splits option.splits dest!: balance_begin [rotated 4])
qed

lemma balance_accept:
  assumes "get_session key self = None" and "accept_session bo api w key asdu self = Ok (b, self1)"
  shows "balance self1 = balance self"
  using assms by (auto simp: accept_session_def ft_now_def Let_def balance_put(2)
    split: if_splits option.splits prod.splits sum.splits outcome.splits)

lemma balance_incoming:
  assumes "service_ok self" and "on_incoming bo api w ca asdu self = Some (Ok self')"
  shows "balance self' = balance self"
  using assms(1)
proof (cases rule: incoming_cases [of self bo api w ca asdu])
  case (routed nof b self1)
  with assms(2) balance_accept show ?thesis by fastforce
next
  case (stepped nof b self1 active now session acts self2)
  then have "balance self1 = balance self" using balance_accept by blast
  moreover have "balance self2 = balance self1"
    unfolding stepped(3) by (subst balance_put(1) [where a = active]) (simp_all add: stepped(2))
  moreover have "apply_queue bo api w (ca, nof) acts self2 = Some self'" using assms(2) by (simp add: stepped(5))
  from balance_queue [OF this stepped(4)] have "balance self' = balance self2" .
  ultimately show ?thesis by simp
qed (use assms in auto)

lemma balance_tick_keys:
  "service_ok self \<Longrightarrow> tick_keys bo api w now keys self = Some self' \<Longrightarrow> balance self' = balance self"
proof (induction keys arbitrary: self)
  case (Cons key keys)
  show ?case
  proof (cases "get_session key self")
    case None
    with Cons show ?thesis by simp
  next
    case (Some active)
    obtain session acts self1 where run: "queue_ok key acts (put_session key (active\<lparr> act_session := session \<rparr>) self)"
        "apply_queue bo api w key acts (put_session key (active\<lparr> act_session := session \<rparr>) self) = Some self1"
        "tick_keys bo api w now keys self1 = Some self'"
      using tick_keys_Cons [OF Cons.prems(1) Some, of now bo api w keys] Cons.prems(2) by (auto split: option.splits)
    from Cons.IH [OF apply_queue_ok [OF run(2,1)] run(3)] balance_queue [OF run(2,1)] balance_put(1) [OF Some]
    show ?thesis by simp
  qed
qed simp

lemma balance_step:
  "service_ok self \<Longrightarrow> ft_step bo api w wake self = Some (Ok self') \<Longrightarrow> balance self' = balance self + mset (requests [wake])"
  by (cases wake) (auto simp: ft_step_def ft_on_tick_def ft_now_def Let_def balance_intent balance_incoming
    dest!: balance_tick_keys [rotated])

lemma requests_Cons: "requests (wake # wakes) = requests [wake] @ requests wakes"
  by (cases "wake # wakes" rule: requests.cases) auto

lemma balance_run:
  "service_ok self \<Longrightarrow> ft_run bo api w wakes self = Some (Ok self') \<Longrightarrow> balance self' = balance self + mset (requests wakes)"
proof (induction wakes arbitrary: self)
  case (Cons wake wakes)
  then obtain self1 where step: "ft_step bo api w wake self = Some (Ok self1)" and run: "ft_run bo api w wakes self1 = Some (Ok self')"
    by (auto split: option.splits outcome.splits)
  from Cons.IH [OF ft_step_ok [OF Cons.prems(1) step] run] balance_step [OF Cons.prems(1) step]
  show ?case by (subst requests_Cons) (simp add: union_assoc)
qed simp

section \<open>The configuration\<close>

lemma config_frame [simp]:
  "svc_config (ft_log e self) = svc_config self" "svc_config (put_session key a self) = svc_config self"
  "svc_config (ft_send bo w P ca x self) = svc_config self" "svc_config (deliver_segment api key bytes self) = svc_config self"
  "svc_config (finalize_session api key outcome self) = svc_config self"
  by (auto simp: ft_log_def put_session_def ft_send_def deliver_segment_def finalize_session_def Let_def split: option.split)

lemma config_perform: "perform bo api w key action self = (extra, self1) \<Longrightarrow> svc_config self1 = svc_config self"
  by (cases action) (auto simp: perform_def pump_reader_def ft_now_def Let_def split: option.splits prod.splits)

lemma config_queue: "apply_queue bo api w key queue self = Some self' \<Longrightarrow> svc_config self' = svc_config self"
  by (induction rule: apply_queue_induct) (auto dest: config_perform)

lemma config_intent: "on_intent bo api w intent self = Some self' \<Longrightarrow> svc_config self' = svc_config self"
  by (cases intent) (auto simp: on_intent_def ft_reply_def begin_session_def ft_now_def Let_def
    split: if_splits prod.splits sum.splits option.splits dest!: config_queue)

lemma config_accept: "accept_session bo api w key asdu self = Ok (b, self1) \<Longrightarrow> svc_config self1 = svc_config self"
  by (auto simp: accept_session_def ft_now_def Let_def split: if_splits option.splits prod.splits sum.splits outcome.splits)

lemma config_incoming:
  assumes "service_ok self" and "on_incoming bo api w ca asdu self = Some (Ok self')"
  shows "svc_config self' = svc_config self"
  using assms(1)
proof (cases rule: incoming_cases [of self bo api w ca asdu])
  case (routed nof b self1)
  with assms(2) config_accept show ?thesis by fastforce
next
  case (stepped nof b self1 active now session acts self2)
  then have "svc_config self2 = svc_config self" using config_accept by fastforce
  moreover have "apply_queue bo api w (ca, nof) acts self2 = Some self'" using assms(2) by (simp add: stepped(5))
  ultimately show ?thesis by (simp add: config_queue)
qed (use assms in auto)

lemma config_tick_keys: "tick_keys bo api w now keys self = Some self' \<Longrightarrow> svc_config self' = svc_config self"
  by (induction keys arbitrary: self) (fastforce simp: Let_def split: option.splits prod.splits if_splits dest: config_queue)+

lemma config_run:
  "service_ok self \<Longrightarrow> ft_run bo api w wakes self = Some (Ok self') \<Longrightarrow> svc_config self' = svc_config self"
proof (induction wakes arbitrary: self)
  case (Cons wake wakes)
  then obtain self1 where step: "ft_step bo api w wake self = Some (Ok self1)" and run: "ft_run bo api w wakes self1 = Some (Ok self')"
    by (auto split: option.splits outcome.splits)
  have "svc_config self1 = svc_config self"
    using step Cons.prems(1) by (cases wake) (auto simp: ft_step_def ft_on_tick_def ft_now_def Let_def config_intent config_incoming
      dest!: config_tick_keys)
  with Cons.IH [OF ft_step_ok [OF Cons.prems(1) step] run] show ?case by simp
qed simp

section \<open>The queue empties\<close>

text \<open>
  The only law the service needs of a reader: a segment that is not empty brings the reader closer to
  the end of its file.
\<close>

locale file_reader =
  fixes api :: "('p, 'r, 'w) provider_api" and left :: "'r \<Rightarrow> nat"
  assumes progress: "prov_read api n r = (Inr (Some c), r') \<Longrightarrow> c \<noteq> [] \<Longrightarrow> left r' < left r"
    and no_rewind: "prov_read api n r = (got, r') \<Longrightarrow> left r' \<le> left r"

definition budget :: "('r \<Rightarrow> nat) \<Rightarrow> session_key \<Rightarrow> ('p, 'r, 'w) Ft_Service \<Rightarrow> nat" where
  "budget left key self =
     (case get_session key self of
        Some a \<Rightarrow> (case act_reader a of Some r \<Rightarrow> left r | None \<Rightarrow> 0)
      | None \<Rightarrow> 0)"

definition is_ask :: "SessionAction \<Rightarrow> bool" where
  "is_ask a \<longleftrightarrow> (\<exists>n. a = RequestNextSegment n)"

definition queue_order ::
    "('r \<Rightarrow> nat) \<Rightarrow> session_key \<Rightarrow> ((SessionAction list \<times> ('p, 'r, 'w) Ft_Service) \<times> SessionAction list \<times> ('p, 'r, 'w) Ft_Service) set" where
  "queue_order left key =
     measures [\<lambda>(q, self). budget left key self, \<lambda>(q, self). length (filter is_ask q), \<lambda>(q, self). length q]"

lemma queue_order_wf: "wf (queue_order left key)"
  by (simp add: queue_order_def)

lemma budget_frame [simp]:
  "budget left key (ft_log e self) = budget left key self" "budget left key (self\<lparr> svc_provider := p \<rparr>) = budget left key self"
  "budget left key (ft_send bo w P ca x self) = budget left key self"
  by (simp_all add: budget_def)

lemma empty_segment_asks_nothing:
  assumes "session_step (SegmentReady []) now s = (s', acts)" and "ses_actions s = []"
  shows "filter is_ask acts = []"
  using assms by (auto simp: session_step_def session_dispatch_def on_segment_ready_def check_timeout_def ses_fail_def ses_emit_def
    is_ask_def Let_def split: if_splits option.splits)

context file_reader
begin

lemma pump_decreases:
  assumes ok: "queue_ok key (RequestNextSegment n # queue) self" and pump: "pump_reader api w key n self = (extra, self1)"
  shows "((queue @ extra, self1), (RequestNextSegment n # queue, self)) \<in> queue_order left key"
proof (cases "\<exists>active r. get_session key self = Some active \<and> act_reader active = Some r")
  case False
  with pump have "extra = []" "self1 = self" by (auto simp: pump_reader_def split: option.splits)
  then show ?thesis by (simp add: queue_order_def is_ask_def)
next
  case True
  then obtain active r where act: "get_session key self = Some active" "act_reader active = Some r" by blast
  obtain got r' where read: "prov_read api n r = (got, r')" by fastforce
  define chunk where "chunk = (case got of Inr (Some c) \<Rightarrow> c | Inr None \<Rightarrow> [] | Inl e \<Rightarrow> [])"
  obtain now s where step: "session_step (SegmentReady chunk) now (act_session active) = (s, extra)"
    and self1: "self1 = put_session key (active\<lparr> act_reader := Some r', act_session := s \<rparr>) (self\<lparr> svc_clock_reads := Suc (svc_clock_reads self) \<rparr>)"
    using pump act read unfolding chunk_def by (auto simp: pump_reader_def ft_now_def Let_def split: prod.splits)
  have b: "budget left key self = left r" "budget left key self1 = left r'" using act by (simp_all add: budget_def self1)
  from queue_ok_get [OF ok act(1)] have idle: "ses_actions (act_session active) = []" by (simp add: active_ok_def)
  show ?thesis
  proof (cases "chunk = []")
    case True
    with empty_segment_asks_nothing step idle have "filter is_ask extra = []" by blast
    with b no_rewind [OF read] show ?thesis by (auto simp: queue_order_def is_ask_def)
  next
    case False
    then obtain c where "got = Inr (Some c)" "c \<noteq> []" by (auto simp: chunk_def split: sum.splits option.splits)
    with b progress read show ?thesis by (auto simp: queue_order_def)
  qed
qed

lemma budget_deliver [simp]: "budget left key (deliver_segment api k bytes self) = budget left key self"
  by (auto simp: deliver_segment_def Let_def split: option.split)

lemma budget_finalize: "budget left key (finalize_session api key outcome self) = 0"
  by (auto simp: finalize_session_def budget_def Let_def split: option.split)

lemma perform_decreases:
  assumes "queue_ok key (action # queue) self" and "perform bo api w key action self = (extra, self1)"
  shows "((queue @ extra, self1), (action # queue, self)) \<in> queue_order left key"
proof (cases action)
  case (RequestNextSegment n)
  with assms show ?thesis using pump_decreases by (simp add: perform_def)
qed (use assms in \<open>auto simp: perform_def queue_order_def is_ask_def budget_finalize\<close>)

lemma queue_total: "queue_ok key queue self \<Longrightarrow> \<exists>self'. apply_queue bo api w key queue self = Some self'"
proof -
  have "\<exists>self'. apply_queue bo api w key (fst x) (snd x) = Some self'" if "queue_ok key (fst x) (snd x)" for x
    using that
  proof (induction x rule: wf_induct_rule [OF queue_order_wf [of left key], consumes 0, case_names step])
    case (step x)
    show ?case
    proof (cases "fst x")
      case (Cons action rest)
      obtain extra self1 where perf: "perform bo api w key action (snd x) = (extra, self1)" by fastforce
      from step(2) Cons have ok: "queue_ok key (action # rest) (snd x)" by simp
      have "((rest @ extra, self1), x) \<in> queue_order left key" using perform_decreases [OF ok perf] Cons by (cases x) simp
      from step(1) [OF this] perform_ok [OF ok perf] Cons perf show ?thesis by simp
    qed simp
  qed
  from this [of "(queue, self)"] show "queue_ok key queue self \<Longrightarrow> ?thesis" by simp
qed

end

context bytes_crate
begin

lemma decode_ft_total: "\<exists>x. decode_ft_asdu bo asdu = Ok x"
  unfolding decode_ft_asdu_def decode_as_def
  using f_fr_na_1.payload_no_panic [of asdu AsduAddressing_IEC104] f_sr_na_1.payload_no_panic [of asdu AsduAddressing_IEC104]
    f_sc_na_1.payload_no_panic [of asdu AsduAddressing_IEC104] f_ls_na_1.payload_no_panic [of asdu AsduAddressing_IEC104]
    f_af_na_1.payload_no_panic [of asdu AsduAddressing_IEC104] f_sg_na_1.payload_no_panic [of asdu AsduAddressing_IEC104]
  by (auto split: outcome.split)

lemma accept_total: "\<exists>b self1. accept_session bo api w key asdu self = Ok (b, self1)"
  using f_fr_na_1.payload_no_panic [of asdu AsduAddressing_IEC104]
  by (auto simp: accept_session_def ft_now_def Let_def split: outcome.split prod.split sum.split option.split)

end

section \<open>Every run returns\<close>

text \<open>What the two locales promise together: no input makes the service panic or loop.\<close>

locale ft_environment = bytes_crate bo + file_reader api left
  for bo :: bytes_api and api :: "('p, 'r, 'w) provider_api" and left :: "'r \<Rightarrow> nat"
begin

lemma begin_total:
  assumes "service_ok self" and "get_session key self = None"
    and "length (svc_sessions self) < ftc_max_concurrent_sessions (svc_config self)"
    and "case role of Receiver \<Rightarrow> wr \<noteq> None \<and> rd = None | Sender \<Rightarrow> rd \<noteq> None \<and> wr = None"
  shows "\<exists>self'. begin_session bo api w key role len rd wr reply self = Some self'"
  using begin_queue [OF assms, of reply bo api w len] queue_total unfolding Let_def by metis

lemma intent_total: "service_ok self \<Longrightarrow> \<exists>self'. on_intent bo api w intent self = Some self'"
  by (cases intent) (auto simp: on_intent_def split: prod.split sum.split option.split intro!: begin_total)

lemma incoming_total:
  assumes "service_ok self"
  shows "\<exists>self'. on_incoming bo api w ca asdu self = Some (Ok self')"
  using assms
proof (cases rule: incoming_cases [of self bo api w ca asdu])
  case (undecodable nof)
  then show ?thesis using accept_total decode_ft_total by blast
next
  case (stepped nof b self1 active now session acts self2)
  with queue_total show ?thesis by fastforce
qed auto

lemma tick_keys_total: "service_ok self \<Longrightarrow> \<exists>self'. tick_keys bo api w now keys self = Some self'"
proof (induction keys arbitrary: self)
  case (Cons key keys)
  show ?case
  proof (cases "get_session key self")
    case (Some active)
    from tick_keys_Cons [OF Cons.prems Some, of now bo api w keys] queue_total apply_queue_ok Cons.IH
    show ?thesis by (metis option.simps(5))
  qed (use Cons in simp)
qed simp

lemma step_total: "service_ok self \<Longrightarrow> \<exists>self'. ft_step bo api w wake self = Some (Ok self')"
  by (cases wake) (simp_all add: ft_step_def intent_total incoming_total ft_on_tick_def ft_now_def tick_keys_total)

lemma run_total: "service_ok self \<Longrightarrow> \<exists>self'. ft_run bo api w wakes self = Some (Ok self')"
proof (induction wakes arbitrary: self)
  case (Cons wake wakes)
  then obtain self1 where step: "ft_step bo api w wake self = Some (Ok self1)" using step_total by blast
  from Cons.IH [OF ft_step_ok [OF Cons.prems step]] step show ?case by simp
qed simp

end

end
