(* ===== verification/Ft_Ticks.thy ===== *)
theory Ft_Ticks
  imports Ft_Replies
begin

text \<open>
  What a tick does to every session of the table, and what a sender does with the file it has opened
  when the peer asks for it.
\<close>

section \<open>Ticks\<close>

definition expired :: "Instant \<Rightarrow> ('p, 'r, 'w) Ft_Service \<Rightarrow> ('r, 'w) ActiveSession \<Rightarrow> bool" where
  "expired now self a \<longleftrightarrow>
     (case last_progress (act_session a) of
        None \<Rightarrow> False
      | Some t \<Rightarrow> saturating_duration_since now t \<ge> ftc_idle_timeout (svc_config self))"

definition touched :: "Instant \<Rightarrow> ('r, 'w) ActiveSession \<Rightarrow> ('r, 'w) ActiveSession" where
  "touched now a =
     (case last_progress (act_session a) of
        None \<Rightarrow> a\<lparr> act_session := (act_session a)\<lparr> last_progress := Some now \<rparr> \<rparr>
      | Some t \<Rightarrow> a)"

text \<open>The state after a tick, as far as one session of the table is concerned.\<close>

definition reaped ::
    "Instant \<Rightarrow> session_key \<Rightarrow> ('r, 'w) ActiveSession \<Rightarrow> ('p, 'r, 'w) Ft_Service \<Rightarrow> bool" where
  "reaped now key a self' \<longleftrightarrow>
     (if expired now self' a then
        get_session key self' = None \<and>
        Ft_Event (Ft_Finished (fst key) (snd key) (Outcome_Failed Timeout)) \<in> set (svc_trace self') \<and>
        (\<forall>n. act_reply a = Some n \<longrightarrow> Ft_Reply n (Inl Ft_Other) \<in> set (svc_trace self'))
      else get_session key self' = Some (touched now a))"

lemma expired_frame: "svc_config self' = svc_config self \<Longrightarrow> expired now self' a = expired now self a"
  by (simp add: expired_def split: option.split)

lemma quiet_tick:
  assumes "resting a" and "ses_actions (act_session a) = []" and "ses_config (act_session a) = session_config self"
    and "\<not> expired now self a"
  shows "session_step Session_Tick now (act_session a) = (act_session (touched now a), [])"
  using assms by (auto simp: session_step_def session_dispatch_def check_timeout_def resting_def expired_def touched_def
    session_config_def split: option.splits)

lemma late_tick:
  assumes "resting a" and "ses_actions (act_session a) = []" and "ses_config (act_session a) = session_config self"
    and "expired now self a"
  shows "\<exists>s. session_step Session_Tick now (act_session a) = (s, [Action_Failed Timeout])"
  using assms by (auto simp: session_step_def session_dispatch_def check_timeout_def resting_def expired_def ses_fail_def
    ses_emit_def session_config_def split: option.splits)

lemma touched_session [simp]: "a\<lparr> act_session := act_session (touched now a) \<rparr> = touched now a"
  by (simp add: touched_def split: option.split)

lemma tick_one:
  assumes ok: "service_ok self" and a: "get_session key self = Some a"
  shows "\<exists>self1. tick_keys bo api w now [key] self = Some self1 \<and> service_ok self1 \<and> reaped now key a self1 \<and>
    svc_config self1 = svc_config self \<and> set (svc_trace self) \<subseteq> set (svc_trace self1) \<and>
    (\<forall>k. k \<noteq> key \<longrightarrow> get_session k self1 = get_session k self)"
proof -
  have "table_ok self" "resting a" using ok a unfolding service_ok_def by blast+
  with table_ok_get [OF this(1) a] have rest: "resting a" "ses_actions (act_session a) = []" "ses_config (act_session a) = session_config self"
    by (simp_all add: active_ok_def)
  show ?thesis
  proof (cases "expired now self a")
    case False
    let ?self1 = "put_session key (touched now a) self"
    have "tick_keys bo api w now [key] self = Some ?self1"
      using quiet_tick [OF rest False] a by simp
    moreover from this have "service_ok ?self1" by (rule tick_keys_ok [OF ok])
    moreover have conf: "svc_config ?self1 = svc_config self" by (simp add: put_session_def)
    from False have "reaped now key a ?self1"
      unfolding reaped_def expired_frame [OF conf] by (simp add: put_session_def get_session_def update_conv)
    ultimately show ?thesis by (auto simp: put_session_def get_session_def update_conv)
  next
    case True
    obtain s where step: "session_step Session_Tick now (act_session a) = (s, [Action_Failed Timeout])"
      using late_tick [OF rest True] by blast
    let ?self1 = "finalize_session api key (Outcome_Failed Timeout) (put_session key (a\<lparr> act_session := s \<rparr>) self)"
    have run: "tick_keys bo api w now [key] self = Some ?self1"
      using step a by (simp add: perform_def)
    moreover from this have "service_ok ?self1" by (rule tick_keys_ok [OF ok])
    moreover have conf: "svc_config ?self1 = svc_config self" and "set (svc_trace self) \<subseteq> set (svc_trace ?self1)"
      by (auto simp: finalize_session_def put_session_def get_session_def ft_log_def Let_def split: option.splits)
    moreover from True have "reaped now key a ?self1"
      unfolding reaped_def expired_frame [OF conf] by (auto simp: finalize_session_def put_session_def get_session_def update_conv ft_log_def
        Let_def failure_to_error_def delete_conv' split: option.splits)
    moreover have "\<forall>k. k \<noteq> key \<longrightarrow> get_session k ?self1 = get_session k self"
      by (auto simp: finalize_session_def put_session_def get_session_def update_conv ft_log_def
        Let_def delete_conv' split: option.splits)
    ultimately show ?thesis by blast
  qed
qed

lemma tick_keys_append:
  "tick_keys bo api w now (ks @ ks') self =
     (case tick_keys bo api w now ks self of None \<Rightarrow> None | Some self1 \<Rightarrow> tick_keys bo api w now ks' self1)"
  by (induction ks arbitrary: self) (auto split: option.split prod.split simp: Let_def)

lemma reaped_later:
  assumes "reaped now key a self1" and "get_session key self' = get_session key self1"
    and "svc_config self' = svc_config self1" and "set (svc_trace self1) \<subseteq> set (svc_trace self')"
  shows "reaped now key a self'"
  using assms unfolding reaped_def expired_frame [OF assms(3)] by (auto split: if_splits)

lemma tick_keys_reap:
  assumes "service_ok self" and "distinct keys"
  shows "\<exists>self'. tick_keys bo api w now keys self = Some self' \<and> service_ok self' \<and> svc_config self' = svc_config self \<and>
    set (svc_trace self) \<subseteq> set (svc_trace self') \<and>
    (\<forall>k. k \<notin> set keys \<longrightarrow> get_session k self' = get_session k self) \<and>
    (\<forall>k a. k \<in> set keys \<longrightarrow> get_session k self = Some a \<longrightarrow> reaped now k a self')"
  using assms(2)
proof (induction keys rule: rev_induct)
  case Nil
  with assms show ?case by simp
next
  case (snoc key keys)
  then obtain self1 where self1: "tick_keys bo api w now keys self = Some self1" "service_ok self1"
      "svc_config self1 = svc_config self" "set (svc_trace self) \<subseteq> set (svc_trace self1)"
      "\<And>k. k \<notin> set keys \<Longrightarrow> get_session k self1 = get_session k self"
      "\<And>k a. k \<in> set keys \<Longrightarrow> get_session k self = Some a \<Longrightarrow> reaped now k a self1"
    by (metis distinct_append)
  from snoc.prems have key: "key \<notin> set keys" by simp
  show ?case
  proof (cases "get_session key self")
    case None
    with self1(1) self1(5) [OF key] have "tick_keys bo api w now (keys @ [key]) self = Some self1"
      by (simp add: tick_keys_append)
    with self1 None key show ?thesis by (metis insert_iff list.simps(15) rotate1.simps(2) set_rotate1 option.distinct(1))
  next
    case (Some a)
    with self1(5) [OF key] have "get_session key self1 = Some a" by simp
    from tick_one [OF self1(2) this, of bo api w now] obtain self2 where self2: "tick_keys bo api w now [key] self1 = Some self2"
        "service_ok self2" "reaped now key a self2" "svc_config self2 = svc_config self1" "set (svc_trace self1) \<subseteq> set (svc_trace self2)"
        "\<And>k. k \<noteq> key \<Longrightarrow> get_session k self2 = get_session k self1" by blast
    have "reaped now k b self2" if "k \<in> set (keys @ [key])" "get_session k self = Some b" for k b
    proof (cases "k = key")
      case True
      with that Some self2(3) show ?thesis by simp
    next
      case False
      with that have "reaped now k b self1" by (intro self1(6)) simp_all
      then show ?thesis by (rule reaped_later [OF _ self2(6) [OF False] self2(4,5)])
    qed
    moreover have "get_session k self2 = get_session k self" if "k \<notin> set (keys @ [key])" for k
      using that self1(5) [of k] self2(6) [of k] by simp
    moreover have "tick_keys bo api w now (keys @ [key]) self = Some self2"
      unfolding tick_keys_append self1(1) option.simps by (rule self2(1))
    moreover have "svc_config self2 = svc_config self" "set (svc_trace self) \<subseteq> set (svc_trace self2)"
      using self1(3,4) self2(4,5) by auto
    ultimately show ?thesis using self2(2) by blast
  qed
qed

section \<open>The file-system provider as a provider of the service\<close>

text \<open>
  The provider trait on the definitions of the file-system provider. \<open>got n r\<close> is what the operating
  system answers to a read of at most \<open>n\<close> octets with \<open>r\<close> still to come.
\<close>

definition fs_api :: "Os \<Rightarrow> (nat \<Rightarrow> octets \<Rightarrow> nat option) \<Rightarrow> (FsProvider \<times> Files, octets, FsWriter) provider_api" where
  "fs_api os got =
     \<lparr> prov_lookup = (\<lambda>nof (self, files). lookup os files self nof),
       prov_open_read = (\<lambda>nof (self, files). open_read os files self nof),
       prov_open_write = (\<lambda>nof len (self, files). let (r, files) = open_write os files self nof len in (r, (self, files))),
       prov_read = (\<lambda>n r. read_segment (got n r) n r),
       prov_write = (\<lambda>bytes wr (self, files). let (r, files) = write_segment os bytes wr files in (r, (self, files))),
       prov_finalize = (\<lambda>success wr (self, files). finalize os success wr self files) \<rparr>"

text \<open>However few octets a read returns, and even if it fails, it never rewinds a file.\<close>

interpretation fs_reader: file_reader "fs_api os got" length for os got
proof
  fix n :: nat and r r' c
  assume "prov_read (fs_api os got) n r = (Inr (Some c), r')" "c \<noteq> []"
  then show "length r' < length r"
    by (auto simp: fs_api_def read_segment_def split: if_splits option.splits)
next
  fix n :: nat and r r' x
  assume "prov_read (fs_api os got) n r = (x, r')"
  then show "length r' \<le> length r"
    by (auto simp: fs_api_def read_segment_def split: if_splits option.splits)
qed

interpretation fs_service: ft_environment slice_api "fs_api os got" length for os got
  by unfold_locales

section \<open>Sending a file\<close>

text \<open>The segments of a file, and the command that carries a payload.\<close>

function chunks :: "nat \<Rightarrow> octets \<Rightarrow> octets list" where
  "chunks m xs = (if xs = [] \<or> m = 0 then [] else take m xs # chunks m (drop m xs))"
  by auto
termination by (relation "measure (length \<circ> snd)") auto

declare chunks.simps [simp del]

definition wire :: "bytes_api \<Rightarrow> 'x payload_impl \<Rightarrow> CommonAddress \<Rightarrow> 'x \<Rightarrow> Ft_Effect" where
  "wire bo P ca x = Ft_Command (Asdu_encode bo
     (Asdu_from_payload P (Cot_with Cause_FILE_TRANSFER) ca (Vsq_single 1) x AsduAddressing_IEC104) [] AsduAddressing_IEC104)"

definition segment_size :: "SessionConfig \<Rightarrow> nat" where
  "segment_size c = max 1 (min (max_segment_bytes c) MAX_SEGMENT_BYTES)"

definition segment_asdu :: "SessionConfig \<Rightarrow> NameOfFile \<Rightarrow> octets \<Rightarrow> F_SG_NA_1" where
  "segment_asdu c nof bytes = \<lparr> sg_ioa = scfg_ioa c, sg_nof = nof, sg_nos = NameOfSection 1, sg_segment = bytes \<rparr>"

definition last_section_asdu :: "SessionConfig \<Rightarrow> NameOfFile \<Rightarrow> Checksum \<Rightarrow> F_LS_NA_1" where
  "last_section_asdu c nof chs =
     \<lparr> ls_ioa = scfg_ioa c, ls_nof = nof, ls_nos = NameOfSection 1, ls_lsq = FileWithoutDeactivate, ls_chs = chs \<rparr>"

definition sending :: "Session \<Rightarrow> bool" where
  "sending s \<longleftrightarrow> ses_role s = Sender \<and> ses_state s = TxSendingSegments \<and> ses_actions s = [] \<and> 0 < idle_timeout (ses_config s)"

lemma chunks_concat: "0 < m \<Longrightarrow> concat (chunks m xs) = xs"
  by (induction m xs rule: chunks.induct) (subst chunks.simps, simp)

lemma sat_self [simp]: "saturating_duration_since now now = 0"
  by (simp add: saturating_duration_since_def)

lemma chunk_step:
  assumes "sending s" and "c \<noteq> []"
  shows "\<exists>s'. session_step (SegmentReady c) now s =
      (s', [SendSegment (segment_asdu (ses_config s) (ses_nof s) c), RequestNextSegment (segment_size (ses_config s))]) \<and>
    sending s' \<and> ses_config s' = ses_config s \<and> ses_nof s' = ses_nof s \<and>
    section_checksum s' = Checksum_update_slice (section_checksum s) c \<and>
    bytes_transferred s' = u32_saturating_add (bytes_transferred s) (of_nat (length c))"
  using assms
  by (auto simp: session_step_def session_dispatch_def on_segment_ready_def check_timeout_def is_terminal_def sending_def
    ses_emit_def request_next_segment_def segment_asdu_def segment_size_def Let_def)

lemma end_step:
  assumes "sending s"
  shows "\<exists>s'. session_step (SegmentReady []) now s =
      (s', [SendLastSection (last_section_asdu (ses_config s) (ses_nof s) (section_checksum s))]) \<and>
    ses_state s' = TxAwaitAck \<and> bytes_transferred s' = bytes_transferred s"
  using assms
  by (auto simp: session_step_def session_dispatch_def on_segment_ready_def check_timeout_def is_terminal_def sending_def
    ses_emit_def last_section_asdu_def Let_def)

text \<open>A reader that fills the buffer whenever it can, and a driver that takes every command.\<close>

definition full_read :: "nat \<Rightarrow> octets \<Rightarrow> nat option" where
  "full_read n r = Some (min n (length r))"

lemma read_full: "0 < m \<Longrightarrow>
  prov_read (fs_api os full_read) m r = (if r = [] then (Inr None, []) else (Inr (Some (take m r)), drop m r))"
  by (simp add: fs_api_def read_segment_def full_read_def min_def)

lemma ft_send_open:
  "(\<And>tr. ft_driver_open w tr) \<Longrightarrow> ft_send bo w P ca x self = ft_log (wire bo P ca x) self"
  by (simp add: ft_send_def wire_def Let_def)

lemma pump_full:
  assumes "get_session key self = Some a" and "act_reader a = Some r" and "0 < m"
    and "session_step (SegmentReady (take m r)) (ft_clock w (svc_clock_reads self)) (act_session a) = (s', acts)"
  shows "pump_reader (fs_api os full_read) w key m self =
    (acts, put_session key (a\<lparr> act_reader := Some (drop m r), act_session := s' \<rparr>)
      (self\<lparr> svc_clock_reads := Suc (svc_clock_reads self) \<rparr>))"
  using assms by (auto simp: pump_reader_def read_full ft_now_def Let_def split: prod.splits)

lemma stream_file:
  assumes open_driver: "\<And>tr. ft_driver_open w tr" and m: "m = segment_size (ses_config (act_session a))"
    and "get_session key self = Some a" and "act_reader a = Some r" and "sending (act_session a)"
    and "section_checksum (act_session a) = Checksum_of xs" and "unat (bytes_transferred (act_session a)) = length xs"
    and "length xs + length r < 2 ^ 32"
  shows "\<exists>self' a'. apply_queue bo (fs_api os full_read) w key [RequestNextSegment m] self = Some self' \<and>
    svc_trace self' = svc_trace self @
      map (\<lambda>c. wire bo (F_SG_NA_1_impl bo) (fst key) (segment_asdu (ses_config (act_session a)) (ses_nof (act_session a)) c)) (chunks m r) @
      [wire bo (F_LS_NA_1_impl bo) (fst key)
        (last_section_asdu (ses_config (act_session a)) (ses_nof (act_session a)) (Checksum_of (xs @ r)))] \<and>
    get_session key self' = Some a' \<and> ses_state (act_session a') = TxAwaitAck \<and> act_reply a' = act_reply a \<and>
    unat (bytes_transferred (act_session a')) = length (xs @ r)"
  using assms(2-)
proof (induction r arbitrary: self a xs rule: length_induct)
  case (1 r)
  from 1(2) have pos: "0 < m" by (simp add: segment_size_def)
  let ?now = "ft_clock w (svc_clock_reads self)" and ?self0 = "self\<lparr> svc_clock_reads := Suc (svc_clock_reads self) \<rparr>"
  show ?case
  proof (cases "r = []")
    case True
    obtain s' where step: "session_step (SegmentReady (take m r)) ?now (act_session a) =
        (s', [SendLastSection (last_section_asdu (ses_config (act_session a)) (ses_nof (act_session a)) (section_checksum (act_session a)))])"
        "ses_state s' = TxAwaitAck" "bytes_transferred s' = bytes_transferred (act_session a)"
      using end_step [OF 1(5), of ?now] True by auto
    show ?thesis
      using pump_full [OF 1(3,4) pos step(1), of os] step(2,3) 1(6,7) True
      by (simp add: perform_def ft_send_open [OF open_driver] ft_log_def put_session_def get_session_def update_conv
        chunks.simps [of m])
  next
    case False
    let ?c = "take m r"
    from False pos have "?c \<noteq> []" by simp
    from chunk_step [OF 1(5) this, of ?now] obtain s' where s': "session_step (SegmentReady ?c) ?now (act_session a) =
        (s', [SendSegment (segment_asdu (ses_config (act_session a)) (ses_nof (act_session a)) ?c), RequestNextSegment m])"
        "sending s'" "ses_config s' = ses_config (act_session a)" "ses_nof s' = ses_nof (act_session a)"
        "section_checksum s' = Checksum_update_slice (section_checksum (act_session a)) ?c"
        "bytes_transferred s' = u32_saturating_add (bytes_transferred (act_session a)) (of_nat (length ?c))"
      using 1(2) by auto
    let ?a = "a\<lparr> act_reader := Some (drop m r), act_session := s' \<rparr>"
    let ?seg = "wire bo (F_SG_NA_1_impl bo) (fst key) (segment_asdu (ses_config (act_session a)) (ses_nof (act_session a)) ?c)"
    let ?self1 = "ft_log ?seg (put_session key ?a ?self0)"
    have "unat (bytes_transferred s') = length (xs @ ?c)"
      using s'(6) 1(7,8) saturating_sum [of xs ?c "bytes_transferred (act_session a)"] by simp
    moreover have "length (drop m r) < length r" using False pos by simp
    moreover have "section_checksum s' = Checksum_of (xs @ ?c)" using s'(5) 1(6) by simp
    moreover have "get_session key ?self1 = Some ?a" by simp
    ultimately have "\<exists>self' a'. apply_queue bo (fs_api os full_read) w key [RequestNextSegment m] ?self1 = Some self' \<and>
      svc_trace self' = svc_trace ?self1 @
        map (\<lambda>c. wire bo (F_SG_NA_1_impl bo) (fst key) (segment_asdu (ses_config s') (ses_nof s') c)) (chunks m (drop m r)) @
        [wire bo (F_LS_NA_1_impl bo) (fst key) (last_section_asdu (ses_config s') (ses_nof s') (Checksum_of ((xs @ ?c) @ drop m r)))] \<and>
      get_session key self' = Some a' \<and> ses_state (act_session a') = TxAwaitAck \<and> act_reply a' = act_reply ?a \<and>
      unat (bytes_transferred (act_session a')) = length ((xs @ ?c) @ drop m r)"
      using 1(1) [rule_format, of "drop m r" ?a ?self1 "xs @ ?c"] s'(2,3) 1(2,8) by simp
    moreover have "apply_queue bo (fs_api os full_read) w key [RequestNextSegment m] self =
        apply_queue bo (fs_api os full_read) w key [RequestNextSegment m] ?self1"
      using pump_full [OF 1(3,4) pos s'(1), of os]
      by (simp add: perform_def ft_send_open [OF open_driver])
    ultimately show ?thesis
      using False pos s'(3,4) by (simp add: chunks.simps [of m r] ft_log_def put_session_def)
  qed
qed

text \<open>A request of the peer is answered with the whole file.\<close>

lemma request_streamed:
  assumes "\<And>tr. ft_driver_open w tr"
    and "peek_nof asdu = Some nof" and "decode_ft_asdu bo asdu = Ok (Some (SelectCall sc))"
    and "scq_action (sc_scq sc) = RequestFile"
    and "get_session (ca, nof) self = Some a" and "act_reader a = Some content"
    and "ses_role (act_session a) = Sender" and "ses_state (act_session a) = TxAwaitRequest"
    and "ses_actions (act_session a) = []" and "\<not> awaiting_provider (act_session a)"
    and "0 < idle_timeout (ses_config (act_session a))" and "length content < 2 ^ 32"
  shows "\<exists>self' a'. ft_step bo (fs_api os full_read) w (Ft_Incoming ca asdu) self = Some (Ok self') \<and>
    concat (chunks (segment_size (ses_config (act_session a))) content) = content \<and>
    svc_trace self' = svc_trace self @
      [wire bo (F_SR_NA_1_impl bo) ca
         \<lparr> sr_ioa = scfg_ioa (ses_config (act_session a)), sr_nof = ses_nof (act_session a), sr_nos = NameOfSection 1,
           sr_los = LengthOfSection (section_length (act_session a)), sr_srq = Srq_READY \<rparr>] @
      map (\<lambda>c. wire bo (F_SG_NA_1_impl bo) ca (segment_asdu (ses_config (act_session a)) (ses_nof (act_session a)) c))
        (chunks (segment_size (ses_config (act_session a))) content) @
      [wire bo (F_LS_NA_1_impl bo) ca
         (last_section_asdu (ses_config (act_session a)) (ses_nof (act_session a)) (Checksum_of content))] \<and>
    get_session (ca, nof) self' = Some a' \<and> ses_state (act_session a') = TxAwaitAck \<and>
    unat (bytes_transferred (act_session a')) = length content"
proof -
  let ?s = "act_session a" and ?now = "ft_clock w (svc_clock_reads self)" and ?key = "(ca, nof)"
  let ?sr = "\<lparr> sr_ioa = scfg_ioa (ses_config ?s), sr_nof = ses_nof ?s, sr_nos = NameOfSection 1,
    sr_los = LengthOfSection (section_length ?s), sr_srq = Srq_READY \<rparr>"
  let ?m = "segment_size (ses_config ?s)"
  define s' where "s' = ?s\<lparr> last_progress := Some ?now, section_checksum := Checksum 0, bytes_transferred := 0,
    awaiting_provider := True, ses_state := TxSendingSegments \<rparr>"
  have step: "session_step (SelectCall sc) ?now ?s = (s', [SendSectionReady ?sr, RequestNextSegment ?m])"
    using assms(4,7-11) by (simp add: session_step_def session_dispatch_def on_select_call_def check_timeout_def is_terminal_def
      ses_emit_def request_next_segment_def segment_size_def Let_def s'_def)
  let ?self0 = "self\<lparr> svc_clock_reads := Suc (svc_clock_reads self) \<rparr>"
  let ?a = "a\<lparr> act_last_tick := ?now, act_session := s' \<rparr>"
  let ?self1 = "ft_log (wire bo (F_SR_NA_1_impl bo) ca ?sr) (put_session ?key ?a ?self0)"
  have "ft_step bo (fs_api os full_read) w (Ft_Incoming ca asdu) self =
      map_option Ok (apply_queue bo (fs_api os full_read) w ?key [RequestNextSegment ?m] ?self1)"
    using assms(2,3,5) step by (simp add: ft_step_def on_incoming_def ft_now_def Let_def perform_def ft_send_open [OF assms(1)])
  moreover have "sending s'" "section_checksum s' = Checksum_of []" "ses_config s' = ses_config ?s" "ses_nof s' = ses_nof ?s"
      "bytes_transferred s' = 0"
    using assms(7,9,11) by (simp_all add: sending_def s'_def Checksum_of_def)
  moreover have "get_session ?key ?self1 = Some ?a" by simp
  moreover have "concat (chunks ?m content) = content" by (rule chunks_concat) (simp add: segment_size_def)
  ultimately show ?thesis
    using stream_file [OF assms(1), of ?m ?a ?key ?self1 content "[]" bo os] assms(6,12)
    by (auto simp: ft_log_def put_session_def)
qed

end
