(* ===== verification/Ft_Junction.thy ===== *)
theory Ft_Junction
  imports Ft_Ticks
begin

text \<open>
  The two channels between a -104 driver task and its file-transfer service, as \<^verbatim>\<open>spawn_with_ft\<close> of
  \<^verbatim>\<open>client104.rs\<close> and of \<^verbatim>\<open>server104.rs\<close> makes them: commands go from the service to the driver,
  file-transfer ASDUs from the driver to the service, and both sides wait for room in a full channel.

  While the driver hands over the ASDUs of one read it takes no commands, and while the service sends
  the commands of one wake-up it takes no ASDUs. What a wake-up does to the table of sessions is
  computed at once; the commands it produces leave one by one.
\<close>

section \<open>The channels\<close>

definition COMMAND_CHANNEL :: nat where "COMMAND_CHANNEL = 32"

definition ASDU_CHANNEL :: nat where "ASDU_CHANNEL = 32"

record ('p, 'r, 'w) Junction =
  jn_cmds :: "octets list"
  jn_asdus :: "(CommonAddress \<times> Asdu) list"
  jn_driver :: "(CommonAddress \<times> Asdu) list"
  jn_service :: "octets list"
  jn_self :: "('p, 'r, 'w) Ft_Service"

fun command_of :: "Ft_Effect \<Rightarrow> octets option" where
  "command_of (Ft_Command c) = Some c"
| "command_of _ = None"

definition new_commands :: "('p, 'r, 'w) Ft_Service \<Rightarrow> ('p, 'r, 'w) Ft_Service \<Rightarrow> octets list" where
  "new_commands self self' = List.map_filter command_of (drop (length (svc_trace self)) (svc_trace self'))"

inductive jn_step :: "bytes_api \<Rightarrow> ('p, 'r, 'w) provider_api \<Rightarrow> Ft_World \<Rightarrow> ('p, 'r, 'w) Junction \<Rightarrow> ('p, 'r, 'w) Junction \<Rightarrow> bool"
  for bo :: bytes_api and api :: "('p, 'r, 'w) provider_api" and w :: Ft_World where
  jn_read: "jn_driver j = [] \<Longrightarrow> jn_step bo api w j (j\<lparr> jn_driver := xs \<rparr>)"
| jn_route: "jn_driver j = x # xs \<Longrightarrow> length (jn_asdus j) < ASDU_CHANNEL \<Longrightarrow>
    jn_step bo api w j (j\<lparr> jn_driver := xs, jn_asdus := jn_asdus j @ [x] \<rparr>)"
| jn_command: "jn_driver j = [] \<Longrightarrow> jn_cmds j = c # cs \<Longrightarrow> jn_step bo api w j (j\<lparr> jn_cmds := cs \<rparr>)"
| jn_put: "jn_service j = c # cs \<Longrightarrow> length (jn_cmds j) < COMMAND_CHANNEL \<Longrightarrow>
    jn_step bo api w j (j\<lparr> jn_service := cs, jn_cmds := jn_cmds j @ [c] \<rparr>)"
| jn_take: "jn_service j = [] \<Longrightarrow> jn_asdus j = (ca, asdu) # xs \<Longrightarrow>
    ft_step bo api w (Ft_Incoming ca asdu) (jn_self j) = Some (Ok self') \<Longrightarrow>
    jn_step bo api w j (j\<lparr> jn_asdus := xs, jn_self := self', jn_service := new_commands (jn_self j) self' \<rparr>)"
| jn_wake: "jn_service j = [] \<Longrightarrow> wake = Ft_Tick \<or> wake = Ft_Intent intent \<Longrightarrow>
    ft_step bo api w wake (jn_self j) = Some (Ok self') \<Longrightarrow>
    jn_step bo api w j (j\<lparr> jn_self := self', jn_service := new_commands (jn_self j) self' \<rparr>)"

inductive_cases jn_stepE: "jn_step bo api w j j'"

section \<open>Both sides wait for each other\<close>

definition deadlocked :: "('p, 'r, 'w) Junction \<Rightarrow> bool" where
  "deadlocked j \<longleftrightarrow>
     jn_driver j \<noteq> [] \<and> length (jn_asdus j) = ASDU_CHANNEL \<and> jn_service j \<noteq> [] \<and> length (jn_cmds j) = COMMAND_CHANNEL"

lemma deadlocked_stuck: "deadlocked j \<Longrightarrow> \<not> jn_step bo api w j j'"
  by (auto simp: deadlocked_def elim!: jn_stepE)

lemma route_many:
  "length xs + length (jn_asdus j) \<le> ASDU_CHANNEL \<Longrightarrow> jn_driver j = xs @ ys \<Longrightarrow>
     (jn_step bo api w)\<^sup>*\<^sup>* j (j\<lparr> jn_driver := ys, jn_asdus := jn_asdus j @ xs \<rparr>)"
proof (induction xs arbitrary: j)
  case (Cons x xs)
  let ?j = "j\<lparr> jn_driver := xs @ ys, jn_asdus := jn_asdus j @ [x] \<rparr>"
  have "jn_step bo api w j ?j" using Cons.prems by (intro jn_route) auto
  moreover have "(jn_step bo api w)\<^sup>*\<^sup>* ?j (?j\<lparr> jn_driver := ys, jn_asdus := jn_asdus ?j @ xs \<rparr>)"
    using Cons.prems by (intro Cons.IH) simp_all
  ultimately show ?case by (simp add: converse_rtranclp_into_rtranclp)
next
  case Nil
  then have "j\<lparr> jn_driver := ys, jn_asdus := jn_asdus j @ [] \<rparr> = j" by (cases j) simp
  then show ?case by simp
qed

lemma put_many:
  "length cs + length (jn_cmds j) \<le> COMMAND_CHANNEL \<Longrightarrow> jn_service j = cs @ ds \<Longrightarrow>
     (jn_step bo api w)\<^sup>*\<^sup>* j (j\<lparr> jn_service := ds, jn_cmds := jn_cmds j @ cs \<rparr>)"
proof (induction cs arbitrary: j)
  case (Cons c cs)
  let ?j = "j\<lparr> jn_service := cs @ ds, jn_cmds := jn_cmds j @ [c] \<rparr>"
  have "jn_step bo api w j ?j" using Cons.prems by (intro jn_put) auto
  moreover have "(jn_step bo api w)\<^sup>*\<^sup>* ?j (?j\<lparr> jn_service := ds, jn_cmds := jn_cmds ?j @ cs \<rparr>)"
    using Cons.prems by (intro Cons.IH) simp_all
  ultimately show ?case by (simp add: converse_rtranclp_into_rtranclp)
next
  case Nil
  then have "j\<lparr> jn_service := ds, jn_cmds := jn_cmds j @ [] \<rparr> = j" by (cases j) simp
  then show ?case by simp
qed

lemma burst_deadlocks:
  fixes xs :: "(CommonAddress \<times> Asdu) list"
  assumes "ft_step bo api w (Ft_Incoming ca asdu) (jn_self j) = Some (Ok self')"
    and "length (new_commands (jn_self j) self') > COMMAND_CHANNEL" and "length xs > ASDU_CHANNEL"
    and "jn_cmds j = []" "jn_asdus j = []" "jn_driver j = []" "jn_service j = []"
  shows "\<exists>j'. (jn_step bo api w)\<^sup>*\<^sup>* j j' \<and> deadlocked j'"
proof -
  let ?cmds = "new_commands (jn_self j) self'"
  let ?j1 = "j\<lparr> jn_driver := (ca, asdu) # xs \<rparr>" and ?j2 = "j\<lparr> jn_driver := xs, jn_asdus := [(ca, asdu)] \<rparr>"
  let ?j3 = "j\<lparr> jn_driver := xs, jn_asdus := [], jn_self := self', jn_service := ?cmds \<rparr>"
  let ?j4 = "?j3\<lparr> jn_service := drop COMMAND_CHANNEL ?cmds, jn_cmds := take COMMAND_CHANNEL ?cmds \<rparr>"
  let ?j5 = "?j4\<lparr> jn_driver := drop ASDU_CHANNEL xs, jn_asdus := take ASDU_CHANNEL xs \<rparr>"
  have "jn_step bo api w j ?j1" using assms(6) by (rule jn_read)
  moreover have "jn_step bo api w ?j1 ?j2" using jn_route [of ?j1 "(ca, asdu)" xs bo api w] assms(5) by (simp add: ASDU_CHANNEL_def)
  moreover have "jn_step bo api w ?j2 ?j3" using jn_take [of ?j2 ca asdu "[]" bo api w self'] assms(1,7) by simp
  moreover have "(jn_step bo api w)\<^sup>*\<^sup>* ?j3 ?j4"
    using put_many [of "take COMMAND_CHANNEL ?cmds" ?j3 "drop COMMAND_CHANNEL ?cmds" bo api w] assms(2,4) by simp
  moreover have "(jn_step bo api w)\<^sup>*\<^sup>* ?j4 ?j5"
    using route_many [of "take ASDU_CHANNEL xs" ?j4 "drop ASDU_CHANNEL xs" bo api w] assms(3) by simp
  moreover have "deadlocked ?j5" using assms(2,3) by (simp add: deadlocked_def)
  ultimately show ?thesis by (meson converse_rtranclp_into_rtranclp rtranclp_trans)
qed

lemma command_of_wire: "\<exists>c. command_of (wire bo P ca x) = Some c"
  by (simp add: wire_def)

lemma length_commands_of_wires:
  "length (List.map_filter command_of (wire bo P ca x # es)) = Suc (length (List.map_filter command_of es))"
  "length (List.map_filter command_of (map (\<lambda>c. wire bo P ca (f c)) cs @ es)) = length cs + length (List.map_filter command_of es)"
proof -
  show one: "length (List.map_filter command_of (wire bo P ca x # es)) = Suc (length (List.map_filter command_of es))" for x es
    using command_of_wire [of bo P ca x] by (auto simp: map_filter_simps)
  show "length (List.map_filter command_of (map (\<lambda>c. wire bo P ca (f c)) cs @ es)) = length cs + length (List.map_filter command_of es)"
    by (induction cs) (simp_all add: one del: map_filter_simps)
qed

lemma chunks_length: "0 < m \<Longrightarrow> length xs \<le> m * length (chunks m xs)"
proof (induction m xs rule: chunks.induct)
  case (1 m xs)
  then show ?case by (subst chunks.simps) auto
qed

end
