(* ===== verification/Ft_Properties.thy ===== *)
theory Ft_Properties
  imports Ft_Junction Fs_Properties Driver_Properties
begin

text \<open>
  The guarantees of the file-transfer service: no run of its task panics or loops, the table of sessions
  is consistent, every request is answered once, quiet sessions are reaped, and a file that the peer
  asks for is streamed in order and with its checksum.
\<close>

section \<open>Runs\<close>

definition demo_ft_world :: Ft_World where
  "demo_ft_world = \<lparr> ft_clock = (\<lambda>n. 6 * n), ft_driver_open = (\<lambda>_. True), ft_key_order = (\<lambda>ks. ks) \<rparr>"

definition demo_ft_config :: FileTransferConfig where
  "demo_ft_config = \<lparr> ftc_max_segment_bytes = 2, ftc_max_section_bytes = 100, ftc_idle_timeout = 5,
     ftc_max_concurrent_sessions = 3, ftc_max_inbound_file_bytes = 100 \<rparr>"

definition demo_service :: "(FsProvider \<times> Files, octets, FsWriter) Ft_Service" where
  "demo_service = ft_build (\<lparr> fsp_base_dir = demo_base, fsp_collision = Collision_Error, fsp_index = [(NameOfFile 5, demo_base @ [[97]])] \<rparr>, demo_files) demo_ft_config"

definition demo_key :: session_key where "demo_key = (CommonAddress 1, NameOfFile 5)"

definition demo_wakes :: "Ft_Wake list" where
  "demo_wakes = [Ft_Intent (Fetch (CommonAddress 1) (NameOfFile 5) 7), Ft_Intent (Push (CommonAddress 1) (NameOfFile 5) 8)]"

text \<open>The fetch opens a session and waits for the peer; the push of the same file is refused.\<close>

lemma demo_run:
  "\<exists>self a. ft_run demo_bytes (fs_api demo_os full_read) demo_ft_world demo_wakes demo_service = Some (Ok self) \<and>
     get_session demo_key self = Some a \<and> act_reply a = Some 7 \<and> last_progress (act_session a) = Some 0 \<and>
     svc_clock_reads self = 1 \<and> svc_config self = demo_ft_config"
  by (simp add: demo_wakes_def demo_service_def demo_key_def demo_ft_world_def demo_ft_config_def ft_build_def ft_step_def on_intent_def ft_reply_def
    fs_api_def open_write_def resolve_def demo_os_def demo_files_def demo_base_def with_partial_suffix_def octets_of_def
    begin_session_def ft_now_def session_step_def session_dispatch_def session_new_def on_start_def check_timeout_def is_terminal_def
    ses_emit_def Let_def put_session_def get_session_def ft_log_def perform_def ft_send_def session_config_def)

text \<open>
  C27. The service task never panics and never loops: whatever requests, ASDUs and ticks arrive, in any
  order, with any clock and any answers of the provider, the run returns. The provider only has to
  deliver readers that come closer to the end of their file with every octet they return.
\<close>
theorem service_total:
  assumes "bytes_crate bo" and "file_reader api left"
  shows "\<exists>self'. ft_run bo api w wakes (ft_build p cfg) = Some (Ok self')"
  by (rule ft_environment.run_total [OF ft_environment.intro [OF assms]]) simp

theorem service_total_witness:
  "\<exists>self'. ft_run demo_bytes (fs_api demo_os full_read) demo_ft_world demo_wakes demo_service = Some (Ok self')"
  unfolding demo_service_def by (rule service_total [OF demo_bytes_laws(1) fs_reader.file_reader_axioms])





text \<open>
  C30. The table of sessions, after any run: it never holds more sessions than configured nor two for the
  same address and file name, every session is under its own file name, a receiver has a writer and no
  reader, a sender a reader and no writer, and no session is idle or finished, so that nothing is left
  behind when a transfer ends.
\<close>
theorem session_table:
  assumes "ft_run bo api w wakes (ft_build p cfg) = Some (Ok self)"
  shows "length (svc_sessions self) \<le> ftc_max_concurrent_sessions cfg \<and> distinct (map fst (svc_sessions self)) \<and>
    (\<forall>ca nof a. get_session (ca, nof) self = Some a \<longrightarrow>
       ses_nof (act_session a) = nof \<and> ses_state (act_session a) \<notin> {Idle, Session_Completed, Session_Failed} \<and>
       (if ses_role (act_session a) = Receiver then act_writer a \<noteq> None \<and> act_reader a = None
        else act_reader a \<noteq> None \<and> act_writer a = None))"
proof -
  have ok: "table_ok self" "\<And>key a. get_session key self = Some a \<Longrightarrow> resting a"
    using ft_run_ok [OF assms service_ok_build] unfolding service_ok_def by blast+
  have "svc_config self = cfg" using config_run [OF service_ok_build assms] by (simp add: ft_build_def)
  with ok(1) have "length (svc_sessions self) \<le> ftc_max_concurrent_sessions cfg" "distinct (map fst (svc_sessions self))"
    by (simp_all add: table_ok_def)
  moreover have "ses_nof (act_session a) = nof \<and> ses_state (act_session a) \<notin> {Idle, Session_Completed, Session_Failed} \<and>
       (if ses_role (act_session a) = Receiver then act_writer a \<noteq> None \<and> act_reader a = None
        else act_reader a \<noteq> None \<and> act_writer a = None)" if "get_session (ca, nof) self = Some a" for ca nof a
    using table_ok_get [OF ok(1) that] ok(2) [OF that]
    by (auto simp: active_ok_def resting_def is_terminal_def split: SessionRole.splits)
  ultimately show ?thesis by blast
qed

theorem session_table_witness:
  "\<exists>self a. ft_run demo_bytes (fs_api demo_os full_read) demo_ft_world demo_wakes demo_service = Some (Ok self) \<and>
     length (svc_sessions self) \<le> 3 \<and> get_session demo_key self = Some a \<and> ses_state (act_session a) \<noteq> Idle"
proof -
  obtain self a where run: "ft_run demo_bytes (fs_api demo_os full_read) demo_ft_world demo_wakes demo_service = Some (Ok self)"
    and a: "get_session demo_key self = Some a"
    using demo_run by blast
  from session_table [OF run [unfolded demo_service_def]] a have "length (svc_sessions self) \<le> 3 \<and> ses_state (act_session a) \<noteq> Idle"
    by (simp add: demo_ft_config_def demo_key_def)
  with run a show ?thesis by blast
qed

text \<open>
  C28. Every request is answered exactly once: after any run the requests that have been answered and
  those whose session is still open are, counted with multiplicity, the requests received. No answer is
  sent twice, none is sent to nobody, and none is lost when a session ends in any way.
\<close>
theorem replies_once:
  assumes "ft_run bo api w wakes (ft_build p cfg) = Some (Ok self)"
  shows "mset (replies (svc_trace self)) + mset (waiting (svc_sessions self)) = mset (requests wakes)"
  using balance_run [OF service_ok_build assms] by (simp add: balance_def ft_build_def)

theorem replies_once_witness:
  "\<exists>self. ft_run demo_bytes (fs_api demo_os full_read) demo_ft_world demo_wakes demo_service = Some (Ok self) \<and>
     mset (replies (svc_trace self)) + mset (waiting (svc_sessions self)) = {#7, 8#}"
proof -
  obtain self where run: "ft_run demo_bytes (fs_api demo_os full_read) demo_ft_world demo_wakes demo_service = Some (Ok self)"
    using demo_run by blast
  from replies_once [OF run [unfolded demo_service_def]] run show ?thesis by (auto simp: demo_wakes_def)
qed

text \<open>
  C31. A tick, after any run: it always returns, whatever the provider does. Every session that has made
  no progress for the idle timeout is removed, its end is announced as a timeout and its requester, if
  it has one, is told; every other session stays as it was, except that a session that has not yet made
  any progress starts its idle time now.
\<close>
theorem tick_reaps:
  assumes "ft_run bo api w wakes (ft_build p cfg) = Some (Ok self)"
    and "\<And>ks. mset (ft_key_order w ks) = mset ks"
  shows "\<exists>self'. ft_step bo api w Ft_Tick self = Some (Ok self') \<and>
    (\<forall>key a. get_session key self = Some a \<longrightarrow> reaped (ft_clock w (svc_clock_reads self)) key a self')"
proof -
  let ?self = "self\<lparr> svc_clock_reads := Suc (svc_clock_reads self) \<rparr>" and ?now = "ft_clock w (svc_clock_reads self)"
  let ?keys = "ft_key_order w (map fst (svc_sessions self))"
  have ok: "service_ok ?self" using ft_run_ok [OF assms(1) service_ok_build] by simp
  have keys: "distinct ?keys" "set ?keys = fst ` set (svc_sessions self)"
    using ok assms(2) [of "map fst (svc_sessions self)"] mset_eq_imp_distinct_iff [OF assms(2)] mset_eq_setD [OF assms(2)]
    by (simp_all add: service_ok_def table_ok_def)
  obtain self' where tick: "tick_keys bo api w ?now ?keys ?self = Some self'"
      "\<And>k a. k \<in> set ?keys \<Longrightarrow> get_session k ?self = Some a \<Longrightarrow> reaped ?now k a self'"
    using tick_keys_reap [OF ok keys(1), of bo api w ?now] by blast
  have "ft_step bo api w Ft_Tick self = Some (Ok self')"
    using tick(1) by (simp add: ft_step_def ft_on_tick_def ft_now_def)
  moreover have "reaped ?now key a self'" if "get_session key self = Some a" for key a
  proof (rule tick(2))
    show "key \<in> set ?keys" using that unfolding keys(2) get_session_def by (force dest: map_of_SomeD)
  qed (simp add: that)
  ultimately show ?thesis by blast
qed

theorem tick_reaps_witness:
  "\<exists>self self'. ft_run demo_bytes (fs_api demo_os full_read) demo_ft_world demo_wakes demo_service = Some (Ok self) \<and>
     get_session demo_key self \<noteq> None \<and>
     ft_step demo_bytes (fs_api demo_os full_read) demo_ft_world Ft_Tick self = Some (Ok self') \<and>
     get_session demo_key self' = None \<and> Ft_Reply 7 (Inl Ft_Other) \<in> set (svc_trace self')"
proof -
  let ?api = "fs_api demo_os full_read"
  obtain self a where run: "ft_run demo_bytes ?api demo_ft_world demo_wakes demo_service = Some (Ok self)"
      and a: "get_session demo_key self = Some a" "act_reply a = Some 7" "last_progress (act_session a) = Some 0"
      and self: "svc_clock_reads self = 1" "svc_config self = demo_ft_config"
    using demo_run by blast
  have "mset (ft_key_order demo_ft_world ks) = mset ks" for ks by (simp add: demo_ft_world_def)
  from tick_reaps [OF run [unfolded demo_service_def] this] obtain self' where
      step: "ft_step demo_bytes ?api demo_ft_world Ft_Tick self = Some (Ok self')"
      and "reaped (ft_clock demo_ft_world (svc_clock_reads self)) demo_key a self'"
    using a(1) by blast
  then have reaped: "reaped 6 demo_key a self'" by (simp add: self(1) demo_ft_world_def)
  have ok: "service_ok self" using ft_run_ok [OF run] by (simp add: demo_service_def)
  have "svc_config self' = demo_ft_config"
    using config_run [OF ok, of demo_bytes ?api demo_ft_world "[Ft_Tick]"] step self(2) by simp
  with a(3) have "expired 6 self' a" by (simp add: expired_def demo_ft_config_def saturating_duration_since_def)
  with reaped a run step show ?thesis by (auto simp: reaped_def)
qed

section \<open>A file on its way\<close>


definition demo_request :: Asdu where
  "demo_request = Asdu_from_payload (F_SC_NA_1_impl demo_bytes) (Cot_with Cause_FILE_TRANSFER) (CommonAddress 1) (Vsq_single 1)
     \<lparr> sc_ioa = Ioa 0, sc_nof = NameOfFile 5, sc_nos = NameOfSection 0, sc_scq = Scq_new RequestFile 0 \<rparr> AsduAddressing_IEC104"

definition demo_sender :: "(octets, FsWriter) ActiveSession" where
  "demo_sender = \<lparr> act_session = (session_new Sender (NameOfFile 5) (session_config demo_service))
       \<lparr> ses_state := TxAwaitRequest, file_length := 3, section_length := 3, last_progress := Some 0 \<rparr>,
     act_reader = Some [1, 2, 3], act_writer = None, act_reply = None, act_last_tick = 0 \<rparr>"

lemma demo_request_decodes:
  "peek_nof demo_request = Some (NameOfFile 5)"
  "decode_ft_asdu demo_bytes demo_request =
     Ok (Some (SelectCall \<lparr> sc_ioa = Ioa 0, sc_nof = NameOfFile 5, sc_nos = NameOfSection 0, sc_scq = Scq_new RequestFile 0 \<rparr>))"
  by code_simp+


text \<open>
  C32. The driver and the service can wait for each other forever. The channels between them hold 32
  entries each. If the peer requests a file of more than 30 segments and, in the same burst, sends more
  than 32 further file-transfer ASDUs, a state is reached in which no step is possible: the driver waits
  for room in the channel of ASDUs, the service for room in the channel of commands. The timers of the
  connection are run by the same driver task and stop as well.
\<close>
theorem channels_deadlock:
  fixes j :: "(FsProvider \<times> Files, octets, FsWriter) Junction"
  assumes "\<And>tr. ft_driver_open w tr"
    and "peek_nof asdu = Some nof" and "decode_ft_asdu bo asdu = Ok (Some (SelectCall sc))"
    and "scq_action (sc_scq sc) = RequestFile"
    and "get_session (ca, nof) (jn_self j) = Some a" and "act_reader a = Some content"
    and "ses_role (act_session a) = Sender" and "ses_state (act_session a) = TxAwaitRequest"
    and "ses_actions (act_session a) = []" and "\<not> awaiting_provider (act_session a)"
    and "0 < idle_timeout (ses_config (act_session a))" and "length content < 2 ^ 32"
    and "30 * segment_size (ses_config (act_session a)) < length content"
    and "jn_cmds j = []" "jn_asdus j = []" "jn_driver j = []" "jn_service j = []"
  shows "\<exists>j'. (jn_step bo (fs_api os full_read) w)\<^sup>*\<^sup>* j j' \<and> (\<nexists>j''. jn_step bo (fs_api os full_read) w j' j'')"
proof -
  let ?m = "segment_size (ses_config (act_session a))"
  obtain self' where step: "ft_step bo (fs_api os full_read) w (Ft_Incoming ca asdu) (jn_self j) = Some (Ok self')"
    and tr: "\<exists>x y f. svc_trace self' = svc_trace (jn_self j) @ [wire bo (F_SR_NA_1_impl bo) ca x] @
      map (\<lambda>c. wire bo (F_SG_NA_1_impl bo) ca (f c)) (chunks ?m content) @ [wire bo (F_LS_NA_1_impl bo) ca y]"
    using request_streamed [OF assms(1-12), of os] by blast
  have "0 < ?m" by (simp add: segment_size_def)
  from chunks_length [OF this, of content] assms(13) have "?m * 30 < ?m * length (chunks ?m content)" by linarith
  then have "30 < length (chunks ?m content)" by (rule mult_less_cancel1 [THEN iffD1, THEN conjunct2])
  with tr have "COMMAND_CHANNEL < length (new_commands (jn_self j) self')"
    by (auto simp: new_commands_def length_commands_of_wires COMMAND_CHANNEL_def simp del: map_filter_simps)
  moreover have "ASDU_CHANNEL < length (replicate 33 (ca, asdu))" by (simp add: ASDU_CHANNEL_def)
  ultimately obtain j' where "(jn_step bo (fs_api os full_read) w)\<^sup>*\<^sup>* j j'" "deadlocked j'"
    using burst_deadlocks [OF step] assms(14-17) by blast
  with deadlocked_stuck show ?thesis by blast
qed

theorem channels_deadlock_witness:
  "\<exists>j'. (jn_step demo_bytes (fs_api demo_os full_read) demo_ft_world)\<^sup>*\<^sup>*
      \<lparr> jn_cmds = [], jn_asdus = [], jn_driver = [], jn_service = [],
        jn_self = put_session demo_key (demo_sender\<lparr> act_reader := Some (replicate 61 1) \<rparr>) demo_service \<rparr> j' \<and>
     (\<nexists>j''. jn_step demo_bytes (fs_api demo_os full_read) demo_ft_world j' j'')"
proof -
  have "ft_driver_open demo_ft_world tr" for tr by (simp add: demo_ft_world_def)
  moreover have "scq_action (Scq_new RequestFile 0) = RequestFile" by code_simp
  ultimately show ?thesis
    using channels_deadlock [of demo_ft_world, OF _ demo_request_decodes, of "CommonAddress 1"
      "\<lparr> jn_cmds = [], jn_asdus = [], jn_driver = [], jn_service = [],
        jn_self = put_session demo_key (demo_sender\<lparr> act_reader := Some (replicate 61 1) \<rparr>) demo_service \<rparr>"
      "demo_sender\<lparr> act_reader := Some (replicate 61 1) \<rparr>" "replicate 61 1" demo_os]
    by (simp add: demo_sender_def demo_key_def session_new_def session_config_def demo_service_def ft_build_def demo_ft_config_def
      segment_size_def MAX_SEGMENT_BYTES_def)
qed

end
