(* ===== verification/Spec2Isabelle.thy ===== *)
theory Spec2Isabelle
  imports Asdu_Properties Conn_Properties Link_Properties File_Properties Driver_Properties Fs_Properties Ft_Properties
begin

text \<open>
  A verification library for the IEC 60870-5-101/-104 protocol stack under
  \<^verbatim>\<open>src/crates/iec60870-proto\<close>: application-layer encoding (information elements, information
  objects, ASDUs), the -104 framing and connection state machine, the -101 framing and link layer,
  and the file-transfer session.

  \<^item> \<open>Iec_Prelude\<close>: machine integers, errors, the external crate \<^verbatim>\<open>bytes\<close>, the codec contract.
  \<^item> \<open>Ie_Elements\<close>: the information elements of \<^verbatim>\<open>asdu/ie.rs\<close>.
\<close>

section \<open>Application layer\<close>

text \<open>
  A CP56Time2a value whose fields fit their bit fields (minute below 64, hour and day below 32,
  weekday below 8, month below 16, year below 128) is recovered by the decoder from the seven octets
  the encoder appends, and whatever follows these octets is left in the buffer.
\<close>
theorem cp56_roundtrip:
  assumes "bytes_crate bo" and "Cp56Time2a_wf t"
  shows "\<exists>w. length w = 7 \<and> Cp56Time2a_encode bo t buf = buf @ w \<and>
    Cp56Time2a_decode bo (w @ rest) = Ok (t, rest)"
  by (rule bytes_crate.cp56_wire_roundtrip [OF assms])

theorem cp56_roundtrip_witness:
  "\<exists>w. length w = 7 \<and>
    Cp56Time2a_encode slice_api \<lparr> cp56_milliseconds = 59999, cp56_minute = 30, cp56_hour = 23, cp56_day = 31,
      cp56_day_of_week = 7, cp56_month = 12, cp56_year = 99, cp56_summer_time = True, cp56_invalid = False,
      cp56_genuine = True \<rparr> [] = w \<and>
    Cp56Time2a_decode slice_api (w @ [1]) =
      Ok (\<lparr> cp56_milliseconds = 59999, cp56_minute = 30, cp56_hour = 23, cp56_day = 31,
      cp56_day_of_week = 7, cp56_month = 12, cp56_year = 99, cp56_summer_time = True, cp56_invalid = False,
      cp56_genuine = True \<rparr>, [1])"
  using cp56_roundtrip [OF slice_api_laws, of "\<lparr> cp56_milliseconds = 59999, cp56_minute = 30, cp56_hour = 23, cp56_day = 31,
      cp56_day_of_week = 7, cp56_month = 12, cp56_year = 99, cp56_summer_time = True, cp56_invalid = False,
      cp56_genuine = True \<rparr>" "[]" "[1]"]
  by (simp add: Cp56Time2a_wf_def)

section \<open>Across the layers\<close>

text \<open>
  C5. The whole -104 transmit and receive path: a payload of any type that meets the payload contract,
  wrapped in an ASDU and sent in an I-frame, comes back unchanged from the octets on the wire, together
  with its sequence numbers, qualifier, cause and common address, provided the ASDU is at most 249
  octets long.
\<close>
theorem payload_over_the_wire:
  assumes "bytes_crate bo" and "payload_contract P fits" and "fits vsq a p" and "header_fits a vsq cot ca"
    and "SeqNo_wf s" and "SeqNo_wf r" and "asdu = Asdu_encode_to_vec bo (Asdu_from_payload P cot ca vsq p a) a"
    and "length asdu \<le> MAX_ASDU_LEN" and "MAX_APDU_LEN \<le> remaining_mut bo buf"
  shows "\<exists>w x. Codec_encode bo (I s r asdu) buf = (Ok (length w), buf @ w) \<and>
    Codec_decode_slice bo (w @ rest) = Ok (Some (I s r asdu, length w)) \<and>
    Asdu_decode bo asdu a = Ok (x, []) \<and> asdu_vsq x = vsq \<and> asdu_cot x = cot \<and> asdu_ca x = ca \<and>
    Asdu_decode_payload P x a = Ok p"
proof -
  have wf: "Apdu_wf (I s r asdu)" using assms(5,6,8) by (simp add: Apdu_wf_def)
  from payload_contract.asdu_roundtrip [OF assms(2,1,3,4)] obtain x
    where "Asdu_decode bo asdu a = Ok (x, [])" "asdu_vsq x = vsq" "asdu_cot x = cot" "asdu_ca x = ca"
      "Asdu_decode_payload P x a = Ok p"
    unfolding assms(7) Asdu_encode_to_vec_def by blast
  with bytes_crate.Codec_encode_ok [OF assms(1) wf assms(9)] bytes_crate.decode_slice_wire [OF assms(1) wf, of rest]
  show ?thesis by (intro exI [of _ "apdu_wire (I s r asdu)"] exI [of _ x]) simp
qed

theorem payload_over_the_wire_witness:
  "\<exists>w x asdu. Codec_encode slice_api (I (SeqNo 32767) (SeqNo 3) asdu) [] = (Ok (length w), w) \<and>
    Codec_decode_slice slice_api (w @ [0x68]) = Ok (Some (I (SeqNo 32767) (SeqNo 3) asdu, length w)) \<and>
    Asdu_decode slice_api asdu AsduAddressing_IEC104 = Ok (x, []) \<and>
    Asdu_decode_payload (M_ME_NB_1_impl slice_api) x AsduAddressing_IEC104 = Ok demo_scaled"
proof -
  let ?asdu = "Asdu_encode_to_vec slice_api (Asdu_from_payload (M_ME_NB_1_impl slice_api) Cot_act (CommonAddress 7)
    (Vsq_sequence 2) demo_scaled AsduAddressing_IEC104) AsduAddressing_IEC104"
  have "header_fits AsduAddressing_IEC104 (Vsq_sequence 2) Cot_act (CommonAddress 7)"
    "io_fits plain (Vsq_sequence 2) AsduAddressing_IEC104 demo_scaled" "SeqNo_wf (SeqNo 32767)" "SeqNo_wf (SeqNo 3)"
    by code_simp+
  moreover have "length ?asdu \<le> MAX_ASDU_LEN"
    by (simp add: Asdu_encode_to_vec_def bytes_crate.Asdu_encode_length [OF slice_api_laws] Asdu_header_len_def
      AsduAddressing_IEC104_def AsduAddressing_cot_len_def AsduAddressing_ca_len_def Cot_LEN_2_def Vsq_LEN_def
      Asdu_from_payload_def M_ME_NB_1_impl_def io_payload_def encode_io_list_def Vsq_sequence_def demo_scaled_def
      encode_ioa_def bytes_crate.put_simps [OF slice_api_laws] Sva_Qds_write_def Sva_encode_def Qds_encode_def
      MAX_ASDU_LEN_def Let_def)
  moreover have "MAX_APDU_LEN \<le> remaining_mut slice_api []" by (simp add: MAX_APDU_LEN_def slice_api_def)
  ultimately obtain w x where "Codec_encode slice_api (I (SeqNo 32767) (SeqNo 3) ?asdu) [] = (Ok (length w), [] @ w)"
    "Codec_decode_slice slice_api (w @ [0x68]) = Ok (Some (I (SeqNo 32767) (SeqNo 3) ?asdu, length w))"
    "Asdu_decode slice_api ?asdu AsduAddressing_IEC104 = Ok (x, [])"
    "Asdu_decode_payload (M_ME_NB_1_impl slice_api) x AsduAddressing_IEC104 = Ok demo_scaled"
    using payload_over_the_wire [OF slice_api_laws bytes_crate.monitor_contracts(4) [OF slice_api_laws] _ _ _ _ refl] by blast
  then show ?thesis by (intro exI [of _ w] exI [of _ x] exI [of _ ?asdu]) simp
qed

text \<open>
  C39. A file segment of a -104 link fits an APDU exactly when it has at most 235 octets; a segment of the
  default size of 240 octets makes the encoder reject the ASDU of 254 octets as too long.
\<close>
theorem segment_capacity:
  assumes "bytes_crate bo" and "length (sg_segment sg) \<le> MAX_SEGMENT_BYTES"
    and "asdu = Asdu_encode_to_vec bo (Asdu_from_payload (F_SG_NA_1_impl bo) cot ca vsq sg AsduAddressing_IEC104) AsduAddressing_IEC104"
  shows "length asdu = 14 + length (sg_segment sg) \<and>
    ((\<exists>e buf'. Codec_encode bo (I s r asdu) buf = (Err e, buf')) \<longleftrightarrow> 235 < length (sg_segment sg)) \<and>
    (length (sg_segment sg) = DEFAULT_SEGMENT_BYTES \<longrightarrow> Codec_encode bo (I s r asdu) buf = (Err (AsduTooLong 254 249), buf))"
proof -
  have "length (encode_information_objects (F_SG_NA_1_impl bo) sg [] vsq AsduAddressing_IEC104) = 8 + length (sg_segment sg)"
    using bytes_crate.segment_length [OF assms(1,2), of vsq AsduAddressing_IEC104] by (simp add: AsduAddressing_IEC104_def ioa_len_def)
  then have len: "length asdu = 14 + length (sg_segment sg)"
    unfolding assms(3) Asdu_encode_to_vec_def bytes_crate.Asdu_encode_length [OF assms(1)]
    by (simp add: Asdu_header_len_def Asdu_from_payload_def AsduAddressing_IEC104_def AsduAddressing_cot_len_def
      AsduAddressing_ca_len_def Cot_LEN_2_def Vsq_LEN_def)
  then show ?thesis
    by (auto simp: Codec_encode_def MAX_ASDU_LEN_def DEFAULT_SEGMENT_BYTES_def Let_def split: if_splits)
qed

theorem segment_capacity_witness:
  "\<exists>asdu. length asdu = 254 \<and> Codec_encode slice_api (I (SeqNo 0) (SeqNo 0) asdu) [] = (Err (AsduTooLong 254 249), [])"
proof -
  obtain seg :: octets where seg: "length seg = 240" by (rule that [of "replicate 240 0"]) (rule length_replicate)
  define sg where "sg = \<lparr> sg_ioa = Ioa 0, sg_nof = NameOfFile 1, sg_nos = NameOfSection 1, sg_segment = seg \<rparr>"
  have "length (sg_segment sg) = 240" by (simp add: sg_def seg)
  then show ?thesis
    using segment_capacity [OF slice_api_laws _ refl, of sg Cot_act "CommonAddress 1" "Vsq_single 1" "SeqNo 0" "SeqNo 0" "[]"]
    by (auto simp: MAX_SEGMENT_BYTES_def DEFAULT_SEGMENT_BYTES_def)
qed

end
